(* ===== verification/Puup_Prelude.thy ===== *)
theory Puup_Prelude
  imports Main "HOL-Library.Word"
begin

section \<open>Shared types, Go run-time values and generic lemmas\<close>

text \<open>
  What every component of the development shares: byte strings and machine integers, the
  error values of the program, Go maps, Go channels with their blocking and panicking
  operations, the part of \<open>strconv\<close> and \<open>strings\<close> that the sources call, and the list
  lemmas on which the component proofs rest.  The collection \<open>go_simps\<close> gathers the
  equations that evaluate the run-time operations.
\<close>

named_theorems go_simps \<open>equations of the Go run-time operations\<close>

type_synonym byte = "8 word"
type_synonym bytes = "byte list"
type_synonym u16 = "16 word"
type_synonym u64 = "64 word"

subsection \<open>Error values\<close>

text \<open>
  An \<open>error\<close> result is an option (nil is \<open>None\<close>); a pair of value and error is a sum.
  \<open>StdError\<close> is the wrapper of \<open>stderr/error.go\<close>; the other constructors are the errors
  of the standard library and of \<open>errors.New\<close> that the sources create, return or test;
  \<open>Foreign\<close> stands for an error value that a library outside the repository returned.
\<close>

datatype go_error =
    ErrorString string
  | EOF
  | NetErrClosed
  | DeadlineExceeded
  | Canceled
  | ErrSyntax string
  | ErrRange string
  | ErrKeyNotFound
  | Foreign string
  | StdError go_error string

text \<open>
  The SDP type of the WebRTC library: an integer of which the sources distinguish two values.
\<close>

datatype SDPType = SDPTypeOffer | SDPTypeAnswer | SDPTypeOther int

subsection \<open>Maps\<close>

text \<open>
  A Go map is an association list: lookups take the first entry, and the order of the list
  carries no meaning (operations that range over a map take the order as an argument).
\<close>

type_synonym ('k, 'v) gomap = "('k \<times> 'v) list"

abbreviation gm_get :: "('k, 'v) gomap \<Rightarrow> 'k \<Rightarrow> 'v option" where
  "gm_get \<equiv> map_of"

definition gm_del :: "'k \<Rightarrow> ('k, 'v) gomap \<Rightarrow> ('k, 'v) gomap" where
  "gm_del k m = filter (\<lambda>p. fst p \<noteq> k) m"

definition gm_put :: "'k \<Rightarrow> 'v \<Rightarrow> ('k, 'v) gomap \<Rightarrow> ('k, 'v) gomap" where
  "gm_put k v m = (k, v) # gm_del k m"

definition gm_keys :: "('k, 'v) gomap \<Rightarrow> 'k list" where
  "gm_keys m = map fst m"

definition gm_wf :: "('k, 'v) gomap \<Rightarrow> bool" where
  "gm_wf m \<longleftrightarrow> distinct (map fst m)"

subsection \<open>Channels\<close>

text \<open>
  A channel is a bounded queue with a closed flag.  A send on a full channel blocks, a send
  on a closed one panics; a receive takes the oldest value, reports the closing once the
  queue is empty, and blocks on an open empty channel; closing twice panics (\<open>None\<close>).
\<close>

record 'a gochan =
  ch_cap :: nat
  ch_buf :: "'a list"
  ch_closed :: bool

datatype 'a send_result = Sent "'a gochan" | SendBlocks | SendPanics

datatype 'a recv_result = Received 'a "'a gochan" | RecvClosed | RecvBlocks

definition make_chan :: "nat \<Rightarrow> 'a gochan" where
  "make_chan n = \<lparr>ch_cap = n, ch_buf = [], ch_closed = False\<rparr>"

definition chan_send :: "'a gochan \<Rightarrow> 'a \<Rightarrow> 'a send_result" where
  "chan_send c v =
     (if ch_closed c then SendPanics
      else if length (ch_buf c) < ch_cap c then Sent (c\<lparr>ch_buf := ch_buf c @ [v]\<rparr>)
      else SendBlocks)"

definition chan_recv :: "'a gochan \<Rightarrow> 'a recv_result" where
  "chan_recv c =
     (case ch_buf c of
        v # vs \<Rightarrow> Received v (c\<lparr>ch_buf := vs\<rparr>)
      | [] \<Rightarrow> if ch_closed c then RecvClosed else RecvBlocks)"

definition chan_close :: "'a gochan \<Rightarrow> 'a gochan option" where
  "chan_close c = (if ch_closed c then None else Some (c\<lparr>ch_closed := True\<rparr>))"

text \<open>
  A receive from a \<open>chan struct{}\<close> that serves as a broadcast flag can proceed when a value
  is queued or the channel is closed.  A \<open>select\<close> over two such receives takes any case that
  is ready (\<open>pick\<close> resolves the choice when both are) and blocks when none is.
\<close>

definition chan_ready :: "'a gochan \<Rightarrow> bool" where
  "chan_ready c \<longleftrightarrow> ch_buf c \<noteq> [] \<or> ch_closed c"

datatype sel2 = SelFirst | SelSecond | SelBlocks

definition select2 :: "bool \<Rightarrow> bool \<Rightarrow> bool \<Rightarrow> sel2" where
  "select2 pick r1 r2 =
     (if r1 \<and> r2 then (if pick then SelFirst else SelSecond)
      else if r1 then SelFirst else if r2 then SelSecond else SelBlocks)"

lemmas [go_simps] = make_chan_def chan_send_def chan_recv_def chan_close_def chan_ready_def select2_def

subsection \<open>Slices, decimal numbers, splitting\<close>

text \<open>\<open>gslice xs i j\<close> is Go's \<open>xs[i:j]\<close> for bounds in range.\<close>

definition gslice :: "'a list \<Rightarrow> nat \<Rightarrow> nat \<Rightarrow> 'a list" where
  "gslice xs i j = take (j - i) (drop i xs)"

definition digit_char :: "nat \<Rightarrow> char" where
  "digit_char d = char_of (48 + d)"

fun FormatUint :: "nat \<Rightarrow> string" where
  "FormatUint n =
     (if n < 10 then [digit_char n] else FormatUint (n div 10) @ [digit_char (n mod 10)])"

declare FormatUint.simps [simp del]

definition is_digit :: "char \<Rightarrow> bool" where
  "is_digit c \<longleftrightarrow> 48 \<le> (of_char c :: nat) \<and> (of_char c :: nat) \<le> 57"

definition digit_val :: "char \<Rightarrow> nat" where
  "digit_val c = of_char c - 48"

text \<open>
  \<open>strconv.ParseUint\<close> in base 10 at 64 bits (the loop over the digits), and \<open>strconv.Atoi\<close>
  on a platform with a 64-bit \<open>int\<close>.  Overflow is reported at the digit where it happens.
\<close>

fun ParseUint_loop :: "string \<Rightarrow> string \<Rightarrow> nat \<Rightarrow> go_error + nat" where
  "ParseUint_loop s0 [] n = Inr n"
| "ParseUint_loop s0 (c # cs) n =
     (if \<not> is_digit c then Inl (ErrSyntax s0)
      else if 2 ^ 64 \<le> 10 * n + digit_val c then Inl (ErrRange s0)
      else ParseUint_loop s0 cs (10 * n + digit_val c))"

definition ParseUint :: "string \<Rightarrow> string \<Rightarrow> go_error + nat" where
  "ParseUint s0 s = (if s = [] then Inl (ErrSyntax s0) else ParseUint_loop s0 s 0)"

definition Atoi :: "string \<Rightarrow> go_error + int" where
  "Atoi s =
     (let neg = (case s of c # _ \<Rightarrow> c = CHR ''-'' | [] \<Rightarrow> False);
          digits = (case s of c # cs \<Rightarrow> if c = CHR ''-'' \<or> c = CHR ''+'' then cs else s | [] \<Rightarrow> [])
      in case ParseUint s digits of
           Inl e \<Rightarrow> Inl e
         | Inr un \<Rightarrow>
             if \<not> neg \<and> 2 ^ 63 \<le> un then Inl (ErrRange s)
             else if neg \<and> 2 ^ 63 < un then Inl (ErrRange s)
             else Inr (if neg then - int un else int un))"

text \<open>\<open>strings.Split\<close> for a separator of one character.\<close>

fun Split :: "string \<Rightarrow> char \<Rightarrow> string list" where
  "Split [] c = [[]]"
| "Split (x # xs) c =
     (if x = c then [] # Split xs c
      else (case Split xs c of [] \<Rightarrow> [[x]] | y # ys \<Rightarrow> (x # y) # ys))"

subsection \<open>Lemmas on maps\<close>

lemma gm_get_del [simp]: "gm_get (gm_del k m) k' = (if k' = k then None else gm_get m k')"
  by (induction m) (auto simp: gm_del_def)

lemma gm_get_put [simp]: "gm_get (gm_put k v m) k' = (if k' = k then Some v else gm_get m k')"
  by (simp add: gm_put_def)

lemma gm_wf_Nil [simp]: "gm_wf []"
  by (simp add: gm_wf_def)

lemma gm_wf_del [simp]: "gm_wf m \<Longrightarrow> gm_wf (gm_del k m)"
  by (auto simp: gm_wf_def gm_del_def distinct_map_filter)

lemma gm_wf_put [simp]: "gm_wf m \<Longrightarrow> gm_wf (gm_put k v m)"
  by (auto simp: gm_wf_def gm_put_def gm_del_def distinct_map_filter)

lemma gm_put_not_Nil [simp]: "gm_put k v m \<noteq> []"
  by (simp add: gm_put_def)

lemma gm_get_Nil_iff: "m = [] \<longleftrightarrow> (\<forall>k. gm_get m k = None)"
proof (cases m)
  case (Cons p ps)
  then have "gm_get m (fst p) \<noteq> None" by (cases p) simp
  with Cons show ?thesis by (metis list.distinct(1))
qed simp

lemma gm_keys_iff: "k \<in> set (gm_keys m) \<longleftrightarrow> gm_get m k \<noteq> None"
  by (simp add: gm_keys_def map_of_eq_None_iff)

subsection \<open>Lemmas on channels\<close>

lemma make_chan_sel [simp]:
  "ch_cap (make_chan n) = n" "ch_buf (make_chan n) = []" "\<not> ch_closed (make_chan n)"
  by (simp_all add: make_chan_def)

lemma chan_send_Sent_iff:
  "chan_send c v = Sent c' \<longleftrightarrow>
     \<not> ch_closed c \<and> length (ch_buf c) < ch_cap c \<and> c' = c\<lparr>ch_buf := ch_buf c @ [v]\<rparr>"
  by (auto simp: chan_send_def)

lemma chan_send_open [go_simps]:
  "\<not> ch_closed c \<Longrightarrow> length (ch_buf c) < ch_cap c \<Longrightarrow>
     chan_send c v = Sent (c\<lparr>ch_buf := ch_buf c @ [v]\<rparr>)"
  "\<not> ch_closed c \<Longrightarrow> ch_cap c \<le> length (ch_buf c) \<Longrightarrow> chan_send c v = SendBlocks"
  "ch_closed c \<Longrightarrow> chan_send c v = SendPanics"
  by (simp_all add: chan_send_def)

lemma chan_send_not_panics: "\<not> ch_closed c \<Longrightarrow> chan_send c v \<noteq> SendPanics"
  by (simp add: chan_send_def)

lemma chan_recv_cases:
  obtains (Received) v vs where "ch_buf c = v # vs" "chan_recv c = Received v (c\<lparr>ch_buf := vs\<rparr>)"
  | (Closed) "ch_buf c = []" "ch_closed c" "chan_recv c = RecvClosed"
  | (Blocks) "ch_buf c = []" "\<not> ch_closed c" "chan_recv c = RecvBlocks"
  by (cases "ch_buf c") (auto simp: chan_recv_def)

lemma chan_ready_make [simp]: "\<not> chan_ready (make_chan n)"
  by (simp add: chan_ready_def)

lemma chan_ready_close [simp]: "chan_ready (c\<lparr>ch_closed := True\<rparr>)"
  by (simp add: chan_ready_def)

lemma select2_simps [simp]:
  "select2 p True False = SelFirst" "select2 p False True = SelSecond"
  "select2 p False False = SelBlocks"
  "select2 True True True = SelFirst" "select2 False True True = SelSecond"
  by (simp_all add: select2_def)

subsection \<open>Lemmas on slices\<close>

lemma gslice_empty [simp]: "gslice xs i i = []"
  by (simp add: gslice_def)

lemma gslice_full: "length xs \<le> j \<Longrightarrow> gslice xs i j = drop i xs"
  by (simp add: gslice_def)

lemma length_gslice [simp]: "j \<le> length xs \<Longrightarrow> length (gslice xs i j) = j - i"
  by (simp add: gslice_def)

lemma length_gslice_le: "length (gslice xs i j) \<le> j - i"
  by (simp add: gslice_def)

lemma gslice_append: "i \<le> j \<Longrightarrow> j \<le> k \<Longrightarrow> gslice xs i j @ gslice xs j k = gslice xs i k"
proof -
  assume ij: "i \<le> j" and jk: "j \<le> k"
  have "gslice xs i k = take ((j - i) + (k - j)) (drop i xs)"
    using ij jk by (simp add: gslice_def)
  also have "\<dots> = take (j - i) (drop i xs) @ take (k - j) (drop (j - i) (drop i xs))"
    by (rule take_add)
  finally show ?thesis using ij by (simp add: gslice_def)
qed

lemma gslice_drop: "i \<le> j \<Longrightarrow> gslice xs i j @ drop j xs = drop i xs"
  using gslice_append [of i j "max j (length xs)" xs] by (simp add: gslice_full)

subsection \<open>Lemmas on decimal numbers\<close>

lemma of_char_digit: "d < 10 \<Longrightarrow> (of_char (digit_char d) :: nat) = 48 + d"
  by (simp add: digit_char_def)

lemma is_digit_digit_char [simp]: "d < 10 \<Longrightarrow> is_digit (digit_char d)"
  by (simp add: is_digit_def of_char_digit)

lemma digit_val_digit_char [simp]: "d < 10 \<Longrightarrow> digit_val (digit_char d) = d"
  by (simp add: digit_val_def of_char_digit)

lemma FormatUint_not_Nil [simp]: "FormatUint n \<noteq> []"
  by (subst FormatUint.simps) simp

lemma FormatUint_digits: "c \<in> set (FormatUint n) \<Longrightarrow> is_digit c"
proof (induction n rule: FormatUint.induct)
  case (1 n)
  then show ?case by (subst (asm) (2) FormatUint.simps) (auto split: if_splits)
qed

lemma ParseUint_loop_append:
  "ParseUint_loop s0 (xs @ ys) n =
     (case ParseUint_loop s0 xs n of Inl e \<Rightarrow> Inl e | Inr m \<Rightarrow> ParseUint_loop s0 ys m)"
  by (induction xs arbitrary: n) auto

lemma ParseUint_loop_FormatUint: "n < 2 ^ 64 \<Longrightarrow> ParseUint_loop s0 (FormatUint n) 0 = Inr n"
proof (induction n rule: FormatUint.induct)
  case (1 n)
  show ?case
  proof (cases "n < 10")
    case True
    then show ?thesis by (subst FormatUint.simps) simp
  next
    case False
    have eq: "10 * (n div 10) + n mod 10 = n" by simp
    have "ParseUint_loop s0 (FormatUint (n div 10)) 0 = Inr (n div 10)"
      using 1 False by simp
    moreover have "FormatUint n = FormatUint (n div 10) @ [digit_char (n mod 10)]"
      using False by (subst FormatUint.simps) simp
    ultimately show ?thesis
      using 1(2) eq by (simp add: ParseUint_loop_append)
  qed
qed

lemma FormatUint_hd: "\<exists>c cs. FormatUint n = c # cs \<and> is_digit c"
  using FormatUint_digits [of _ n] FormatUint_not_Nil [of n]
  by (metis list.set_intros(1) neq_Nil_conv)

lemma sign_not_digit [simp]: "\<not> is_digit (CHR ''-'')" "\<not> is_digit (CHR ''+'')"
  by (simp_all add: is_digit_def)

lemma Atoi_FormatUint:
  assumes "n < 2 ^ 64"
  shows "Atoi (FormatUint n) = (if n < 2 ^ 63 then Inr (int n) else Inl (ErrRange (FormatUint n)))"
proof -
  obtain c cs where fmt: "FormatUint n = c # cs" and "is_digit c"
    using FormatUint_hd by blast
  then have sgn: "c \<noteq> CHR ''-''" "c \<noteq> CHR ''+''" by auto
  have "ParseUint (FormatUint n) (FormatUint n) = Inr n"
    using assms by (simp add: ParseUint_def ParseUint_loop_FormatUint)
  then show ?thesis
    using fmt sgn by (auto simp: Atoi_def Let_def)
qed

lemma unat_u64: "unat (w :: u64) < 2 ^ 64"
  by (rule order_less_le_trans [OF unsigned_less]) simp

lemma FormatUint_inj: "m < 2 ^ 64 \<Longrightarrow> n < 2 ^ 64 \<Longrightarrow> FormatUint m = FormatUint n \<Longrightarrow> m = n"
  by (metis ParseUint_loop_FormatUint sum.inject(2))

subsection \<open>Lemmas on splitting\<close>

lemma Split_not_Nil [simp]: "Split s c \<noteq> []"
  by (cases s) (auto split: list.split)

lemma Split_none: "c \<notin> set s \<Longrightarrow> Split s c = [s]"
  by (induction s) auto

lemma Split_append: "c \<notin> set a \<Longrightarrow> Split (a @ c # b) c = a # Split b c"
  by (induction a) auto

lemma Split_pieces: "p \<in> set (Split s c) \<Longrightarrow> c \<notin> set p"
  by (induction s arbitrary: p) (auto split: if_splits list.splits)

end
