(* ===== verification/Stderr.thy ===== *)
theory Stderr
  imports Puup_Prelude
begin

section \<open>Wrapped errors (\<open>stderr/error.go\<close>)\<close>

text \<open>
  \<open>stderr.Wrap\<close> attaches the stack trace (an argument here, \<open>debug.Stack()\<close> in the code) to an
  error, once: an error that is already a \<open>StdError\<close> is returned unchanged.  \<open>errors_Is\<close> is the
  standard library's \<open>errors.Is\<close>, which follows \<open>Unwrap\<close> methods; \<open>StdError\<close> has none.
\<close>

definition Wrap :: "string \<Rightarrow> go_error option \<Rightarrow> go_error option" where
  "Wrap stack err =
     (case err of
        None \<Rightarrow> None
      | Some e \<Rightarrow> (case e of StdError _ _ \<Rightarrow> Some e | _ \<Rightarrow> Some (StdError e stack)))"

definition stderr_New :: "string \<Rightarrow> string \<Rightarrow> go_error option" where
  "stderr_New stack s = Wrap stack (Some (ErrorString s))"

text \<open>The wrapper on an error known not to be nil, as most callers use it.\<close>

definition wrap_err :: "string \<Rightarrow> go_error \<Rightarrow> go_error" where
  "wrap_err stack e = (case Wrap stack (Some e) of Some e' \<Rightarrow> e' | None \<Rightarrow> e)"

fun StdError_Error :: "(go_error \<Rightarrow> string) \<Rightarrow> go_error \<Rightarrow> string" where
  "StdError_Error show_err (StdError e stacks) =
     ''err:'' @ StdError_Error show_err e @ [CHR 0x0A] @ ''stacks:'' @ stacks"
| "StdError_Error show_err e = show_err e"

definition errors_Is :: "go_error option \<Rightarrow> go_error \<Rightarrow> bool" where
  "errors_Is err target \<longleftrightarrow> err = Some target"

lemma wrap_err_StdError [simp]: "wrap_err st (StdError e s) = StdError e s"
  by (simp add: wrap_err_def Wrap_def)

lemma Wrap_Some: "Wrap st (Some e) = Some (wrap_err st e)"
  by (simp add: wrap_err_def Wrap_def split: go_error.split)

lemma wrap_err_is_StdError: "\<exists>e' s. wrap_err st e = StdError e' s"
  by (cases e) (simp_all add: wrap_err_def Wrap_def)

end
