(* ===== verification/Addr.thy ===== *)
theory Addr
  imports Stderr
begin

section \<open>Channel types, labels and addresses (\<open>net/conn/addr.go\<close>)\<close>

text \<open>
  A data channel is named by a label \<open>type:index\<close>.  The label is written with
  \<open>Label.String\<close> when a channel is created and read back with \<open>parseLabel\<close> on the other
  side.  \<open>%s\<close> prints a \<open>ChannelType\<close> through its \<open>String\<close> method, which maps unknown types
  to \<open>unknown\<close>; \<open>parseLabel\<close> reads the index with \<open>strconv.Atoi\<close> and converts the signed
  result to \<open>uint64\<close>.
\<close>

type_synonym ChannelType = string

definition Keepalive :: ChannelType where "Keepalive = ''keepalive''"
definition Cmd :: ChannelType where "Cmd = ''command''"
definition Web :: ChannelType where "Web = ''web''"
definition Proxy :: ChannelType where "Proxy = ''proxy''"
definition Ssh :: ChannelType where "Ssh = ''ssh''"
definition File :: ChannelType where "File = ''file''"

definition known_types :: "ChannelType list" where
  "known_types = [Cmd, Keepalive, Web, Proxy, Ssh, File]"

definition ChannelType_String :: "ChannelType \<Rightarrow> string" where
  "ChannelType_String t = (if t \<in> set known_types then t else ''unknown'')"

record Label =
  lb_type :: ChannelType
  lb_index :: u64

definition NewLabel :: "ChannelType \<Rightarrow> u64 \<Rightarrow> Label" where
  "NewLabel ct idx = \<lparr>lb_type = ct, lb_index = idx\<rparr>"

definition Label_String :: "Label \<Rightarrow> string" where
  "Label_String l = ChannelType_String (lb_type l) @ '':'' @ FormatUint (unat (lb_index l))"

record ServerAddr =
  sa_label :: Label
  sa_name :: string

definition NewServerAddr :: "string \<Rightarrow> Label \<Rightarrow> ServerAddr" where
  "NewServerAddr serverName label = \<lparr>sa_label = label, sa_name = serverName\<rparr>"

definition ServerAddr_Network :: "ServerAddr \<Rightarrow> string" where
  "ServerAddr_Network a = ''webrtc''"

definition ServerAddr_String :: "ServerAddr \<Rightarrow> string" where
  "ServerAddr_String a = sa_name a @ ''.'' @ Label_String (sa_label a)"

record ClientAddr =
  ca_label :: Label
  ca_id :: string

definition NewClientAddr :: "string \<Rightarrow> Label \<Rightarrow> ClientAddr" where
  "NewClientAddr clientId label = \<lparr>ca_label = label, ca_id = clientId\<rparr>"

definition ClientAddr_Network :: "ClientAddr \<Rightarrow> string" where
  "ClientAddr_Network a = ''webrtc''"

definition ClientAddr_String :: "ClientAddr \<Rightarrow> string" where
  "ClientAddr_String a = ca_id a @ ''.'' @ Label_String (ca_label a)"

text \<open>The stack trace that \<open>stderr\<close> records is the argument \<open>st\<close>.\<close>

definition parseLabel :: "string \<Rightarrow> string \<Rightarrow> go_error + Label" where
  "parseLabel st label =
     (case Split label (CHR '':'') of
        [a0, a1] \<Rightarrow>
          (case Atoi a1 of
             Inl e \<Rightarrow> Inl (wrap_err st e)
           | Inr idx \<Rightarrow> Inr \<lparr>lb_type = a0, lb_index = word_of_int idx\<rparr>)
      | _ \<Rightarrow> Inl (wrap_err st (ErrorString (''invalid label: '' @ label))))"

text \<open>
  A codec contract: on the values of the domain, decoding inverts encoding.  Labels, the
  proxy's port header and the stored file records are read back under this contract.
\<close>

locale codec =
  fixes enc :: "'a \<Rightarrow> 'b"
    and dec :: "'b \<Rightarrow> go_error + 'a"
    and dm :: "'a \<Rightarrow> bool"
  assumes dec_enc: "dm x \<Longrightarrow> dec (enc x) = Inr x"
begin

lemma enc_inj: "dm x \<Longrightarrow> dm y \<Longrightarrow> enc x = enc y \<Longrightarrow> x = y"
  by (metis dec_enc sum.inject(2))

lemma dec_iff: "dm x \<Longrightarrow> dm y \<Longrightarrow> dec (enc x) = Inr y \<longleftrightarrow> x = y"
  by (simp add: dec_enc)

end

lemmas type_defs = Keepalive_def Cmd_def Web_def Proxy_def Ssh_def File_def known_types_def

lemma known_type_String [simp]: "t \<in> set known_types \<Longrightarrow> ChannelType_String t = t"
  by (simp add: ChannelType_String_def)

lemma ChannelType_String_no_colon: "CHR '':'' \<notin> set (ChannelType_String t)"
  by (auto simp: ChannelType_String_def type_defs)

lemma FormatUint_no_colon: "CHR '':'' \<notin> set (FormatUint n)"
  using FormatUint_digits [of "CHR '':''" n] by (auto simp: is_digit_def)

lemma Split_Label_String:
  "Split (Label_String l) (CHR '':'') = [ChannelType_String (lb_type l), FormatUint (unat (lb_index l))]"
  by (simp add: Label_String_def Split_append ChannelType_String_no_colon Split_none FormatUint_no_colon)

lemma parseLabel_Label_String:
  "parseLabel st (Label_String l) =
     (if unat (lb_index l) < 2 ^ 63
      then Inr (l\<lparr>lb_type := ChannelType_String (lb_type l)\<rparr>)
      else Inl (StdError (ErrRange (FormatUint (unat (lb_index l)))) st))"
proof -
  have "word_of_int (int (unat (lb_index l))) = lb_index l" by simp
  then show ?thesis
    using Atoi_FormatUint [OF unat_u64, of "lb_index l"]
    by (simp add: parseLabel_def Split_Label_String wrap_err_def Wrap_def)
qed

definition label_dom :: "Label \<Rightarrow> bool" where
  "label_dom l \<longleftrightarrow> lb_type l \<in> set known_types \<and> unat (lb_index l) < 2 ^ 63"

interpretation label: codec Label_String "parseLabel st" label_dom
  by unfold_locales (simp add: label_dom_def parseLabel_Label_String)

text \<open>
  C35: a label written by \<open>Label.String\<close> is read back by \<open>parseLabel\<close> on the other side as the
  same label whenever its type is one of the six known types and its index is below \<open>2^63\<close>;
  from \<open>2^63\<close> on \<open>parseLabel\<close> fails with the wrapped range error of \<open>Atoi\<close>; a label of a type
  outside the six comes back with the type \<open>unknown\<close>.
\<close>

theorem label_roundtrip:
  "parseLabel st (Label_String (NewLabel ct idx)) =
     (if unat idx < 2 ^ 63
      then Inr (NewLabel (if ct \<in> set known_types then ct else ''unknown'') idx)
      else Inl (StdError (ErrRange (FormatUint (unat idx))) st))"
  by (simp add: parseLabel_Label_String NewLabel_def ChannelType_String_def)

text \<open>
  Two labels of known types with the same text are the same label, over the whole range of the
  index: the pool's maps, keyed by the text, never confuse two labels.
\<close>

lemma Label_String_inj:
  assumes "lb_type l \<in> set known_types" "lb_type l' \<in> set known_types"
    and eq: "Label_String l = Label_String l'"
  shows "l = l'"
proof -
  have "Split (Label_String l) (CHR '':'') = Split (Label_String l') (CHR '':'')"
    using eq by simp
  then have "lb_type l = lb_type l'" "FormatUint (unat (lb_index l)) = FormatUint (unat (lb_index l'))"
    using assms(1,2) by (simp_all add: Split_Label_String)
  then have "unat (lb_index l) = unat (lb_index l')"
    using FormatUint_inj unat_u64 by blast
  with \<open>lb_type l = lb_type l'\<close> show ?thesis
    by (cases l; cases l') (simp add: word_unat_eq_iff)
qed

end
