(* ===== verification/Channel.thy ===== *)
theory Channel
  imports Addr
begin

section \<open>Data channels (\<open>net/conn/channel.go\<close>)\<close>

text \<open>
  A \<open>Channel\<close> turns a WebRTC data channel into a byte stream.  \<open>Write\<close> cuts its argument into
  batches of 4096 bytes and hands each to \<open>dc.Send\<close>; \<open>OnMessage\<close> takes the channel when it is
  idle (and announces it to the listener on the answering side) and queues the message, again in
  batches, on the \<open>recvData\<close> channel of capacity 10; \<open>Read\<close> reads that queue through a
  \<open>bufio.Reader\<close>.  The data channel itself is library code: its state is the type parameter of the
  record and its \<open>Send\<close> and \<open>Close\<close> are arguments.  Blocking and panicking are outcomes of the
  model, so that every send, receive and nil dereference of the source is a branch here.
\<close>

datatype ChanStatus = Opening | Idle | Active | Closed

definition go_min :: "nat \<Rightarrow> nat \<Rightarrow> nat" where
  "go_min a b = (if a < b then a else b)"

subsection \<open>The reader of a channel\<close>

record ChannelReader =
  rd_batch :: nat
  rd_recv :: "bytes gochan"

definition NewChannelReader :: "nat \<Rightarrow> ChannelReader" where
  "NewChannelReader batchSize = \<lparr>rd_batch = batchSize, rd_recv = make_chan 10\<rparr>"

definition ChannelReader_Release :: "ChannelReader \<Rightarrow> ChannelReader option" where
  "ChannelReader_Release r =
     (case chan_close (rd_recv r) of None \<Rightarrow> None | Some c \<Rightarrow> Some (r\<lparr>rd_recv := c\<rparr>))"

text \<open>
  \<open>OnData\<close> runs in the data channel's callback.  It returns, parks at index \<open>i\<close> because the queue
  is full (the goroutine continues from there once a reader made room), or panics on a send to a
  released reader.  Every completed send fills the bounded queue, so the loop ends for every batch size.
\<close>

datatype ondata = OnDone ChannelReader | OnParked ChannelReader nat | OnPanic

function OnData_from :: "ChannelReader \<Rightarrow> bytes \<Rightarrow> nat \<Rightarrow> ondata" where
  "OnData_from r data i =
     (if i < length data then
        (case chan_send (rd_recv r) (gslice data i (go_min (i + rd_batch r) (length data))) of
           Sent c \<Rightarrow> OnData_from (r\<lparr>rd_recv := c\<rparr>) data (i + rd_batch r)
         | SendBlocks \<Rightarrow> OnParked r i
         | SendPanics \<Rightarrow> OnPanic)
      else OnDone r)"
  by pat_completeness auto
termination
  by (relation "measure (\<lambda>(r, data, i). ch_cap (rd_recv r) - length (ch_buf (rd_recv r)))")
    (auto simp: chan_send_Sent_iff)

declare OnData_from.simps [simp del]

definition ChannelReader_OnData :: "ChannelReader \<Rightarrow> bytes \<Rightarrow> ondata" where
  "ChannelReader_OnData r data = OnData_from r data 0"

text \<open>A read into a buffer of \<open>n\<close> bytes: a queued batch must fit, or the code panics.\<close>

datatype rd_result = RdData bytes ChannelReader | RdEOF | RdBlocks | RdPanics

definition ChannelReader_Read :: "ChannelReader \<Rightarrow> nat \<Rightarrow> rd_result" where
  "ChannelReader_Read r n =
     (case chan_recv (rd_recv r) of
        RecvBlocks \<Rightarrow> RdBlocks
      | RecvClosed \<Rightarrow> RdEOF
      | Received d c \<Rightarrow> if n < length d then RdPanics else RdData d (r\<lparr>rd_recv := c\<rparr>))"

subsection \<open>The standard library's \<open>bufio.Reader\<close> over it\<close>

text \<open>
  \<open>bufio.NewReader\<close> makes a buffer of 4096 bytes.  \<open>Read\<close> serves buffered bytes first, reads large
  requests directly, and otherwise fills the buffer with one read of the underlying reader.
\<close>

record bufio =
  bf_size :: nat
  bf_unread :: bytes
  bf_err :: "go_error option"

definition bufio_NewReader :: bufio where
  "bufio_NewReader = \<lparr>bf_size = 4096, bf_unread = [], bf_err = None\<rparr>"

datatype read_result = ReadRet bytes "go_error option" bufio ChannelReader | ReadBlocks | ReadPanics

definition bufio_Read :: "bufio \<Rightarrow> ChannelReader \<Rightarrow> nat \<Rightarrow> read_result" where
  "bufio_Read b r n =
     (if n = 0 then
        (if bf_unread b \<noteq> [] then ReadRet [] None b r
         else ReadRet [] (bf_err b) (b\<lparr>bf_err := None\<rparr>) r)
      else if bf_unread b \<noteq> [] then
        ReadRet (take n (bf_unread b)) None (b\<lparr>bf_unread := drop n (bf_unread b)\<rparr>) r
      else
        (case bf_err b of
           Some e \<Rightarrow> ReadRet [] (Some e) (b\<lparr>bf_err := None\<rparr>) r
         | None \<Rightarrow>
             if bf_size b \<le> n then
               (case ChannelReader_Read r n of
                  RdBlocks \<Rightarrow> ReadBlocks
                | RdPanics \<Rightarrow> ReadPanics
                | RdEOF \<Rightarrow> ReadRet [] (Some EOF) b r
                | RdData d r' \<Rightarrow> ReadRet d None b r')
             else
               (case ChannelReader_Read r (bf_size b) of
                  RdBlocks \<Rightarrow> ReadBlocks
                | RdPanics \<Rightarrow> ReadPanics
                | RdEOF \<Rightarrow> ReadRet [] (Some EOF) b r
                | RdData d r' \<Rightarrow> ReadRet (take n d) None (b\<lparr>bf_unread := drop n d\<rparr>) r')))"

subsection \<open>The channel and its life cycle\<close>

text \<open>
  \<open>c_accept\<close> says whether the \<open>accept\<close> channel was set (it is shared with the listener, so its
  state is passed to \<open>OnMessage\<close>).  The \<open>release\<close> channel of the struct is never used by any of its
  methods.  \<open>c_rd\<close> and \<open>c_buffer\<close> are nil until the channel is taken.
\<close>

datatype net_addr = AServer ServerAddr | AClient ClientAddr

record 'd Channel =
  c_status :: ChanStatus
  c_type :: SDPType
  c_label :: Label
  c_laddr :: "net_addr option"
  c_raddr :: "net_addr option"
  c_dc :: 'd
  c_open :: "unit gochan"
  c_close :: "unit gochan"
  c_accept :: bool
  c_batch :: nat
  c_rd :: "ChannelReader option"
  c_buffer :: "bufio option"

definition newChannel :: "'d \<Rightarrow> SDPType \<Rightarrow> Label \<Rightarrow> 'd Channel" where
  "newChannel dc typ label =
     \<lparr>c_status = Idle, c_type = typ, c_label = label, c_laddr = None, c_raddr = None, c_dc = dc,
      c_open = make_chan 0, c_close = make_chan 0, c_accept = False, c_batch = 4096,
      c_rd = None, c_buffer = None\<rparr>"

definition NewOfferChannel :: "string \<Rightarrow> string \<Rightarrow> 'd \<Rightarrow> Label \<Rightarrow> 'd Channel" where
  "NewOfferChannel sname cid dc label =
     (newChannel dc SDPTypeOffer label)
       \<lparr>c_laddr := Some (AClient (NewClientAddr cid label)),
        c_raddr := Some (AServer (NewServerAddr sname label))\<rparr>"

definition NewAnswerChannel :: "string \<Rightarrow> string \<Rightarrow> 'd \<Rightarrow> Label \<Rightarrow> bool \<Rightarrow> 'd Channel" where
  "NewAnswerChannel sname cid dc label accept =
     (newChannel dc SDPTypeAnswer label)
       \<lparr>c_accept := accept,
        c_raddr := Some (AClient (NewClientAddr cid label)),
        c_laddr := Some (AServer (NewServerAddr sname label))\<rparr>"

definition Channel_Label :: "'d Channel \<Rightarrow> Label" where
  "Channel_Label c = c_label c"

definition Channel_LocalAddr :: "'d Channel \<Rightarrow> net_addr option" where
  "Channel_LocalAddr c = c_laddr c"

definition Channel_RemoteAddr :: "'d Channel \<Rightarrow> net_addr option" where
  "Channel_RemoteAddr c = c_raddr c"

text \<open>The callbacks that \<open>newChannel\<close> registers for the opening and closing of the data channel.\<close>

definition Channel_onOpen :: "'d Channel \<Rightarrow> 'd Channel" where
  "Channel_onOpen c =
     (if chan_ready (c_open c) then c
      else case chan_close (c_open c) of None \<Rightarrow> c | Some o' \<Rightarrow> c\<lparr>c_open := o'\<rparr>)"

definition Channel_onClose :: "'d Channel \<Rightarrow> 'd Channel" where
  "Channel_onClose c =
     (if chan_ready (c_close c) then c
      else case chan_close (c_close c) of None \<Rightarrow> c | Some o' \<Rightarrow> c\<lparr>c_close := o'\<rparr>)"

definition Channel_TakeConn :: "'d Channel \<Rightarrow> bool \<times> 'd Channel" where
  "Channel_TakeConn c =
     (if c_status c \<noteq> Idle then (False, c)
      else (True, c\<lparr>c_status := Active, c_rd := Some (NewChannelReader (c_batch c)),
                   c_buffer := Some bufio_NewReader\<rparr>))"

definition Channel_Release :: "'d Channel \<Rightarrow> 'd Channel option" where
  "Channel_Release c =
     (if c_status c \<noteq> Active then Some c
      else case c_rd c of
             None \<Rightarrow> None
           | Some r \<Rightarrow>
               (case ChannelReader_Release r of
                  None \<Rightarrow> None
                | Some r' \<Rightarrow> Some (c\<lparr>c_rd := Some r', c_status := Idle\<rparr>)))"

definition Channel_Close ::
  "('d \<Rightarrow> 'd \<times> go_error option) \<Rightarrow> 'd Channel \<Rightarrow> ('d Channel \<times> go_error option) option" where
  "Channel_Close dcClose c =
     (let c1 = c\<lparr>c_status := Closed\<rparr> in
      if chan_ready (c_close c1) then Some (c1, None)
      else case chan_close (c_close c1) of
             None \<Rightarrow> None
           | Some cl \<Rightarrow> (case dcClose (c_dc c1) of (d, e) \<Rightarrow> Some (c1\<lparr>c_close := cl, c_dc := d\<rparr>, e)))"

subsection \<open>Receiving\<close>

datatype 'd msg_result =
    MsgIgnored
  | MsgWaits
  | MsgDone "'d Channel"
  | MsgParked "'d Channel" nat
  | MsgAcceptBlocks "'d Channel"
  | MsgPanic

text \<open>\<open>c.rd.OnData(data)\<close> continued at index \<open>i\<close>; a nil reader is dereferenced only when there is data.\<close>

definition Channel_feed :: "'d Channel \<Rightarrow> bytes \<Rightarrow> nat \<Rightarrow> 'd msg_result" where
  "Channel_feed c data i =
     (case c_rd c of
        None \<Rightarrow> if i < length data then MsgPanic else MsgDone c
      | Some r \<Rightarrow>
          (case OnData_from r data i of
             OnDone r' \<Rightarrow> MsgDone (c\<lparr>c_rd := Some r'\<rparr>)
           | OnParked r' j \<Rightarrow> MsgParked (c\<lparr>c_rd := Some r'\<rparr>) j
           | OnPanic \<Rightarrow> MsgPanic))"

definition Channel_OnMessage ::
  "bool \<Rightarrow> 'r \<Rightarrow> 'r gochan \<Rightarrow> 'd Channel \<Rightarrow> bytes \<Rightarrow> 'd msg_result \<times> 'r gochan" where
  "Channel_OnMessage pick self acc c data =
     (case select2 pick (chan_ready (c_close c)) (chan_ready (c_open c)) of
        SelFirst \<Rightarrow> (MsgIgnored, acc)
      | SelBlocks \<Rightarrow> (MsgWaits, acc)
      | SelSecond \<Rightarrow>
          (case Channel_TakeConn c of (taken, c1) \<Rightarrow>
             if taken \<and> c_type c1 = SDPTypeAnswer \<and> c_accept c1 then
               (case chan_send acc self of
                  Sent acc' \<Rightarrow> (Channel_feed c1 data 0, acc')
                | SendBlocks \<Rightarrow> (MsgAcceptBlocks c1, acc)
                | SendPanics \<Rightarrow> (MsgPanic, acc))
             else (Channel_feed c1 data 0, acc)))"

datatype 's chan_read = CRead bytes "go_error option" 's | CReadBlocks | CReadPanics

definition Channel_Read :: "'d Channel \<Rightarrow> nat \<Rightarrow> 'd Channel chan_read" where
  "Channel_Read c n =
     (case (c_buffer c, c_rd c) of
        (Some b, Some r) \<Rightarrow>
          if chan_ready (c_close c) \<and> bf_unread b = [] then CRead [] (Some EOF) c
          else (case bufio_Read b r n of
                  ReadRet bs e b' r' \<Rightarrow> CRead bs e (c\<lparr>c_buffer := Some b', c_rd := Some r'\<rparr>)
                | ReadBlocks \<Rightarrow> CReadBlocks
                | ReadPanics \<Rightarrow> CReadPanics)
      | _ \<Rightarrow> CReadPanics)"

subsection \<open>Sending\<close>

text \<open>
  The loop of \<open>Write\<close>: \<open>pick i\<close> resolves the \<open>select\<close> at offset \<open>i\<close>, \<open>send\<close> is \<open>dc.Send\<close>.  With a
  batch size of 0 the loop of the source never ends, which is \<open>None\<close> here.
\<close>

datatype 's wr_result = WrRet nat "go_error option" 's | WrBlocks 's nat

partial_function (option) Write_from ::
  "string \<Rightarrow> ('d \<Rightarrow> bytes \<Rightarrow> 'd \<times> go_error option) \<Rightarrow> (nat \<Rightarrow> bool) \<Rightarrow> 'd Channel \<Rightarrow> bytes \<Rightarrow> nat \<Rightarrow> nat
   \<Rightarrow> 'd Channel wr_result option" where
  "Write_from st send pick c data i writen =
     (if i < length data then
        (let w = go_min (length data) (i + c_batch c) in
         case select2 (pick i) (chan_ready (c_close c)) (chan_ready (c_open c)) of
           SelFirst \<Rightarrow> Some (WrRet 0 (Some NetErrClosed) c)
         | SelBlocks \<Rightarrow> Some (WrBlocks c i)
         | SelSecond \<Rightarrow>
             (case send (c_dc c) (gslice data i w) of (d, e) \<Rightarrow>
                (case e of
                   Some er \<Rightarrow> Some (WrRet w (Some (wrap_err st er)) (c\<lparr>c_dc := d\<rparr>))
                 | None \<Rightarrow> Write_from st send pick (c\<lparr>c_dc := d\<rparr>) data (i + c_batch c) w)))
      else Some (WrRet writen None c))"

definition Channel_Write ::
  "string \<Rightarrow> ('d \<Rightarrow> bytes \<Rightarrow> 'd \<times> go_error option) \<Rightarrow> (nat \<Rightarrow> bool) \<Rightarrow> 'd Channel \<Rightarrow> bytes
   \<Rightarrow> 'd Channel wr_result option" where
  "Channel_Write st send pick c data = Write_from st send pick c data 0 0"

subsection \<open>The receiving side as a transition system\<close>

text \<open>
  One data channel at the receiver: its callbacks run one after the other, so a message whose
  queueing is parked is finished before the next one starts; reads interleave freely with them.
  \<open>rx_in\<close> records the bytes of all messages received so far, \<open>rx_out\<close> the bytes returned by \<open>Read\<close>.
\<close>

record 'd rx =
  rx_ch :: "'d Channel"
  rx_parked :: "(bytes \<times> nat) option"
  rx_in :: bytes
  rx_out :: bytes

definition rx_start :: "'d Channel \<Rightarrow> 'd rx" where
  "rx_start c = \<lparr>rx_ch = c, rx_parked = None, rx_in = [], rx_out = []\<rparr>"

inductive rx_step :: "'d rx \<Rightarrow> 'd rx \<Rightarrow> bool" where
  rx_msg: "rx_parked s = None \<Longrightarrow>
     Channel_OnMessage pick (self :: nat) acc (rx_ch s) data = (MsgDone c, acc') \<Longrightarrow>
     rx_step s (s\<lparr>rx_ch := c, rx_in := rx_in s @ data\<rparr>)"
| rx_msg_park: "rx_parked s = None \<Longrightarrow>
     Channel_OnMessage pick (self :: nat) acc (rx_ch s) data = (MsgParked c i, acc') \<Longrightarrow>
     rx_step s (s\<lparr>rx_ch := c, rx_in := rx_in s @ data, rx_parked := Some (data, i)\<rparr>)"
| rx_msg_accept: "rx_parked s = None \<Longrightarrow>
     Channel_OnMessage pick (self :: nat) acc (rx_ch s) data = (MsgAcceptBlocks c, acc') \<Longrightarrow>
     rx_step s (s\<lparr>rx_ch := c, rx_in := rx_in s @ data, rx_parked := Some (data, 0)\<rparr>)"
| rx_resume: "rx_parked s = Some (data, i) \<Longrightarrow> Channel_feed (rx_ch s) data i = MsgDone c \<Longrightarrow>
     rx_step s (s\<lparr>rx_ch := c, rx_parked := None\<rparr>)"
| rx_resume_park: "rx_parked s = Some (data, i) \<Longrightarrow> Channel_feed (rx_ch s) data i = MsgParked c j \<Longrightarrow>
     rx_step s (s\<lparr>rx_ch := c, rx_parked := Some (data, j)\<rparr>)"
| rx_read: "c_status (rx_ch s) = Active \<Longrightarrow> Channel_Read (rx_ch s) n = CRead bs e c \<Longrightarrow>
     rx_step s (s\<lparr>rx_ch := c, rx_out := rx_out s @ bs\<rparr>)"

inductive rx_reach :: "'d Channel \<Rightarrow> 'd rx \<Rightarrow> bool" for c0 where
  rx_init: "rx_reach c0 (rx_start c0)"
| rx_next: "rx_reach c0 s \<Longrightarrow> rx_step s t \<Longrightarrow> rx_reach c0 t"

subsection \<open>Batches\<close>

function chunks :: "nat \<Rightarrow> 'a list \<Rightarrow> 'a list list" where
  "chunks n xs = (if xs = [] \<or> n = 0 then [] else take n xs # chunks n (drop n xs))"
  by pat_completeness auto
termination
  by (relation "measure (\<lambda>(n, xs). length xs)") auto

declare chunks.simps [simp del]

lemma chunks_Nil [simp]: "chunks n [] = []"
  by (subst chunks.simps) simp

lemma concat_chunks: "0 < n \<Longrightarrow> concat (chunks n xs) = xs"
proof (induction n xs rule: chunks.induct)
  case (1 n xs)
  then show ?case by (subst chunks.simps) auto
qed

lemma chunks_bounded: "x \<in> set (chunks n xs) \<Longrightarrow> x \<noteq> [] \<and> length x \<le> n"
proof (induction n xs rule: chunks.induct)
  case (1 n xs)
  then show ?case by (auto simp: chunks.simps [of n xs] split: if_splits)
qed

lemma go_min_eq: "go_min a b = min a b"
  by (simp add: go_min_def)

lemma batch_slice: "gslice data i (min (i + n) (length data)) = take n (drop i data)"
  by (cases "i + n \<le> length data") (simp_all add: gslice_def)

subsection \<open>The reader's queue\<close>

definition queued :: "ChannelReader \<Rightarrow> bytes" where
  "queued r = concat (ch_buf (rd_recv r))"

definition reader_ok :: "ChannelReader \<Rightarrow> bool" where
  "reader_ok r \<longleftrightarrow> rd_batch r = 4096 \<and> ch_cap (rd_recv r) = 10 \<and>
     (\<forall>x \<in> set (ch_buf (rd_recv r)). x \<noteq> [] \<and> length x \<le> 4096)"

lemma reader_ok_New [simp]: "reader_ok (NewChannelReader 4096)" "queued (NewChannelReader n) = []"
  by (simp_all add: reader_ok_def NewChannelReader_def queued_def)

lemma OnData_from_spec:
  assumes "\<not> ch_closed (rd_recv r)" "reader_ok r"
  shows "case OnData_from r data i of
           OnDone r' \<Rightarrow> reader_ok r' \<and> \<not> ch_closed (rd_recv r') \<and> queued r' = queued r @ drop i data
         | OnParked r' j \<Rightarrow> reader_ok r' \<and> \<not> ch_closed (rd_recv r') \<and>
             queued r' @ drop j data = queued r @ drop i data
         | OnPanic \<Rightarrow> False"
  using assms
proof (induction r data i rule: OnData_from.induct)
  case (1 r data i)
  show ?case
  proof (cases "i < length data \<and> length (ch_buf (rd_recv r)) < ch_cap (rd_recv r)")
    case True
    let ?x = "gslice data i (go_min (i + rd_batch r) (length data))"
    let ?r = "r\<lparr>rd_recv := (rd_recv r)\<lparr>ch_buf := ch_buf (rd_recv r) @ [?x]\<rparr>\<rparr>"
    have x: "?x = take 4096 (drop i data)"
      using 1(3) by (simp add: go_min_eq batch_slice reader_ok_def)
    have send: "chan_send (rd_recv r) ?x = Sent ((rd_recv r)\<lparr>ch_buf := ch_buf (rd_recv r) @ [?x]\<rparr>)"
      using True 1(2) by (simp add: chan_send_open)
    have ok: "\<not> ch_closed (rd_recv ?r)" "reader_ok ?r"
      using 1(2,3) True unfolding x by (auto simp: reader_ok_def)
    have q: "queued ?r @ drop (i + rd_batch r) data = queued r @ drop i data"
      using 1(3) unfolding x
      by (simp add: queued_def reader_ok_def add.commute [of i]) (metis append_take_drop_id drop_drop)
    have step: "OnData_from r data i = OnData_from ?r data (i + rd_batch r)"
      using True send by (subst OnData_from.simps) simp
    show ?thesis
      using 1(1) [OF _ send ok] True q unfolding step by (simp split: ondata.splits)
  next
    case False
    then show ?thesis
      using 1(2,3) by (subst OnData_from.simps) (auto simp: chan_send_open)
  qed
qed

lemma ChannelReader_Read_spec:
  assumes "reader_ok r" "4096 \<le> n"
  shows "case ChannelReader_Read r n of
           RdData d r' \<Rightarrow> reader_ok r' \<and> d \<noteq> [] \<and> length d \<le> n \<and> queued r = d @ queued r'
             \<and> ch_closed (rd_recv r') = ch_closed (rd_recv r)
         | RdEOF \<Rightarrow> queued r = [] \<and> ch_closed (rd_recv r)
         | RdBlocks \<Rightarrow> queued r = [] \<and> \<not> ch_closed (rd_recv r)
         | RdPanics \<Rightarrow> False"
  using assms
  by (cases "rd_recv r" rule: chan_recv_cases)
    (auto simp: ChannelReader_Read_def reader_ok_def queued_def)

subsection \<open>The invariant of a channel\<close>

text \<open>
  \<open>chan_inv\<close>: the reader and its buffer exist together, batches fit the buffer, and the reader of
  an active channel is not released.  \<open>stream\<close> are the received bytes not yet returned by \<open>Read\<close>.
\<close>

definition chan_inv :: "'d Channel \<Rightarrow> bool" where
  "chan_inv c \<longleftrightarrow> c_batch c = 4096 \<and>
     (case (c_rd c, c_buffer c) of
        (None, None) \<Rightarrow> c_status c \<noteq> Active
      | (Some r, Some b) \<Rightarrow> reader_ok r \<and> bf_size b = 4096 \<and> bf_err b = None
          \<and> (c_status c = Active \<longrightarrow> \<not> ch_closed (rd_recv r))
      | _ \<Rightarrow> False)"

definition stream :: "'d Channel \<Rightarrow> bytes" where
  "stream c = (case c_buffer c of None \<Rightarrow> [] | Some b \<Rightarrow> bf_unread b)
            @ (case c_rd c of None \<Rightarrow> [] | Some r \<Rightarrow> queued r)"

lemma chan_inv_ActiveE:
  assumes "chan_inv c" "c_status c = Active"
  obtains r b where "c_rd c = Some r" "c_buffer c = Some b" "reader_ok r" "bf_size b = 4096"
    "bf_err b = None" "\<not> ch_closed (rd_recv r)"
  using assms by (auto simp: chan_inv_def split: option.splits)

lemma chan_inv_new [simp]:
  "chan_inv (newChannel d t l)" "chan_inv (NewOfferChannel sn cid d l)"
  "chan_inv (NewAnswerChannel sn cid d l a)"
  by (simp_all add: chan_inv_def newChannel_def NewOfferChannel_def NewAnswerChannel_def)

lemma chan_inv_onOpen [simp]: "chan_inv (Channel_onOpen c) = chan_inv c"
  by (simp add: Channel_onOpen_def chan_inv_def split: option.split)

lemma chan_inv_onClose [simp]: "chan_inv (Channel_onClose c) = chan_inv c"
  by (simp add: Channel_onClose_def chan_inv_def split: option.split)

text \<open>Both ends of a channel agree on its two addresses, each calling its own the local one.\<close>

lemma addresses_mirror:
  "Channel_LocalAddr (NewOfferChannel sn cid d l) = Channel_RemoteAddr (NewAnswerChannel sn cid d' l a)"
  "Channel_RemoteAddr (NewOfferChannel sn cid d l) = Channel_LocalAddr (NewAnswerChannel sn cid d' l a)"
  by (simp_all add: Channel_LocalAddr_def Channel_RemoteAddr_def NewOfferChannel_def NewAnswerChannel_def)

lemma TakeConn_inv: "chan_inv c \<Longrightarrow> Channel_TakeConn c = (t, c') \<Longrightarrow> chan_inv c'"
  by (auto simp: Channel_TakeConn_def chan_inv_def bufio_NewReader_def NewChannelReader_def
        reader_ok_def split: if_splits)

lemma TakeConn_True_iff: "Channel_TakeConn c = (True, c') \<longleftrightarrow> c_status c = Idle \<and>
     c' = c\<lparr>c_status := Active, c_rd := Some (NewChannelReader (c_batch c)),
            c_buffer := Some bufio_NewReader\<rparr>"
  by (auto simp: Channel_TakeConn_def)

lemma TakeConn_False_iff: "Channel_TakeConn c = (False, c') \<longleftrightarrow> c_status c \<noteq> Idle \<and> c' = c"
  by (auto simp: Channel_TakeConn_def)

lemma Release_inv:
  assumes "chan_inv c"
  shows "\<exists>c'. Channel_Release c = Some c' \<and> chan_inv c' \<and> c_status c' \<noteq> Active"
proof (cases "c_status c = Active")
  case True
  then obtain r where "c_rd c = Some r" "\<not> ch_closed (rd_recv r)"
    using assms by (auto elim: chan_inv_ActiveE)
  with assms True show ?thesis
    by (auto simp: Channel_Release_def ChannelReader_Release_def chan_close_def chan_inv_def
        reader_ok_def split: option.splits)
qed (use assms in \<open>simp add: Channel_Release_def\<close>)

lemma Close_inv: "chan_inv c \<Longrightarrow> Channel_Close dcClose c = Some (c', e) \<Longrightarrow> chan_inv c'"
  by (auto simp: Channel_Close_def Let_def chan_inv_def split: if_splits option.splits prod.splits)

lemma feed_spec:
  assumes "chan_inv c" "c_status c = Active"
  shows "case Channel_feed c data i of
           MsgDone c' \<Rightarrow> chan_inv c' \<and> c_status c' = Active \<and> stream c' = stream c @ drop i data
         | MsgParked c' j \<Rightarrow> chan_inv c' \<and> c_status c' = Active \<and>
             stream c' @ drop j data = stream c @ drop i data
         | _ \<Rightarrow> False"
proof -
  obtain r b where rb: "c_rd c = Some r" "c_buffer c = Some b" "reader_ok r" "bf_size b = 4096"
    "bf_err b = None" and op: "\<not> ch_closed (rd_recv r)"
    using assms by (rule chan_inv_ActiveE)
  show ?thesis
    using OnData_from_spec [OF op rb(3), where data = data and i = i] rb assms(2) assms(1)
    by (auto simp: Channel_feed_def chan_inv_def stream_def split: ondata.splits)
qed

lemma OnMessage_cases:
  assumes "Channel_OnMessage pick self acc c data = (res, acc')"
  shows "res = MsgIgnored \<or> res = MsgWaits \<or>
    (\<exists>t c1. Channel_TakeConn c = (t, c1) \<and>
       (res = Channel_feed c1 data 0 \<or> res = MsgAcceptBlocks c1 \<or> res = MsgPanic \<and> ch_closed acc))"
  using assms
  by (auto simp: Channel_OnMessage_def chan_send_def split: sel2.splits prod.splits if_splits)

lemma bufio_Read_spec:
  assumes "reader_ok r" "bf_size b = 4096" "bf_err b = None"
  shows "case bufio_Read b r n of
           ReadRet bs e b' r' \<Rightarrow> reader_ok r' \<and> bf_size b' = 4096 \<and> bf_err b' = None
             \<and> ch_closed (rd_recv r') = ch_closed (rd_recv r)
             \<and> bf_unread b @ queued r = bs @ bf_unread b' @ queued r'
             \<and> length bs \<le> n
             \<and> (e = None \<or> e = Some EOF \<and> bs = [] \<and> ch_closed (rd_recv r) \<and> bf_unread b @ queued r = [])
             \<and> (0 < n \<longrightarrow> bf_unread b @ queued r \<noteq> [] \<longrightarrow> bs \<noteq> [])
         | ReadBlocks \<Rightarrow> 0 < n \<and> bf_unread b @ queued r = [] \<and> \<not> ch_closed (rd_recv r)
         | ReadPanics \<Rightarrow> False"
proof (cases "n = 0 \<or> bf_unread b \<noteq> []")
  case True
  with assms show ?thesis by (auto simp: bufio_Read_def)
next
  case False
  then have "4096 \<le> max n 4096" "0 < n" by simp_all
  with False assms ChannelReader_Read_spec [OF assms(1), of n] ChannelReader_Read_spec [OF assms(1), of 4096]
  show ?thesis
    by (cases "4096 \<le> n") (auto simp: bufio_Read_def split: rd_result.splits)
qed

lemma Channel_Read_spec:
  assumes "chan_inv c" "c_buffer c \<noteq> None"
  shows "case Channel_Read c n of
           CRead bs e c' \<Rightarrow> chan_inv c' \<and> c_status c' = c_status c \<and> c_buffer c' \<noteq> None
             \<and> stream c = bs @ stream c' \<and> length bs \<le> n
             \<and> (\<not> chan_ready (c_close c) \<longrightarrow> 0 < n \<longrightarrow> stream c \<noteq> [] \<longrightarrow> bs \<noteq> [] \<and> e = None)
         | CReadBlocks \<Rightarrow> 0 < n \<and> stream c = []
         | CReadPanics \<Rightarrow> False"
proof -
  obtain r b where rb: "c_rd c = Some r" "c_buffer c = Some b" "reader_ok r" "bf_size b = 4096"
    "bf_err b = None"
    using assms by (auto simp: chan_inv_def split: option.splits)
  show ?thesis
    using bufio_Read_spec [OF rb(3-5), of n] rb assms(1)
    by (auto simp: Channel_Read_def chan_inv_def stream_def split: read_result.splits)
qed

subsection \<open>The contract of \<open>ReadWriterReleaser\<close>\<close>

text \<open>
  What the pool and \<open>net.Conn\<close> rely on when they take and release a channel through the interface:
  taking succeeds only on a free channel and makes it active, releasing never fails and frees it.
\<close>

locale releaser =
  fixes take_conn :: "'s \<Rightarrow> bool \<times> 's"
    and release :: "'s \<Rightarrow> 's option"
    and active :: "'s \<Rightarrow> bool"
    and inv :: "'s \<Rightarrow> bool"
  assumes take_True: "inv s \<Longrightarrow> take_conn s = (True, s') \<Longrightarrow> \<not> active s \<and> active s' \<and> inv s'"
    and take_False: "take_conn s = (False, s') \<Longrightarrow> s' = s"
    and take_active: "active s \<Longrightarrow> fst (take_conn s) = False"
    and release_frees: "inv s \<Longrightarrow> \<exists>s'. release s = Some s' \<and> inv s' \<and> \<not> active s'"
    and release_free: "inv s \<Longrightarrow> \<not> active s \<Longrightarrow> release s = Some s"
begin

lemma take_exclusive: "inv s \<Longrightarrow> take_conn s = (True, s') \<Longrightarrow> take_conn s' = (False, s')"
  using take_True [of s s'] take_active [of s'] take_False [of s' "snd (take_conn s')"]
  by (metis prod.collapse)

lemma release_twice: "inv s \<Longrightarrow> release s = Some s' \<Longrightarrow> release s' = Some s'"
  using release_frees [of s] release_free [of s'] by auto

lemma take_inv: "inv s \<Longrightarrow> inv (snd (take_conn s))"
  using take_True [of s] take_False [of s] by (metis prod.collapse)

end

interpretation chan_releaser:
  releaser Channel_TakeConn Channel_Release "\<lambda>c. c_status c = Active" chan_inv
proof unfold_locales
  fix c c' :: "'d Channel"
  show "chan_inv c \<Longrightarrow> Channel_TakeConn c = (True, c') \<Longrightarrow>
    c_status c \<noteq> Active \<and> c_status c' = Active \<and> chan_inv c'"
    using TakeConn_inv [of c True c'] by (auto simp: TakeConn_True_iff)
  show "Channel_TakeConn c = (False, c') \<Longrightarrow> c' = c"
    by (simp add: TakeConn_False_iff)
  show "c_status c = Active \<Longrightarrow> fst (Channel_TakeConn c) = False"
    by (simp add: Channel_TakeConn_def)
  show "chan_inv c \<Longrightarrow> \<exists>c'. Channel_Release c = Some c' \<and> chan_inv c' \<and> c_status c' \<noteq> Active"
    by (rule Release_inv)
  show "chan_inv c \<Longrightarrow> c_status c \<noteq> Active \<Longrightarrow> Channel_Release c = Some c"
    by (simp add: Channel_Release_def)
qed

subsection \<open>Invariant of the receiving side\<close>

definition rx_rest :: "'d rx \<Rightarrow> bytes" where
  "rx_rest s = stream (rx_ch s) @ (case rx_parked s of None \<Rightarrow> [] | Some (d, i) \<Rightarrow> drop i d)"

definition rx_inv :: "'d rx \<Rightarrow> bool" where
  "rx_inv s \<longleftrightarrow> chan_inv (rx_ch s)
     \<and> (c_status (rx_ch s) = Active \<or> c_status (rx_ch s) = Idle \<and> stream (rx_ch s) = [] \<and> rx_parked s = None)
     \<and> rx_out s @ rx_rest s = rx_in s"

definition rx_ready :: "'d Channel \<Rightarrow> bool" where
  "rx_ready c \<longleftrightarrow> chan_inv c \<and> c_status c = Idle \<and> stream c = []"

lemma stream_TakeConn:
  "Channel_TakeConn c = (t, c') \<Longrightarrow> chan_inv c \<Longrightarrow>
     c_status c = Active \<or> c_status c = Idle \<and> stream c = [] \<Longrightarrow>
     chan_inv c' \<and> c_status c' = Active \<and> stream c' = stream c"
  using TakeConn_inv [of c t c']
  by (cases t) (auto simp: TakeConn_True_iff TakeConn_False_iff stream_def bufio_NewReader_def)

lemma rx_msg_inv:
  assumes "rx_inv s" "rx_parked s = None" "Channel_OnMessage pick self acc (rx_ch s) data = (res, acc')"
  shows "case res of
           MsgDone c \<Rightarrow> chan_inv c \<and> c_status c = Active \<and> stream c = stream (rx_ch s) @ data
         | MsgParked c i \<Rightarrow> chan_inv c \<and> c_status c = Active \<and> stream c @ drop i data = stream (rx_ch s) @ data
         | MsgAcceptBlocks c \<Rightarrow> chan_inv c \<and> c_status c = Active \<and> stream c = stream (rx_ch s)
         | MsgPanic \<Rightarrow> ch_closed acc
         | _ \<Rightarrow> True"
proof -
  obtain t c1 where take: "Channel_TakeConn (rx_ch s) = (t, c1)" by fastforce
  then have c1: "chan_inv c1" "c_status c1 = Active" "stream c1 = stream (rx_ch s)"
    using stream_TakeConn [OF take] assms(1) by (auto simp: rx_inv_def)
  show ?thesis
    using OnMessage_cases [OF assms(3)] take c1 feed_spec [OF c1(1,2), where data = data and i = 0]
    by (auto split: msg_result.splits)
qed

lemma rx_step_inv: "rx_step s t \<Longrightarrow> rx_inv s \<Longrightarrow> rx_inv t"
proof (induction rule: rx_step.induct)
  case (rx_msg s pick self acc data c acc')
  with rx_msg_inv [OF rx_msg(3,1,2)] show ?case by (auto simp: rx_inv_def rx_rest_def)
next
  case (rx_msg_park s pick self acc data c i acc')
  with rx_msg_inv [OF rx_msg_park(3,1,2)] show ?case by (auto simp: rx_inv_def rx_rest_def)
next
  case (rx_msg_accept s pick self acc data c acc')
  with rx_msg_inv [OF rx_msg_accept(3,1,2)] show ?case by (auto simp: rx_inv_def rx_rest_def)
next
  case (rx_resume s data i c)
  then show ?case using feed_spec [of "rx_ch s", where data = data and i = i] by (auto simp: rx_inv_def rx_rest_def)
next
  case (rx_resume_park s data i c j)
  then show ?case using feed_spec [of "rx_ch s", where data = data and i = i] by (auto simp: rx_inv_def rx_rest_def)
next
  case (rx_read s n bs e c)
  then have "c_buffer (rx_ch s) \<noteq> None" by (auto simp: rx_inv_def elim: chan_inv_ActiveE)
  with rx_read show ?case
    using Channel_Read_spec [of "rx_ch s" n] by (auto simp: rx_inv_def rx_rest_def)
qed

lemma rx_start_inv: "rx_ready c0 \<Longrightarrow> rx_inv (rx_start c0)"
  by (simp add: rx_start_def rx_inv_def rx_ready_def rx_rest_def)

lemma rx_reach_inv: "rx_reach c0 s \<Longrightarrow> rx_ready c0 \<Longrightarrow> rx_inv s"
  by (induction rule: rx_reach.induct) (blast intro: rx_start_inv rx_step_inv)+

subsection \<open>Writing\<close>

text \<open>
  The reference for \<open>Write\<close>: the messages go out one after the other; \<open>stop n\<close> says that the close signal
  is taken before the message at offset \<open>n\<close>.  The result is the count, the error and the data channel.
\<close>

fun send_all ::
  "('d \<Rightarrow> bytes \<Rightarrow> 'd \<times> go_error option) \<Rightarrow> (nat \<Rightarrow> bool) \<Rightarrow> string \<Rightarrow> 'd \<Rightarrow> bytes list \<Rightarrow> nat
   \<Rightarrow> nat \<times> go_error option \<times> 'd" where
  "send_all send stop st d [] n = (n, None, d)"
| "send_all send stop st d (m # ms) n =
     (if stop n then (0, Some NetErrClosed, d)
      else case send d m of
             (d', None) \<Rightarrow> send_all send stop st d' ms (n + length m)
           | (d', Some e) \<Rightarrow> (n + length m, Some (wrap_err st e), d'))"

lemma Write_from_ref:
  assumes "chan_ready (c_open c)" "c_batch c = 4096"
  shows "Write_from st send pick c data i (min i (length data)) =
    (case send_all send (\<lambda>n. chan_ready (c_close c) \<and> pick n) st (c_dc c) (chunks 4096 (drop i data)) (min i (length data)) of
       (n, e, d) \<Rightarrow> Some (WrRet n e (c\<lparr>c_dc := d\<rparr>)))"
  using assms
proof (induction "length data - i" arbitrary: c i rule: less_induct)
  case less
  show ?case
  proof (cases "i < length data")
    case True
    let ?m = "take 4096 (drop i data)"
    obtain d e where snd: "send (c_dc c) ?m = (d, e)" by fastforce
    have m: "gslice data i (min (length data) (i + 4096)) = ?m"
      using batch_slice [of data i 4096] by (simp add: min.commute)
    have chunk: "chunks 4096 (drop i data) = ?m # chunks 4096 (drop (i + 4096) data)"
      using True by (simp add: chunks.simps [of 4096 "drop i data"] add.commute)
    have count: "i + length ?m = min (i + 4096) (length data)" using True by auto
    have sel: "select2 (pick i) (chan_ready (c_close c)) (chan_ready (c_open c)) =
        (if chan_ready (c_close c) \<and> pick i then SelFirst else SelSecond)"
      using less.prems(1) by (simp add: select2_def)
    have ih: "Write_from st send pick (c\<lparr>c_dc := d\<rparr>) data (i + 4096) (min (length data) (i + 4096)) =
      (case send_all send (\<lambda>n. chan_ready (c_close c) \<and> pick n) st d (chunks 4096 (drop (i + 4096) data))
          (min (i + 4096) (length data)) of (n, e, d) \<Rightarrow> Some (WrRet n e (c\<lparr>c_dc := d\<rparr>)))"
      using less.hyps [of "i + 4096" "c\<lparr>c_dc := d\<rparr>"] True less.prems
      by (simp add: min.commute split: prod.splits)
    show ?thesis
      using True less.prems m snd sel ih count unfolding chunk
      by (subst Write_from.simps) (auto simp: Let_def go_min_eq min.commute split: option.split)
  next
    case False
    then show ?thesis by (subst Write_from.simps) simp
  qed
qed

lemma Channel_Write_ref:
  assumes "chan_inv c" "chan_ready (c_open c)"
  shows "Channel_Write st send pick c data =
    (case send_all send (\<lambda>n. chan_ready (c_close c) \<and> pick n) st (c_dc c) (chunks 4096 data) 0 of
       (n, e, d) \<Rightarrow> Some (WrRet n e (c\<lparr>c_dc := d\<rparr>)))"
  using Write_from_ref [OF assms(2), of st send pick data 0] assms(1) by (simp add: Channel_Write_def chan_inv_def)

lemma send_all_ok:
  assumes "\<And>d m. snd (send d m) = None" "\<And>n. \<not> stop n"
  shows "send_all send stop st d ms n = (n + length (concat ms), None, foldl (\<lambda>d m. fst (send d m)) d ms)"
proof (induction ms arbitrary: d n)
  case (Cons m ms)
  then show ?case using assms(1) [of d m] assms(2) by (cases "send d m") simp
qed simp

lemma Channel_Write_ok:
  assumes "chan_inv c" "chan_ready (c_open c)" "\<not> chan_ready (c_close c)" "\<And>d m. snd (send d m) = None"
  shows "Channel_Write st send pick c data =
    Some (WrRet (length data) None
            (c\<lparr>c_dc := foldl (\<lambda>d m. fst (send d m)) (c_dc c) (chunks 4096 data)\<rparr>))"
  using Channel_Write_ref [OF assms(1,2), of st send pick data] assms(3)
  by (simp add: send_all_ok [OF assms(4)] concat_chunks)

lemma foldl_append: "foldl (\<lambda>d m. d @ [m]) ds ms = ds @ ms"
  by (induction ms arbitrary: ds) auto

subsection \<open>Properties\<close>

text \<open>
  On an open channel whose \<open>dc.Send\<close> succeeds, \<open>Write\<close> returns (for every resolution of its
  selects) the full length and no error, after handing \<open>dc.Send\<close> a sequence of non-empty messages of
  at most 4096 bytes whose concatenation is exactly the data, in order.
\<close>

theorem write_sends_exactly_the_data:
  assumes "chan_inv c" "chan_ready (c_open c)" "\<not> chan_ready (c_close c)"
    and "\<And>d m. snd (send d m) = None"
  shows "\<exists>ms. concat ms = data \<and> (\<forall>m \<in> set ms. m \<noteq> [] \<and> length m \<le> 4096) \<and>
    Channel_Write st send pick c data =
      Some (WrRet (length data) None (c\<lparr>c_dc := foldl (\<lambda>d m. fst (send d m)) (c_dc c) ms\<rparr>))"
proof (intro exI conjI)
  show "concat (chunks 4096 data) = data" by (simp add: concat_chunks)
  show "\<forall>m \<in> set (chunks 4096 data). m \<noteq> [] \<and> length m \<le> 4096" using chunks_bounded by blast
  show "Channel_Write st send pick c data =
      Some (WrRet (length data) None (c\<lparr>c_dc := foldl (\<lambda>d m. fst (send d m)) (c_dc c) (chunks 4096 data)\<rparr>))"
    using assms by (rule Channel_Write_ok)
qed

theorem write_sends_exactly_the_data_witness:
  "\<exists>ms. concat ms = [1, 2, 3] \<and> (\<forall>m \<in> set ms. m \<noteq> [] \<and> length m \<le> 4096) \<and>
    Channel_Write [] (\<lambda>d m. (d @ [m], None)) (\<lambda>_. True)
      (Channel_onOpen (NewOfferChannel ''s'' ''c'' [] (NewLabel Web 1))) [1, 2, 3] =
    Some (WrRet 3 None ((Channel_onOpen (NewOfferChannel ''s'' ''c'' [] (NewLabel Web 1)))
            \<lparr>c_dc := foldl (\<lambda>d m. d @ [m]) [] ms\<rparr>))"
proof -
  let ?c = "Channel_onOpen (NewOfferChannel ''s'' ''c'' [] (NewLabel Web 1)) :: bytes list Channel"
  have "chan_ready (c_open ?c)" "\<not> chan_ready (c_close ?c)" "c_dc ?c = []"
    by (simp_all add: Channel_onOpen_def NewOfferChannel_def newChannel_def chan_close_def)
  then show ?thesis
    using write_sends_exactly_the_data [of ?c "\<lambda>d m. (d @ [m], None)" "[1, 2, 3]" "[]" "\<lambda>_. True"]
    by (simp add: numeral_3_eq_3)
qed

text \<open>
  From an idle channel on, under any interleaving of messages, parked deliveries and reads of any
  sizes, what \<open>Read\<close> has returned, followed by what is buffered, queued or parked, is exactly what was
  received: nothing is lost, duplicated or reordered.
\<close>

theorem receive_preserves_the_stream:
  assumes "rx_ready c0" "rx_reach c0 s"
  shows "rx_out s @ stream (rx_ch s) @ (case rx_parked s of None \<Rightarrow> [] | Some (d, i) \<Rightarrow> drop i d) = rx_in s"
  using rx_reach_inv [OF assms(2,1)] by (simp add: rx_inv_def rx_rest_def)

lemma rx_example:
  defines "c0 \<equiv> Channel_onOpen (NewOfferChannel ''s'' ''c'' () (NewLabel Web 1))"
  obtains s where "rx_ready c0" "rx_reach c0 s" "rx_in s = [7, 8, 9]" "rx_out s = [7, 8]"
    "stream (rx_ch s) = [9]" "rx_parked s = None"
proof -
  have ready: "rx_ready c0"
    by (simp add: rx_ready_def c0_def Channel_onOpen_def NewOfferChannel_def newChannel_def
        chan_inv_def stream_def chan_close_def)
  let ?r = "NewChannelReader 4096 \<lparr>rd_recv := make_chan 10 \<lparr>ch_buf := [[7, 8, 9]]\<rparr>\<rparr>"
  let ?c1 = "c0\<lparr>c_status := Active, c_rd := Some ?r, c_buffer := Some bufio_NewReader\<rparr>"
  let ?c2 = "?c1\<lparr>c_rd := Some (NewChannelReader 4096),
      c_buffer := Some (bufio_NewReader\<lparr>bf_unread := [9]\<rparr>)\<rparr>"
  have on: "OnData_from (NewChannelReader 4096) [7, 8, 9] 0 = OnDone ?r"
    by (simp add: OnData_from.simps NewChannelReader_def chan_send_def go_min_def gslice_def make_chan_def)
  have open_msg: "chan_ready (c_open c0)" "\<not> chan_ready (c_close c0)" "c_status c0 = Idle"
    "c_batch c0 = 4096" "c_type c0 = SDPTypeOffer"
    by (simp_all add: c0_def Channel_onOpen_def NewOfferChannel_def newChannel_def chan_close_def)
  have "Channel_OnMessage True (0::nat) (make_chan 100) c0 [7, 8, 9] = (MsgDone ?c1, make_chan 100)"
    using open_msg on by (simp add: Channel_OnMessage_def Channel_TakeConn_def Channel_feed_def)
  then have s1: "rx_step (rx_start c0) ((rx_start c0)\<lparr>rx_ch := ?c1, rx_in := [7, 8, 9]\<rparr>)"
    using rx_msg [of "rx_start c0" True 0 "make_chan 100" "[7, 8, 9]" ?c1 "make_chan 100"]
    by (simp add: rx_start_def)
  have "Channel_Read ?c1 2 = CRead [7, 8] None ?c2"
    using open_msg by (simp add: Channel_Read_def bufio_Read_def bufio_NewReader_def ChannelReader_Read_def
        chan_recv_def NewChannelReader_def make_chan_def)
  then have s2: "rx_step ((rx_start c0)\<lparr>rx_ch := ?c1, rx_in := [7, 8, 9]\<rparr>)
      ((rx_start c0)\<lparr>rx_ch := ?c2, rx_in := [7, 8, 9], rx_out := [7, 8]\<rparr>)"
    using rx_read [of "(rx_start c0)\<lparr>rx_ch := ?c1, rx_in := [7, 8, 9]\<rparr>" 2 "[7, 8]" None ?c2]
    by (simp add: rx_start_def)
  have "rx_reach c0 ((rx_start c0)\<lparr>rx_ch := ?c2, rx_in := [7, 8, 9], rx_out := [7, 8]\<rparr>)"
    using rx_reach.intros s1 s2 by blast
  with ready show thesis
    by (rule that) (simp_all add: rx_start_def stream_def queued_def NewChannelReader_def)
qed

theorem receive_preserves_the_stream_witness:
  "\<exists>c0 s. rx_ready (c0 :: unit Channel) \<and> rx_reach c0 s \<and> rx_in s = [7, 8, 9] \<and>
     rx_out s @ stream (rx_ch s) @ (case rx_parked s of None \<Rightarrow> [] | Some (d, i) \<Rightarrow> drop i d) = [7, 8, 9]"
proof -
  obtain c0 :: "unit Channel" and s where s: "rx_ready c0" "rx_reach c0 s" "rx_in s = [7, 8, 9]"
    by (rule rx_example)
  then show ?thesis using receive_preserves_the_stream [OF s(1,2)] by auto
qed

text \<open>
  C17: no read or message callback of such a run panics while the listener's accept channel is open, and
  progress is possible: a read of at least one byte returns a non-empty piece of at most the requested
  size without blocking whenever received bytes are waiting.
\<close>

theorem receive_never_panics_and_progresses:
  assumes "rx_ready c0" "rx_reach c0 s"
  shows "(\<not> ch_closed acc \<and> rx_parked s = None \<longrightarrow>
      fst (Channel_OnMessage pick self acc (rx_ch s) data) \<noteq> MsgPanic)
    \<and> (c_status (rx_ch s) = Active \<longrightarrow> Channel_Read (rx_ch s) n \<noteq> CReadPanics)
    \<and> (c_status (rx_ch s) = Active \<and> \<not> chan_ready (c_close (rx_ch s)) \<and> 0 < n \<and> stream (rx_ch s) \<noteq> [] \<longrightarrow>
      (\<exists>bs c. Channel_Read (rx_ch s) n = CRead bs None c \<and> bs \<noteq> [] \<and> length bs \<le> n))"
proof (intro conjI impI)
  have inv: "rx_inv s" using rx_reach_inv [OF assms(2,1)] .
  then have ci: "chan_inv (rx_ch s)" by (simp add: rx_inv_def)
  show "fst (Channel_OnMessage pick self acc (rx_ch s) data) \<noteq> MsgPanic"
    if h: "\<not> ch_closed acc \<and> rx_parked s = None"
    using rx_msg_inv [OF inv, of pick self acc data] h
    by (cases "Channel_OnMessage pick self acc (rx_ch s) data") auto
  have spec: "c_status (rx_ch s) = Active \<Longrightarrow>
    case Channel_Read (rx_ch s) n of
      CRead bs e c' \<Rightarrow> length bs \<le> n \<and> (\<not> chan_ready (c_close (rx_ch s)) \<longrightarrow> 0 < n \<longrightarrow>
          stream (rx_ch s) \<noteq> [] \<longrightarrow> bs \<noteq> [] \<and> e = None)
    | CReadBlocks \<Rightarrow> stream (rx_ch s) = []
    | CReadPanics \<Rightarrow> False"
    using Channel_Read_spec [OF ci, of n] ci
    by (cases "Channel_Read (rx_ch s) n") (auto elim: chan_inv_ActiveE)
  then show "Channel_Read (rx_ch s) n \<noteq> CReadPanics" if "c_status (rx_ch s) = Active"
    using that by auto
  show "\<exists>bs c. Channel_Read (rx_ch s) n = CRead bs None c \<and> bs \<noteq> [] \<and> length bs \<le> n"
    if "c_status (rx_ch s) = Active \<and> \<not> chan_ready (c_close (rx_ch s)) \<and> 0 < n \<and> stream (rx_ch s) \<noteq> []"
    using spec that by (cases "Channel_Read (rx_ch s) n") auto
qed

theorem receive_never_panics_and_progresses_witness:
  "\<exists>c0 s. rx_ready (c0 :: unit Channel) \<and> rx_reach c0 s \<and> rx_parked s = None \<and>
     fst (Channel_OnMessage True (0::nat) (make_chan 100) (rx_ch s) [1]) \<noteq> MsgPanic"
proof -
  obtain c0 :: "unit Channel" and s where s: "rx_ready c0" "rx_reach c0 s" "rx_parked s = None"
    by (rule rx_example)
  then show ?thesis
    using receive_never_panics_and_progresses [OF s(1,2), of "make_chan 100" True "0::nat" "[1]" 1] by auto
qed

text \<open>
  The first message on an idle, open answering channel announces the channel to the listener
  exactly once: the accept channel gains this channel as its last entry, and no later message changes
  it as long as the channel stays active, whatever is read in between.
\<close>

theorem first_message_announces_once:
  fixes c :: "'d Channel"
  assumes "chan_inv c" "c_status c = Idle" "c_type c = SDPTypeAnswer" "c_accept c"
    and "chan_ready (c_open c)" "\<not> chan_ready (c_close c)"
    and "\<not> ch_closed acc" "length (ch_buf acc) < ch_cap acc"
  shows "\<exists>c1. c_status c1 = Active \<and>
    (Channel_OnMessage pick self acc c data = (MsgDone c1, acc\<lparr>ch_buf := ch_buf acc @ [self]\<rparr>) \<or>
     (\<exists>i. Channel_OnMessage pick self acc c data = (MsgParked c1 i, acc\<lparr>ch_buf := ch_buf acc @ [self]\<rparr>)))
    \<and> (\<forall>(c2 :: 'd Channel) pick' acc' data'. c_status c2 = Active \<longrightarrow>
         snd (Channel_OnMessage pick' self acc' c2 data') = acc')"
proof -
  obtain tc where t: "Channel_TakeConn c = (True, tc)" using assms(2) by (simp add: Channel_TakeConn_def)
  then have inv: "chan_inv tc" "c_status tc = Active"
    using TakeConn_inv [OF assms(1) t] by (simp_all add: TakeConn_True_iff)
  have "c_type tc = SDPTypeAnswer" "c_accept tc"
    using t assms(3,4) by (simp_all add: TakeConn_True_iff)
  then have msg: "Channel_OnMessage pick self acc c data =
      (Channel_feed tc data 0, acc\<lparr>ch_buf := ch_buf acc @ [self]\<rparr>)"
    using assms t by (simp add: Channel_OnMessage_def chan_send_open)
  have later: "snd (Channel_OnMessage pick' self acc' c2 data') = acc'"
    if "c_status c2 = Active" for c2 :: "'d Channel" and pick' acc' data'
    using that by (simp add: Channel_OnMessage_def Channel_TakeConn_def split: sel2.split)
  show ?thesis
    using msg later feed_spec [OF inv, where data = data and i = 0]
    by (cases "Channel_feed tc data 0") auto
qed

theorem first_message_announces_once_witness:
  "\<exists>c1. c_status c1 = Active \<and>
    (Channel_OnMessage True (5::nat) (make_chan 100)
        (Channel_onOpen (NewAnswerChannel ''s'' ''c'' () (NewLabel Web 1) True)) [1] =
      (MsgDone c1, (make_chan 100)\<lparr>ch_buf := [5]\<rparr>) \<or>
     (\<exists>i. Channel_OnMessage True (5::nat) (make_chan 100)
        (Channel_onOpen (NewAnswerChannel ''s'' ''c'' () (NewLabel Web 1) True)) [1] =
      (MsgParked c1 i, (make_chan 100)\<lparr>ch_buf := [5]\<rparr>)))"
proof -
  let ?c = "Channel_onOpen (NewAnswerChannel ''s'' ''c'' () (NewLabel Web 1) True)"
  have "c_status ?c = Idle" "c_type ?c = SDPTypeAnswer" "c_accept ?c" "chan_ready (c_open ?c)"
    "\<not> chan_ready (c_close ?c)"
    by (simp_all add: Channel_onOpen_def NewAnswerChannel_def newChannel_def chan_close_def)
  then show ?thesis
    using first_message_announces_once [of ?c "make_chan 100" True "5::nat" "[1]"] by fastforce
qed

text \<open>
  A batch that \<open>dc.Send\<close> rejects is counted as written: the first batch failing with \<open>er\<close>, \<open>Write\<close>
  returns the wrapped error together with the end offset of that batch, although no byte was accepted.
\<close>

theorem write_counts_the_failed_batch:
  assumes "chan_inv c" "chan_ready (c_open c)" "\<not> chan_ready (c_close c)" "data \<noteq> []"
    and "send (c_dc c) (take 4096 data) = (d, Some er)"
  shows "Channel_Write st send pick c data =
    Some (WrRet (min (length data) 4096) (Some (wrap_err st er)) (c\<lparr>c_dc := d\<rparr>))"
  using Channel_Write_ref [OF assms(1,2), of st send pick data] assms(3-5)
  by (simp add: chunks.simps [of 4096 data])

theorem write_counts_the_failed_batch_witness:
  "Channel_Write [] (\<lambda>d m. (d, Some (Foreign ''closed''))) (\<lambda>_. True)
      (Channel_onOpen (NewOfferChannel ''s'' ''c'' () (NewLabel Web 1))) [1, 2] =
    Some (WrRet 2 (Some (StdError (Foreign ''closed'') []))
            (Channel_onOpen (NewOfferChannel ''s'' ''c'' () (NewLabel Web 1))))"
proof -
  let ?c = "Channel_onOpen (NewOfferChannel ''s'' ''c'' () (NewLabel Web 1))"
  have "chan_ready (c_open ?c)" "\<not> chan_ready (c_close ?c)"
    by (simp_all add: Channel_onOpen_def NewOfferChannel_def newChannel_def chan_close_def)
  then show ?thesis
    using write_counts_the_failed_batch [of ?c "[1, 2]" "\<lambda>d m. (d, Some (Foreign ''closed''))" "()"
        "Foreign ''closed''" "[]" "\<lambda>_. True"]
    by (simp add: wrap_err_def Wrap_def numeral_2_eq_2)
qed

text \<open>
  C5: on an open channel \<open>Write\<close> is the reference loop over the batches of its data, for every behaviour
  of \<open>dc.Send\<close>, every state of the close signal and every choice of the selects: it always returns, the
  messages handed over are the batches in order up to the first failure, the count includes the batch
  that failed, and a close noticed between two batches returns 0 although the earlier ones were sent.  The
  batches are not empty, hold at most 4096 bytes and make up the data.
\<close>

theorem write_is_the_reference_loop:
  assumes "chan_inv c" "chan_ready (c_open c)"
  shows "Channel_Write st send pick c data =
    (case send_all send (\<lambda>n. chan_ready (c_close c) \<and> pick n) st (c_dc c) (chunks 4096 data) 0 of
       (n, e, d) \<Rightarrow> Some (WrRet n e (c\<lparr>c_dc := d\<rparr>)))
    \<and> concat (chunks 4096 data) = data \<and> (\<forall>m \<in> set (chunks 4096 data). m \<noteq> [] \<and> length m \<le> 4096)"
  using Channel_Write_ref [OF assms] concat_chunks [of 4096 data] chunks_bounded by fastforce

theorem write_is_the_reference_loop_witness:
  "Channel_Write [] (\<lambda>d m. (d @ [m], Some EOF)) (\<lambda>_. True)
      (Channel_onOpen (NewOfferChannel ''s'' ''c'' [] (NewLabel Web 1))) [1, 2] =
    Some (WrRet 2 (Some (wrap_err [] EOF))
      ((Channel_onOpen (NewOfferChannel ''s'' ''c'' [] (NewLabel Web 1)))\<lparr>c_dc := [[1, 2]]\<rparr>))"
proof -
  let ?c = "Channel_onOpen (NewOfferChannel ''s'' ''c'' [] (NewLabel Web 1)) :: bytes list Channel"
  have c: "chan_ready (c_open ?c)" "\<not> chan_ready (c_close ?c)" "c_dc ?c = []"
    by (simp_all add: Channel_onOpen_def NewOfferChannel_def newChannel_def chan_close_def)
  have "chunks 4096 [1, 2 :: byte] = [[1, 2]]" by (simp add: chunks.simps)
  then show ?thesis
    using write_is_the_reference_loop [of ?c "[]" "\<lambda>d m. (d @ [m], Some EOF)" "\<lambda>_. True" "[1, 2]"] c by simp
qed

end
