(* ===== verification/Conn.thy ===== *)
theory Conn
  imports Channel
begin

section \<open>Connections with deadlines (\<open>net/conn.go\<close>)\<close>

text \<open>
  \<open>net.Conn\<close> wraps a channel, reached through the \<open>ReadWriterReleaser\<close> interface: the operations of
  the wrapped value are arguments, its state is the type parameter.  Times and durations are integers
  in nanoseconds, the zero \<open>time.Time\<close> is \<open>None\<close>.  A \<open>time.Timer\<close> delivers on its channel once its
  duration has elapsed unless it has been stopped.
\<close>

record 's Conn =
  cn_rwr :: 's
  cn_isRelease :: bool
  cn_close :: "unit gochan"
  cn_rdl :: "int option"

definition NewConn :: "'s \<Rightarrow> 's Conn" where
  "NewConn rwr = \<lparr>cn_rwr = rwr, cn_isRelease = False, cn_close = make_chan 0, cn_rdl = None\<rparr>"

definition Conn_IsClose :: "'s Conn \<Rightarrow> bool" where
  "Conn_IsClose c = chan_ready (cn_close c)"

definition SetDeadline :: "int option \<Rightarrow> 's Conn \<Rightarrow> 's Conn" where
  "SetDeadline t c = c\<lparr>cn_rdl := t\<rparr>"

definition SetReadDeadline :: "int option \<Rightarrow> 's Conn \<Rightarrow> 's Conn" where
  "SetReadDeadline t c = c\<lparr>cn_rdl := t\<rparr>"

definition SetWriteDeadline :: "int option \<Rightarrow> 's Conn \<Rightarrow> 's Conn" where
  "SetWriteDeadline t c = c"

record Timer =
  tm_duration :: int
  tm_stopped :: bool

definition NewTimer :: "int \<Rightarrow> Timer" where
  "NewTimer d = \<lparr>tm_duration = d, tm_stopped = False\<rparr>"

definition Timer_Stop :: "Timer \<Rightarrow> Timer" where
  "Timer_Stop t = t\<lparr>tm_stopped := True\<rparr>"

definition timer_fired :: "Timer \<Rightarrow> int \<Rightarrow> bool" where
  "timer_fired t waited \<longleftrightarrow> \<not> tm_stopped t \<and> tm_duration t \<le> waited"

definition Millisecond :: int where
  "Millisecond = 1000000"

text \<open>The last \<open>Timer_Stop\<close> is the deferred \<open>tm.Stop()\<close>, which runs when \<open>getRdl\<close> returns.\<close>

definition getRdl :: "int \<Rightarrow> 's Conn \<Rightarrow> 's Conn \<times> (go_error + Timer)" where
  "getRdl now c =
     (let zero = (cn_rdl c = None);
          timeout = (case cn_rdl c of None \<Rightarrow> 0 | Some t \<Rightarrow> t - now);
          c' = c\<lparr>cn_rdl := None\<rparr>
      in if timeout \<le> 0 \<and> \<not> zero then (c', Inl DeadlineExceeded)
         else
           (let timeout' = (if timeout \<le> 100 * Millisecond then 100 * Millisecond else timeout);
                tm = NewTimer timeout';
                tm1 = (if zero then Timer_Stop tm else tm)
            in (c', Inr (Timer_Stop tm1))))"

record DataInfo =
  di_N :: int
  di_Err :: "go_error option"

definition DataInfo_Unwrap :: "DataInfo \<Rightarrow> int \<times> go_error option" where
  "DataInfo_Unwrap d = (di_N d, di_Err d)"

text \<open>
  \<open>Read\<close> races the wrapped read, run in a goroutine, against the timer; \<open>waited\<close> is the time at which
  the \<open>select\<close> is decided and \<open>pick\<close> its choice when both cases are ready.
\<close>

datatype 's conn_read = CnRead bytes "go_error option" "'s Conn" | CnBlocks "'s Conn" | CnPanics

definition Conn_Read ::
  "('s \<Rightarrow> nat \<Rightarrow> 's chan_read) \<Rightarrow> int \<Rightarrow> int \<Rightarrow> bool \<Rightarrow> 's Conn \<Rightarrow> nat \<Rightarrow> 's conn_read" where
  "Conn_Read rd now waited pick c n =
     (case getRdl now c of
        (c1, Inl e) \<Rightarrow> CnRead [] (Some e) c1
      | (c1, Inr tm) \<Rightarrow>
          (case rd (cn_rwr c1) n of
             CReadPanics \<Rightarrow> CnPanics
           | CReadBlocks \<Rightarrow>
               (case select2 pick (timer_fired tm waited) False of
                  SelFirst \<Rightarrow> CnRead [] (Some (if chan_ready (cn_close c1) then NetErrClosed else DeadlineExceeded)) c1
                | _ \<Rightarrow> CnBlocks c1)
           | CRead bs e s \<Rightarrow>
               (case select2 pick (timer_fired tm waited) True of
                  SelFirst \<Rightarrow> CnRead [] (Some (if chan_ready (cn_close c1) then NetErrClosed else DeadlineExceeded))
                                (c1\<lparr>cn_rwr := s\<rparr>)
                | _ \<Rightarrow> CnRead bs e (c1\<lparr>cn_rwr := s\<rparr>))))"

datatype 's conn_write = CnWrote nat "go_error option" "'s Conn" | CnWriteBlocks "'s Conn" | CnWriteDiverges

definition Conn_Write :: "('s \<Rightarrow> bytes \<Rightarrow> 's wr_result option) \<Rightarrow> 's Conn \<Rightarrow> bytes \<Rightarrow> 's conn_write" where
  "Conn_Write wr c data =
     (if chan_ready (cn_close c) then CnWrote 0 (Some NetErrClosed) c
      else case wr (cn_rwr c) data of
             None \<Rightarrow> CnWriteDiverges
           | Some (WrRet n e s) \<Rightarrow> CnWrote n e (c\<lparr>cn_rwr := s\<rparr>)
           | Some (WrBlocks s i) \<Rightarrow> CnWriteBlocks (c\<lparr>cn_rwr := s\<rparr>))"

text \<open>\<open>None\<close> is a panic of the wrapped \<open>Release\<close> or of closing the channel twice.\<close>

definition Conn_Release :: "('s \<Rightarrow> 's option) \<Rightarrow> 's Conn \<Rightarrow> 's Conn option" where
  "Conn_Release release c =
     (if cn_isRelease c then Some c
      else (case release (cn_rwr c) of
              None \<Rightarrow> None
            | Some s \<Rightarrow> Some (c\<lparr>cn_isRelease := True, cn_rwr := s\<rparr>)))"

definition Conn_Close :: "('s \<Rightarrow> 's option) \<Rightarrow> 's Conn \<Rightarrow> 's Conn option" where
  "Conn_Close release c =
     (case Conn_Release release c of
        None \<Rightarrow> None
      | Some c1 \<Rightarrow>
          if Conn_IsClose c1 then Some c1
          else (case chan_close (cn_close c1) of
                  None \<Rightarrow> None
                | Some cl \<Rightarrow> Some (c1\<lparr>cn_close := cl\<rparr>)))"

subsection \<open>Releasing and closing over any releaser\<close>

context releaser
begin

lemma conn_release_ok:
  assumes "inv (cn_rwr c)"
  shows "\<exists>c'. Conn_Release release c = Some c' \<and> cn_isRelease c' \<and> inv (cn_rwr c')
    \<and> cn_close c' = cn_close c \<and> (\<not> cn_isRelease c \<longrightarrow> \<not> active (cn_rwr c'))
    \<and> (cn_isRelease c \<longrightarrow> c' = c)"
  using release_frees [OF assms] assms by (auto simp: Conn_Release_def)

lemma conn_close_ok:
  assumes "inv (cn_rwr c)"
  shows "\<exists>c'. Conn_Close release c = Some c' \<and> cn_isRelease c' \<and> Conn_IsClose c' \<and> inv (cn_rwr c')
    \<and> (\<not> cn_isRelease c \<longrightarrow> \<not> active (cn_rwr c')) \<and> (cn_isRelease c \<longrightarrow> cn_rwr c' = cn_rwr c)
    \<and> Conn_Close release c' = Some c'"
proof -
  obtain c1 where c1: "Conn_Release release c = Some c1" "cn_isRelease c1" "inv (cn_rwr c1)"
    "\<not> cn_isRelease c \<longrightarrow> \<not> active (cn_rwr c1)" "cn_isRelease c \<longrightarrow> c1 = c"
    using conn_release_ok [OF assms] by blast
  show ?thesis
  proof (cases "Conn_IsClose c1")
    case True
    with c1 show ?thesis by (auto simp: Conn_Close_def Conn_Release_def)
  next
    case False
    with c1 show ?thesis
      by (auto simp: Conn_Close_def Conn_IsClose_def Conn_Release_def chan_close_def chan_ready_def)
  qed
qed

end

subsection \<open>Properties\<close>

lemma getRdl_timer_stopped: "getRdl now c = (c', Inr tm) \<Longrightarrow> \<not> timer_fired tm waited"
  by (auto simp: getRdl_def Let_def Timer_Stop_def timer_fired_def split: if_splits option.splits)

lemma getRdl_live:
  "cn_rdl c = None \<or> (\<exists>t. cn_rdl c = Some t \<and> now < t) \<Longrightarrow>
     \<exists>tm. getRdl now c = (c\<lparr>cn_rdl := None\<rparr>, Inr tm)"
  by (auto simp: getRdl_def Let_def)

text \<open>
  A read deadline that lies in the future never interrupts a read: the timer is stopped before
  \<open>Read\<close> waits on it, so for every waiting time and every choice of the select \<open>Read\<close> behaves as the
  wrapped read does, blocks when it blocks, and forgets the deadline.
\<close>

theorem pending_deadline_never_fires:
  assumes "cn_rdl c = None \<or> (\<exists>t. cn_rdl c = Some t \<and> now < t)"
  shows "Conn_Read rd now waited pick c n =
    (case rd (cn_rwr c) n of
       CRead bs e s \<Rightarrow> CnRead bs e (c\<lparr>cn_rdl := None, cn_rwr := s\<rparr>)
     | CReadBlocks \<Rightarrow> CnBlocks (c\<lparr>cn_rdl := None\<rparr>)
     | CReadPanics \<Rightarrow> CnPanics)"
proof -
  obtain tm where "getRdl now c = (c\<lparr>cn_rdl := None\<rparr>, Inr tm)"
    using getRdl_live [OF assms] by blast
  moreover from this have "\<not> timer_fired tm waited" by (rule getRdl_timer_stopped)
  ultimately show ?thesis by (simp add: Conn_Read_def split: chan_read.split)
qed

theorem pending_deadline_never_fires_witness:
  "Conn_Read (\<lambda>s n. CReadBlocks) 0 (10 ^ 12) True (SetReadDeadline (Some 500) (NewConn ())) 16 =
    CnBlocks (NewConn ())"
  using pending_deadline_never_fires [of "SetReadDeadline (Some 500) (NewConn ())" 0 "\<lambda>s n. CReadBlocks"
      "10 ^ 12" True 16]
  by (simp add: SetReadDeadline_def NewConn_def)

text \<open>
  A read whose deadline has passed fails at once with \<open>DeadlineExceeded\<close>, reads nothing from the
  wrapped channel, and clears the deadline: the following read is without deadline.
\<close>

theorem passed_deadline_fails_once:
  assumes "cn_rdl c = Some t" "t \<le> now"
  shows "Conn_Read rd now waited pick c n = CnRead [] (Some DeadlineExceeded) (c\<lparr>cn_rdl := None\<rparr>)"
  using assms by (simp add: Conn_Read_def getRdl_def Let_def)

theorem passed_deadline_fails_once_witness:
  "Conn_Read (\<lambda>s n. CRead [1] None s) 7 0 True (SetDeadline (Some 5) (NewConn ())) 16 =
    CnRead [] (Some DeadlineExceeded) (NewConn ())"
  using passed_deadline_fails_once [of "SetDeadline (Some 5) (NewConn ())" 5 7 "\<lambda>s n. CRead [1] None s" 0 True 16]
  by (simp add: SetDeadline_def NewConn_def)

text \<open>
  C32: closing a connection over a channel in its invariant never panics; it releases the channel if
  this connection has not released it before, and otherwise leaves it untouched (it may belong to the
  next connection by then); closing again changes nothing, and every later write fails with
  \<open>net.ErrClosed\<close> without reaching the channel.
\<close>

theorem close_releases_once:
  assumes "chan_inv (cn_rwr c)"
  shows "\<exists>c'. Conn_Close Channel_Release c = Some c' \<and> Conn_IsClose c' \<and> chan_inv (cn_rwr c')
    \<and> (if cn_isRelease c then cn_rwr c' = cn_rwr c else c_status (cn_rwr c') \<noteq> Active)
    \<and> Conn_Close Channel_Release c' = Some c'
    \<and> (\<forall>wr data. Conn_Write wr c' data = CnWrote 0 (Some NetErrClosed) c')"
  using chan_releaser.conn_close_ok [OF assms]
  by (auto simp: Conn_Write_def Conn_IsClose_def)

theorem close_releases_once_witness:
  "\<exists>c'. Conn_Close Channel_Release
      (NewConn (snd (Channel_TakeConn (NewOfferChannel ''s'' ''c'' () (NewLabel Web 1))))) = Some c' \<and>
    c_status (cn_rwr c') \<noteq> Active"
proof -
  let ?ch = "snd (Channel_TakeConn (NewOfferChannel ''s'' ''c'' () (NewLabel Web 1)))"
  have "chan_inv (cn_rwr (NewConn ?ch))"
    using chan_releaser.take_inv [of "NewOfferChannel ''s'' ''c'' () (NewLabel Web 1)"]
    by (simp add: NewConn_def)
  from close_releases_once [OF this] show ?thesis by (auto simp: NewConn_def)
qed

end
