(* ===== verification/Transitions.thy ===== *)
theory Transitions
  imports Puup_Prelude
begin

section \<open>Transition systems: invariants, ranking and simulation\<close>

text \<open>
  What the step relations of the development share.  \<open>preserved\<close> is a step relation with an inductive
  invariant, \<open>ranked\<close> one whose steps also use up a natural number (so that every run ends within a
  known bound), and \<open>simulation\<close> relates the labelled runs of a detailed system to those of an abstract
  specification: every step with a visible label is a step of the specification, every other one leaves
  the abstract state unchanged.  The component theories interpret these locales on their own steps.
\<close>

subsection \<open>Labelled runs\<close>

inductive lrun :: "('s \<Rightarrow> 'l \<Rightarrow> 's \<Rightarrow> bool) \<Rightarrow> 's \<Rightarrow> 'l list \<Rightarrow> 's \<Rightarrow> bool" for step where
  lrun_start: "lrun step s [] s"
| lrun_next: "lrun step s ls t \<Longrightarrow> step t l u \<Longrightarrow> lrun step s (ls @ [l]) u"

inductive_simps lrun_Nil [simp]: "lrun step s [] t"

lemma lrun_one: "step s l t \<Longrightarrow> lrun step s [l] t"
  using lrun_next [OF lrun_start, of step s l t] by simp

lemma lrun_append: "lrun step t ls' u \<Longrightarrow> lrun step s ls t \<Longrightarrow> lrun step s (ls @ ls') u"
  by (induction rule: lrun.induct) (auto simp flip: append_assoc intro: lrun_next)

lemma lrun_Cons: "step s l t \<Longrightarrow> lrun step t ls u \<Longrightarrow> lrun step s (l # ls) u"
  using lrun_append [of step t ls u s "[l]"] lrun_one [of step s l t] by simp

subsection \<open>Invariants and ranking\<close>

locale preserved =
  fixes step :: "'s \<Rightarrow> 's \<Rightarrow> bool" and I :: "'s \<Rightarrow> bool"
  assumes preserve: "I s \<Longrightarrow> step s t \<Longrightarrow> I t"
begin

lemma along: "step\<^sup>*\<^sup>* s t \<Longrightarrow> I s \<Longrightarrow> I t"
  by (induction rule: rtranclp_induct) (auto intro: preserve)

lemma along_n: "(step ^^ n) s t \<Longrightarrow> I s \<Longrightarrow> I t"
  using along rtranclp_power by metis

end

locale ranked = preserved +
  fixes work :: "'s \<Rightarrow> nat"
  assumes decrease: "I s \<Longrightarrow> step s t \<Longrightarrow> work t < work s"
begin

lemma bounded: "(step ^^ n) s t \<Longrightarrow> I s \<Longrightarrow> n + work t \<le> work s"
proof (induction n arbitrary: t)
  case (Suc n)
  then obtain u where "(step ^^ n) s u" "step u t" by auto
  with Suc.IH [of u] Suc.prems(2) decrease [of u t] along_n [of n s u] show ?case by force
qed simp

text \<open>Some run reaches a state in which no step is left.\<close>

lemma ends: "I s \<Longrightarrow> \<exists>n t. (step ^^ n) s t \<and> n \<le> work s \<and> (\<nexists>u. step t u)"
proof (induction "work s" arbitrary: s rule: less_induct)
  case less
  show ?case
  proof (cases "\<exists>u. step s u")
    case True
    then obtain u where u: "step s u" by blast
    then obtain n t where t: "(step ^^ n) u t" "n \<le> work u" "\<nexists>v. step t v"
      using less.hyps [OF decrease [OF less.prems u] preserve [OF less.prems u]] by blast
    from relpowp_Suc_I2 [of step, OF u t(1)] t(2,3) decrease [OF less.prems u] show ?thesis
      by (intro exI [of _ "Suc n"] exI [of _ t]) (simp del: relpowp.simps)
  next
    case False
    then show ?thesis by (intro exI [of _ 0] exI [of _ s]) auto
  qed
qed

end

subsection \<open>Simulation of an abstract specification\<close>

locale simulation =
  fixes cstep :: "'s \<Rightarrow> 'l \<Rightarrow> 's \<Rightarrow> bool" and I :: "'s \<Rightarrow> bool"
    and astep :: "'a \<Rightarrow> 'm \<Rightarrow> 'a \<Rightarrow> bool" and abs :: "'s \<Rightarrow> 'a" and vis :: "'l \<Rightarrow> 'm option"
  assumes inv_step: "I s \<Longrightarrow> cstep s l t \<Longrightarrow> I t"
    and hidden: "I s \<Longrightarrow> cstep s l t \<Longrightarrow> vis l = None \<Longrightarrow> abs t = abs s"
    and visible: "I s \<Longrightarrow> cstep s l t \<Longrightarrow> vis l = Some m \<Longrightarrow> astep (abs s) m (abs t)"
begin

lemma inv_run: "lrun cstep s ls t \<Longrightarrow> I s \<Longrightarrow> I t"
  by (induction rule: lrun.induct) (auto intro: inv_step)

theorem refines: "lrun cstep s ls t \<Longrightarrow> I s \<Longrightarrow> lrun astep (abs s) (List.map_filter vis ls) (abs t)"
proof (induction rule: lrun.induct)
  case (lrun_start s)
  then show ?case by (simp add: List.map_filter_simps)
next
  case (lrun_next s ls t l u)
  then have t: "I t" "lrun astep (abs s) (List.map_filter vis ls) (abs t)" using inv_run by auto
  show ?case
  proof (cases "vis l")
    case None
    with hidden [OF t(1) lrun_next(2)] t(2) show ?thesis by (simp add: List.map_filter_def)
  next
    case (Some m)
    with visible [OF t(1) lrun_next(2)] lrun.lrun_next [OF t(2)] show ?thesis
      by (simp add: List.map_filter_def)
  qed
qed

end

subsection \<open>The specification of a connection: a byte pipe per direction\<close>

text \<open>
  The bytes written and not yet read.  A write appends, a read takes any piece from the front; the runs
  of the specification are the behaviours that a stream connection may show.
\<close>

datatype 'e pipe_event = PWrite 'e bytes | PRead 'e bytes

definition pipe_apply :: "('e \<Rightarrow> bytes) \<Rightarrow> 'e pipe_event \<Rightarrow> ('e \<Rightarrow> bytes) option" where
  "pipe_apply q ev =
     (case ev of
        PWrite e bs \<Rightarrow> Some (q(e := q e @ bs))
      | PRead e bs \<Rightarrow> if take (length bs) (q e) = bs then Some (q(e := drop (length bs) (q e))) else None)"

definition pipe_step :: "('e \<Rightarrow> bytes) \<Rightarrow> 'e pipe_event \<Rightarrow> ('e \<Rightarrow> bytes) \<Rightarrow> bool" where
  "pipe_step q ev q' \<longleftrightarrow> pipe_apply q ev = Some q'"

definition written_on :: "'e \<Rightarrow> 'e pipe_event list \<Rightarrow> bytes" where
  "written_on e evs = concat (map (\<lambda>ev. case ev of PWrite f bs \<Rightarrow> (if f = e then bs else []) | _ \<Rightarrow> []) evs)"

definition read_on :: "'e \<Rightarrow> 'e pipe_event list \<Rightarrow> bytes" where
  "read_on e evs = concat (map (\<lambda>ev. case ev of PRead f bs \<Rightarrow> (if f = e then bs else []) | _ \<Rightarrow> []) evs)"

text \<open>In every run of the specification a direction is a byte stream.\<close>

lemma pipe_run_stream:
  "lrun pipe_step q evs q' \<Longrightarrow> read_on e evs @ q' e = q e @ written_on e evs"
proof (induction rule: lrun.induct)
  case (lrun_start s)
  then show ?case by (simp add: read_on_def written_on_def)
next
  case (lrun_next s ls t l u)
  show ?case
  proof (cases l)
    case (PWrite f bs)
    with lrun_next show ?thesis
      by (auto simp: pipe_step_def pipe_apply_def read_on_def written_on_def)
  next
    case (PRead f bs)
    with lrun_next(2) have "u = t(f := drop (length bs) (t f))" "bs @ drop (length bs) (t f) = t f"
      by (auto simp: pipe_step_def pipe_apply_def split: if_splits) (metis append_take_drop_id)
    with PRead lrun_next(3) show ?thesis by (auto simp: read_on_def written_on_def)
  qed
qed

end
