(* ===== verification/Tunnel.thy ===== *)
theory Tunnel
  imports Conn Transitions
begin

section \<open>One direction of a tunnel: a connection, the data channel, the reader at the far end\<close>

text \<open>
  The composition of the sending and the receiving side: \<open>net.Conn.Write\<close> (\<open>net/conn.go\<close>) over
  \<open>Channel.Write\<close>, the data channel as the FIFO of the messages in flight (the channels are created
  with \<open>Ordered\<close> and are reliable by default), and \<open>OnMessage\<close> and \<open>Read\<close> of the channel at the
  other peer (\<open>net/conn/channel.go\<close>).  The operations are those of the component theories; this theory
  adds the step relations that interleave them and shows that the tunnel is a byte stream: in order,
  without loss or duplication, and never stuck while bytes are outstanding.
\<close>

text \<open>The data channel of the sender: its state is the list of messages not yet delivered.\<close>

definition wire_send :: "bytes list \<Rightarrow> bytes \<Rightarrow> bytes list \<times> go_error option" where
  "wire_send q m = (q @ [m], None)"

record tunnel =
  tn_tx :: "bytes list Channel Conn"
  tn_rx :: "unit rx"
  tn_written :: bytes

abbreviation tn_wire :: "tunnel \<Rightarrow> bytes list" where
  "tn_wire s \<equiv> c_dc (cn_rwr (tn_tx s))"

definition tn_start :: "bytes list Channel \<Rightarrow> unit Channel \<Rightarrow> tunnel" where
  "tn_start c d = \<lparr>tn_tx = NewConn c, tn_rx = rx_start d, tn_written = []\<rparr>"

text \<open>
  The steps of the receiver, split: the callback for a message, and what the peer does on its own
  (a parked callback continues, a read returns bytes).  Only moves that change something are steps of
  \<open>rx_local\<close>, so that a run of them is a measure of the work left.
\<close>

inductive rx_deliver :: "bytes \<Rightarrow> 'd rx \<Rightarrow> 'd rx \<Rightarrow> bool" where
  dl_done: "rx_parked s = None \<Longrightarrow>
     Channel_OnMessage pick (self :: nat) acc (rx_ch s) m = (MsgDone c, acc') \<Longrightarrow>
     rx_deliver m s (s\<lparr>rx_ch := c, rx_in := rx_in s @ m\<rparr>)"
| dl_park: "rx_parked s = None \<Longrightarrow>
     Channel_OnMessage pick (self :: nat) acc (rx_ch s) m = (MsgParked c i, acc') \<Longrightarrow>
     rx_deliver m s (s\<lparr>rx_ch := c, rx_in := rx_in s @ m, rx_parked := Some (m, i)\<rparr>)"
| dl_accept: "rx_parked s = None \<Longrightarrow>
     Channel_OnMessage pick (self :: nat) acc (rx_ch s) m = (MsgAcceptBlocks c, acc') \<Longrightarrow>
     rx_deliver m s (s\<lparr>rx_ch := c, rx_in := rx_in s @ m, rx_parked := Some (m, 0)\<rparr>)"

inductive rx_local :: "'d rx \<Rightarrow> 'd rx \<Rightarrow> bool" where
  lc_resume: "rx_parked s = Some (m, i) \<Longrightarrow> Channel_feed (rx_ch s) m i = MsgDone c \<Longrightarrow>
     rx_local s (s\<lparr>rx_ch := c, rx_parked := None\<rparr>)"
| lc_resume_park: "rx_parked s = Some (m, i) \<Longrightarrow> Channel_feed (rx_ch s) m i = MsgParked c j \<Longrightarrow>
     i \<noteq> j \<Longrightarrow> rx_local s (s\<lparr>rx_ch := c, rx_parked := Some (m, j)\<rparr>)"
| lc_read: "c_status (rx_ch s) = Active \<Longrightarrow> Channel_Read (rx_ch s) n = CRead bs e c \<Longrightarrow> bs \<noteq> [] \<Longrightarrow>
     rx_local s (s\<lparr>rx_ch := c, rx_out := rx_out s @ bs\<rparr>)"

inductive tn_drain :: "tunnel \<Rightarrow> tunnel \<Rightarrow> bool" where
  tn_deliver: "tn_wire s = m # ms \<Longrightarrow> rx_deliver m (tn_rx s) r \<Longrightarrow>
     tn_drain s (s\<lparr>tn_tx := (tn_tx s)\<lparr>cn_rwr := (cn_rwr (tn_tx s))\<lparr>c_dc := ms\<rparr>\<rparr>, tn_rx := r\<rparr>)"
| tn_local: "rx_local (tn_rx s) r \<Longrightarrow> tn_drain s (s\<lparr>tn_rx := r\<rparr>)"

inductive tn_step :: "tunnel \<Rightarrow> tunnel \<Rightarrow> bool" where
  tn_write: "Conn_Write (Channel_Write st wire_send pick) (tn_tx s) data = CnWrote n None c \<Longrightarrow>
     tn_step s (s\<lparr>tn_tx := c, tn_written := tn_written s @ data\<rparr>)"
| tn_write_err: "Conn_Write (Channel_Write st wire_send pick) (tn_tx s) data = CnWrote n (Some e) c \<Longrightarrow>
     tn_step s (s\<lparr>tn_tx := c\<rparr>)"
| tn_close: "Conn_Close Channel_Release (tn_tx s) = Some c \<Longrightarrow> tn_step s (s\<lparr>tn_tx := c\<rparr>)"
| tn_progress: "tn_drain s t \<Longrightarrow> tn_step s t"

inductive tn_reach :: "bytes list Channel \<Rightarrow> unit Channel \<Rightarrow> tunnel \<Rightarrow> bool" for c d where
  tn_init: "tn_reach c d (tn_start c d)"
| tn_next: "tn_reach c d s \<Longrightarrow> tn_step s t \<Longrightarrow> tn_reach c d t"

inductive_cases tn_stepE: "tn_step s t"
inductive_cases tn_drainE: "tn_drain s t"
inductive_cases rx_deliverE: "rx_deliver m s t"
inductive_cases rx_localE: "rx_local s t"

text \<open>Both peers hold an open channel; the receiver's is idle and empty, nothing is in flight.\<close>

definition chan_up :: "'d Channel \<Rightarrow> bool" where
  "chan_up c \<longleftrightarrow> chan_inv c \<and> chan_ready (c_open c) \<and> \<not> chan_ready (c_close c)"

definition tn_ready :: "bytes list Channel \<Rightarrow> unit Channel \<Rightarrow> bool" where
  "tn_ready c d \<longleftrightarrow> chan_up c \<and> c_dc c = [] \<and> chan_up d \<and> rx_ready d"

subsection \<open>The receiver's steps\<close>

lemma rx_deliver_step: "rx_deliver m s t \<Longrightarrow> rx_step s t \<and> rx_in t = rx_in s @ m"
  by (elim rx_deliverE) (auto intro: rx_msg rx_msg_park rx_msg_accept)

lemma rx_local_step: "rx_local s t \<Longrightarrow> rx_step s t \<and> rx_in t = rx_in s"
  by (elim rx_localE) (auto intro: rx_resume rx_resume_park rx_read)

lemma feed_flags:
  "Channel_feed c d i = MsgDone c' \<Longrightarrow> c_open c' = c_open c \<and> c_close c' = c_close c \<and> c_dc c' = c_dc c"
  "Channel_feed c d i = MsgParked c' j \<Longrightarrow> c_open c' = c_open c \<and> c_close c' = c_close c \<and> c_dc c' = c_dc c"
  "Channel_feed c d i \<noteq> MsgAcceptBlocks c'"
  by (auto simp: Channel_feed_def split: option.splits ondata.splits if_splits)

lemma TakeConn_flags:
  "Channel_TakeConn c = (t, c') \<Longrightarrow> c_open c' = c_open c \<and> c_close c' = c_close c \<and> c_dc c' = c_dc c"
  by (auto simp: Channel_TakeConn_def split: if_splits)

lemma Read_flags:
  "Channel_Read c n = CRead bs e c' \<Longrightarrow> c_open c' = c_open c \<and> c_close c' = c_close c \<and> c_dc c' = c_dc c"
  by (auto simp: Channel_Read_def split: option.splits read_result.splits if_splits)

lemma OnMessage_flags:
  assumes "Channel_OnMessage pick self acc c m = (res, acc')"
    and "res = MsgDone c' \<or> res = MsgParked c' i \<or> res = MsgAcceptBlocks c'"
  shows "c_open c' = c_open c \<and> c_close c' = c_close c \<and> c_dc c' = c_dc c"
  using OnMessage_cases [OF assms(1)] assms(2) feed_flags TakeConn_flags [of c]
  by (auto dest!: TakeConn_flags feed_flags(1,2) sym [of _ "Channel_feed _ _ _"] simp: feed_flags(3))

lemma rx_deliver_flags:
  "rx_deliver m s t \<Longrightarrow> c_open (rx_ch t) = c_open (rx_ch s) \<and> c_close (rx_ch t) = c_close (rx_ch s)
     \<and> c_dc (rx_ch t) = c_dc (rx_ch s)"
  by (elim rx_deliverE) (auto dest: OnMessage_flags)

lemma rx_local_flags:
  "rx_local s t \<Longrightarrow> c_open (rx_ch t) = c_open (rx_ch s) \<and> c_close (rx_ch t) = c_close (rx_ch s)
     \<and> c_dc (rx_ch t) = c_dc (rx_ch s)"
  by (elim rx_localE) (auto dest: feed_flags(1,2) Read_flags)

subsection \<open>The sender's steps\<close>

lemma wire_foldl: "foldl (\<lambda>q m. fst (wire_send q m)) q ms = q @ ms"
  by (induction ms arbitrary: q) (auto simp: wire_send_def)

lemma Conn_Write_wire:
  assumes "chan_up (cn_rwr c)"
  shows "Conn_Write (Channel_Write st wire_send pick) c data =
    (if chan_ready (cn_close c) then CnWrote 0 (Some NetErrClosed) c
     else CnWrote (length data) None
            (c\<lparr>cn_rwr := (cn_rwr c)\<lparr>c_dc := c_dc (cn_rwr c) @ chunks 4096 data\<rparr>\<rparr>))"
  using Channel_Write_ok [of "cn_rwr c" wire_send st pick data] assms
  by (simp add: Conn_Write_def chan_up_def wire_foldl) (simp add: wire_send_def)

lemma Channel_Release_keeps:
  "Channel_Release c = Some c' \<Longrightarrow> c_dc c' = c_dc c \<and> c_open c' = c_open c \<and> c_close c' = c_close c"
  by (auto simp: Channel_Release_def split: if_splits option.splits)

lemma Conn_Close_keeps:
  assumes "Conn_Close Channel_Release c = Some c'" "chan_up (cn_rwr c)"
  shows "chan_up (cn_rwr c') \<and> c_dc (cn_rwr c') = c_dc (cn_rwr c)"
proof -
  obtain c1 where c1: "Conn_Release Channel_Release c = Some c1" "cn_rwr c' = cn_rwr c1"
    using assms(1) by (auto simp: Conn_Close_def split: option.splits if_splits)
  show ?thesis
    using c1 assms(2) Release_inv [of "cn_rwr c"] Channel_Release_keeps [of "cn_rwr c"]
    by (auto simp: Conn_Release_def chan_up_def split: if_splits option.splits)
qed

lemma chan_up_dc [simp]: "chan_up (c\<lparr>c_dc := q\<rparr>) = chan_up c"
  by (simp add: chan_up_def chan_inv_def split: option.split)

subsection \<open>The invariant of the tunnel\<close>

definition tn_inv :: "tunnel \<Rightarrow> bool" where
  "tn_inv s \<longleftrightarrow> chan_up (cn_rwr (tn_tx s)) \<and> rx_inv (tn_rx s) \<and> chan_up (rx_ch (tn_rx s))
     \<and> rx_in (tn_rx s) @ concat (tn_wire s) = tn_written s"

lemma rx_deliver_inv:
  assumes "rx_deliver m s t" "rx_inv s" "chan_up (rx_ch s)"
  shows "rx_inv t \<and> chan_up (rx_ch t) \<and> rx_in t = rx_in s @ m"
  using rx_deliver_step [OF assms(1)] rx_deliver_flags [OF assms(1)] rx_step_inv [of s t] assms(2,3)
  by (auto simp: chan_up_def rx_inv_def)

lemma rx_local_inv:
  assumes "rx_local s t" "rx_inv s" "chan_up (rx_ch s)"
  shows "rx_inv t \<and> chan_up (rx_ch t) \<and> rx_in t = rx_in s"
  using rx_local_step [OF assms(1)] rx_local_flags [OF assms(1)] rx_step_inv [of s t] assms(2,3)
  by (auto simp: chan_up_def rx_inv_def)

lemma tn_drain_inv: "tn_drain s t \<Longrightarrow> tn_inv s \<Longrightarrow> tn_inv t \<and> tn_written t = tn_written s"
  by (elim tn_drainE) (auto simp: tn_inv_def dest: rx_deliver_inv rx_local_inv)

lemma tn_step_inv:
  assumes "tn_step s t" "tn_inv s"
  shows "tn_inv t"
  using assms
proof (cases rule: tn_step.cases)
  case (tn_write st pick data n c)
  then show ?thesis
    using assms(2) Conn_Write_wire [of "tn_tx s" st pick data]
    by (auto simp: tn_inv_def concat_chunks split: if_splits)
next
  case (tn_write_err st pick data n e c)
  then show ?thesis
    using assms(2) Conn_Write_wire [of "tn_tx s" st pick data]
    by (auto simp: tn_inv_def split: if_splits)
next
  case (tn_close c)
  then show ?thesis using assms(2) Conn_Close_keeps [of "tn_tx s" c] by (auto simp: tn_inv_def)
next
  case tn_progress
  then show ?thesis using tn_drain_inv assms(2) by blast
qed

lemma tn_reach_inv: "tn_reach c d s \<Longrightarrow> tn_ready c d \<Longrightarrow> tn_inv s"
proof (induction rule: tn_reach.induct)
  case tn_init
  then show ?case
    using rx_start_inv [of d]
    by (simp add: tn_ready_def tn_inv_def tn_start_def NewConn_def) (simp add: rx_start_def)
next
  case (tn_next s t)
  then show ?case using tn_step_inv by blast
qed

subsection \<open>Progress and termination\<close>

text \<open>
  The work left: a byte costs most in flight, less in a parked callback, least in the receiver's
  buffers; a message in flight costs its delivery, a parked callback its end.
\<close>

definition rx_work :: "'d rx \<Rightarrow> nat" where
  "rx_work s = length (stream (rx_ch s)) +
     (case rx_parked s of None \<Rightarrow> 0 | Some (d, i) \<Rightarrow> 1 + 2 * length (drop i d))"

definition tn_work :: "tunnel \<Rightarrow> nat" where
  "tn_work s = rx_work (tn_rx s) + sum_list (map (\<lambda>m. 2 + 2 * length m) (tn_wire s))"

lemma parked_forward: "OnData_from r d i = OnParked r' j \<Longrightarrow> i \<le> j \<and> j < length d"
proof (induction r d i rule: OnData_from.induct)
  case (1 r d i)
  then show ?case
    by (subst (asm) (2) OnData_from.simps) (fastforce split: if_splits send_result.splits)
qed

lemma feed_parked_forward: "Channel_feed c d i = MsgParked c' j \<Longrightarrow> i \<le> j \<and> j < length d"
  by (auto simp: Channel_feed_def dest: parked_forward split: option.splits ondata.splits if_splits)

lemma length_streams: "xs @ ys = us @ vs \<Longrightarrow> length xs + length ys = length us + length vs"
  by (metis length_append)

lemma rx_deliver_work:
  assumes "rx_deliver m s t" "rx_inv s"
  shows "rx_work t < rx_work s + (2 + 2 * length m)"
  using assms(1)
proof (cases rule: rx_deliver.cases)
  case (dl_done pick self acc c acc')
  then show ?thesis using rx_msg_inv [OF assms(2) dl_done(2,3)] by (simp add: rx_work_def)
next
  case (dl_park pick self acc c i acc')
  then show ?thesis
    using length_streams rx_msg_inv [OF assms(2) dl_park(2,3)] by (fastforce simp: rx_work_def)
next
  case (dl_accept pick self acc c acc')
  then show ?thesis using rx_msg_inv [OF assms(2) dl_accept(2,3)] by (simp add: rx_work_def)
qed

lemma rx_local_work:
  assumes "rx_local s t" "rx_inv s"
  shows "rx_work t < rx_work s"
  using assms(1)
proof (cases rule: rx_local.cases)
  case (lc_resume m i c)
  then show ?thesis
    using assms(2) feed_spec [of "rx_ch s", where data = m and i = i] by (auto simp: rx_work_def rx_inv_def)
next
  case (lc_resume_park m i c j)
  then have "stream c @ drop j m = stream (rx_ch s) @ drop i m"
    using assms(2) feed_spec [of "rx_ch s", where data = m and i = i] by (auto simp: rx_inv_def)
  with lc_resume_park feed_parked_forward [OF lc_resume_park(3)] show ?thesis
    by (auto simp: rx_work_def dest: length_streams)
next
  case (lc_read n bs e c)
  then have "c_buffer (rx_ch s) \<noteq> None" using assms(2) by (auto simp: rx_inv_def elim: chan_inv_ActiveE)
  with lc_read show ?thesis
    using Channel_Read_spec [of "rx_ch s" n] assms(2) by (auto simp: rx_work_def rx_inv_def)
qed

lemma tn_drain_work: "tn_drain s t \<Longrightarrow> tn_inv s \<Longrightarrow> tn_work t < tn_work s"
  by (elim tn_drainE)
    (auto simp: tn_work_def tn_inv_def dest: rx_local_work dest!: rx_deliver_work)

interpretation tn_drains: ranked tn_drain "\<lambda>s. tn_inv s \<and> tn_written s = w" tn_work for w
  by unfold_locales (auto dest: tn_drain_inv tn_drain_work)

lemma tn_drain_run:
  "(tn_drain ^^ k) s t \<Longrightarrow> tn_inv s \<Longrightarrow> tn_inv t \<and> tn_written t = tn_written s \<and> k + tn_work t \<le> tn_work s"
  using tn_drains.along_n [of k s t "tn_written s"] tn_drains.bounded [of k s t "tn_written s"] by simp

lemma deliver_enabled:
  assumes "rx_inv s" "chan_up (rx_ch s)" "rx_parked s = None"
  shows "\<exists>t. rx_deliver m s t"
proof -
  obtain res acc' where msg: "Channel_OnMessage True (0::nat) (make_chan 1) (rx_ch s) m = (res, acc')"
    by fastforce
  then have "res \<noteq> MsgIgnored" "res \<noteq> MsgWaits"
    using assms(2) feed_flags
    by (auto simp: Channel_OnMessage_def chan_up_def Channel_feed_def
        split: prod.splits if_splits option.splits ondata.splits send_result.splits)
  then show ?thesis
    using rx_msg_inv [OF assms(1,3) msg] msg assms(3)
    by (cases res) (auto intro: rx_deliver.intros)
qed

lemma read_enabled:
  assumes "rx_inv s" "chan_up (rx_ch s)" "stream (rx_ch s) \<noteq> []"
  shows "\<exists>t. rx_local s t"
proof -
  have act: "c_status (rx_ch s) = Active" "chan_inv (rx_ch s)" using assms by (auto simp: rx_inv_def)
  then have "c_buffer (rx_ch s) \<noteq> None" by (auto elim: chan_inv_ActiveE)
  then obtain bs e c where "Channel_Read (rx_ch s) 1 = CRead bs e c" "bs \<noteq> []"
    using Channel_Read_spec [OF act(2), of 1] assms(2,3)
    by (cases "Channel_Read (rx_ch s) 1") (auto simp: chan_up_def)
  then show ?thesis using act by (blast intro: lc_read)
qed

lemma resume_enabled:
  assumes "rx_inv s" "stream (rx_ch s) = []" "rx_parked s = Some (m, i)"
  shows "\<exists>t. rx_local s t"
proof -
  have act: "c_status (rx_ch s) = Active" "chan_inv (rx_ch s)" using assms by (auto simp: rx_inv_def)
  then obtain r where r: "c_rd (rx_ch s) = Some r" "reader_ok r" "\<not> ch_closed (rd_recv r)"
    by (auto elim: chan_inv_ActiveE)
  have "ch_buf (rd_recv r) = []"
    using assms(2) r by (auto simp: stream_def queued_def reader_ok_def)
  then have "OnData_from r m i \<noteq> OnParked r' i" for r'
    using r by (subst OnData_from.simps) (auto simp: chan_send_def reader_ok_def dest: parked_forward)
  then have "Channel_feed (rx_ch s) m i \<noteq> MsgParked c i" for c
    using r by (auto simp: Channel_feed_def split: ondata.splits)
  then consider c where "Channel_feed (rx_ch s) m i = MsgDone c"
    | c j where "Channel_feed (rx_ch s) m i = MsgParked c j" "i \<noteq> j"
    using feed_spec [OF act(2,1), where data = m and i = i]
    by (cases "Channel_feed (rx_ch s) m i") auto
  then show ?thesis by cases (use assms(3) in \<open>blast intro: lc_resume lc_resume_park\<close>)+
qed

lemma tn_stuck:
  assumes "tn_inv s" "\<nexists>t. tn_drain s t"
  shows "rx_out (tn_rx s) = tn_written s"
proof -
  have inv: "rx_inv (tn_rx s)" "chan_up (rx_ch (tn_rx s))" using assms(1) by (auto simp: tn_inv_def)
  have "\<nexists>t. rx_local (tn_rx s) t" using assms(2) by (blast intro: tn_local)
  then have rest: "stream (rx_ch (tn_rx s)) = []" "rx_parked (tn_rx s) = None"
    using read_enabled [OF inv] resume_enabled [OF inv(1)] by (auto simp: not_Some_eq [symmetric])
  then have "tn_wire s = []"
    using deliver_enabled [OF inv] assms(2) by (metis list.exhaust tn_deliver)
  with rest assms(1) show ?thesis by (simp add: tn_inv_def rx_inv_def rx_rest_def)
qed

subsection \<open>Message boundaries\<close>

text \<open>
  \<open>tn_segs\<close>: the pieces in which the unread bytes wait behind the reader's buffer.  Messages of at most a
  batch are queued and parked as a whole, so every piece is a message that \<open>Write\<close> sent.
\<close>

definition rx_queue :: "'d Channel \<Rightarrow> bytes list" where
  "rx_queue c = (case c_rd c of None \<Rightarrow> [] | Some r \<Rightarrow> ch_buf (rd_recv r))"

definition rx_unread :: "'d Channel \<Rightarrow> bytes" where
  "rx_unread c = (case c_buffer c of None \<Rightarrow> [] | Some b \<Rightarrow> bf_unread b)"

definition tn_segs :: "tunnel \<Rightarrow> bytes list" where
  "tn_segs s = rx_queue (rx_ch (tn_rx s)) @
     (case rx_parked (tn_rx s) of None \<Rightarrow> [] | Some (m, i) \<Rightarrow> [m]) @ tn_wire s"

definition small :: "bytes \<Rightarrow> bool" where
  "small m \<longleftrightarrow> m \<noteq> [] \<and> length m \<le> 4096"

lemma stream_split: "stream c = rx_unread c @ concat (rx_queue c)"
  by (simp add: stream_def rx_unread_def rx_queue_def queued_def split: option.split)

lemma feed_small:
  assumes "chan_inv c" "c_status c = Active" "small m"
  shows "(\<exists>c'. Channel_feed c m 0 = MsgDone c' \<and> rx_queue c' = rx_queue c @ [m] \<and> rx_unread c' = rx_unread c)
    \<or> Channel_feed c m 0 = MsgParked c 0"
proof -
  obtain r b where r: "c_rd c = Some r" "reader_ok r" "\<not> ch_closed (rd_recv r)"
    using assms by (auto elim: chan_inv_ActiveE)
  have batch: "rd_batch r = 4096" using r(2) by (simp add: reader_ok_def)
  have whole: "gslice m 0 (go_min (0 + rd_batch r) (length m)) = m"
    using assms(3) batch by (auto simp: go_min_def gslice_def small_def)
  show ?thesis
  proof (cases "length (ch_buf (rd_recv r)) < ch_cap (rd_recv r)")
    case True
    let ?r = "r\<lparr>rd_recv := (rd_recv r)\<lparr>ch_buf := ch_buf (rd_recv r) @ [m]\<rparr>\<rparr>"
    have "OnData_from r m 0 = OnData_from ?r m 4096"
      using True r assms(3) whole batch by (subst OnData_from.simps) (simp add: chan_send_open small_def)
    also have "\<dots> = OnDone ?r"
      using assms(3) by (subst OnData_from.simps) (simp add: small_def)
    finally show ?thesis using r by (simp add: Channel_feed_def rx_queue_def rx_unread_def)
  next
    case False
    then have "OnData_from r m 0 = OnParked r 0"
      using r assms(3) by (subst OnData_from.simps) (simp add: chan_send_open small_def)
    then show ?thesis using r by (simp add: Channel_feed_def)
  qed
qed

lemma take_idle_queue:
  assumes "chan_inv c" "Channel_TakeConn c = (t, c')" "c_status c = Active \<or> c_status c = Idle \<and> stream c = []"
  shows "rx_queue c' = rx_queue c \<and> rx_unread c' = rx_unread c"
proof (cases t)
  case True
  then have "rx_unread c = []" "concat (rx_queue c) = []" "c_status c = Idle"
    using assms by (simp_all add: TakeConn_True_iff stream_split)
  moreover have "\<forall>x \<in> set (rx_queue c). x \<noteq> []"
    using assms(1) by (auto simp: chan_inv_def rx_queue_def reader_ok_def split: option.splits)
  ultimately have "rx_queue c = []" by (cases "rx_queue c") auto
  with True assms(2) \<open>rx_unread c = []\<close> show ?thesis
    by (simp add: TakeConn_True_iff rx_queue_def rx_unread_def NewChannelReader_def bufio_NewReader_def)
next
  case False
  then show ?thesis using assms(2) by (simp add: TakeConn_False_iff)
qed

text \<open>Delivering a small message, or resuming a parked one, moves it without touching the pieces.\<close>

lemma rx_deliver_small:
  assumes "rx_deliver m s t" "rx_inv s" "small m"
  shows "rx_out t = rx_out s \<and> rx_unread (rx_ch t) = rx_unread (rx_ch s) \<and>
    (rx_parked t = None \<and> rx_queue (rx_ch t) = rx_queue (rx_ch s) @ [m] \<or>
     rx_parked t = Some (m, 0) \<and> rx_queue (rx_ch t) = rx_queue (rx_ch s))"
proof -
  obtain tk c1 where take: "Channel_TakeConn (rx_ch s) = (tk, c1)" by fastforce
  have c1: "chan_inv c1" "c_status c1 = Active"
    using stream_TakeConn [OF take] assms(2) by (auto simp: rx_inv_def)
  have keep: "rx_queue c1 = rx_queue (rx_ch s)" "rx_unread c1 = rx_unread (rx_ch s)"
    using take_idle_queue [OF _ take] assms(2) by (auto simp: rx_inv_def)
  note feed = feed_small [OF c1 assms(3)]
  have res: "res = Channel_feed c1 m 0 \<or> res = MsgAcceptBlocks c1"
    if "Channel_OnMessage pick self acc (rx_ch s) m = (res, acc')" "res \<noteq> MsgIgnored" "res \<noteq> MsgWaits" "res \<noteq> MsgPanic"
    for pick and self :: nat and acc acc' res
    using OnMessage_cases [OF that(1)] that take by auto
  from assms(1) show ?thesis
  proof (cases rule: rx_deliver.cases)
    case (dl_done pick self acc c acc')
    with res [OF dl_done(3)] feed keep show ?thesis by auto
  next
    case (dl_park pick self acc c i acc')
    with res [OF dl_park(3)] feed keep show ?thesis by auto
  next
    case (dl_accept pick self acc c acc')
    with res [OF dl_accept(3)] feed_flags(3) [THEN not_sym] keep show ?thesis by auto
  qed
qed

lemma rx_local_small:
  assumes "rx_local s t" "rx_inv s" "rx_out t = []" "\<And>m i. rx_parked s = Some (m, i) \<Longrightarrow> i = 0 \<and> small m"
  shows "rx_out s = [] \<and> rx_parked t = None \<and> rx_unread (rx_ch t) = rx_unread (rx_ch s) \<and>
    (\<exists>m. rx_parked s = Some (m, 0) \<and> rx_queue (rx_ch t) = rx_queue (rx_ch s) @ [m])"
  using assms(1)
proof (cases rule: rx_local.cases)
  case (lc_resume m i c)
  then have "chan_inv (rx_ch s)" "c_status (rx_ch s) = Active" "i = 0" "small m"
    using assms(2,4) by (auto simp: rx_inv_def)
  from feed_small [OF this(1,2,4)] lc_resume assms(3) \<open>i = 0\<close> show ?thesis by auto
next
  case (lc_resume_park m i c j)
  then have "chan_inv (rx_ch s)" "c_status (rx_ch s) = Active" "i = 0" "small m"
    using assms(2,4) by (auto simp: rx_inv_def)
  from feed_small [OF this(1,2,4)] lc_resume_park \<open>i = 0\<close> show ?thesis by auto
next
  case (lc_read n bs e c)
  then show ?thesis using assms(3) by simp
qed

text \<open>
  The invariant of a run that starts with the message \<open>m\<close> on the wire: all pieces are small, parked ones
  whole, and as long as nothing has been read the first piece is \<open>m\<close>.
\<close>

definition first_inv :: "bytes \<Rightarrow> tunnel \<Rightarrow> bool" where
  "first_inv m s \<longleftrightarrow> tn_inv s \<and> (\<forall>x \<in> set (tn_wire s). small x)
     \<and> (\<forall>x i. rx_parked (tn_rx s) = Some (x, i) \<longrightarrow> i = 0 \<and> small x)
     \<and> (rx_out (tn_rx s) = [] \<longrightarrow> rx_unread (rx_ch (tn_rx s)) = [] \<and> (\<exists>rest. tn_segs s = m # rest))"

lemma first_inv_tx:
  assumes "first_inv m s" "tn_inv (s\<lparr>tn_tx := c, tn_written := w\<rparr>)"
    and "c_dc (cn_rwr c) = tn_wire s @ ms" "\<forall>x \<in> set ms. small x"
  shows "first_inv m (s\<lparr>tn_tx := c, tn_written := w\<rparr>)"
proof -
  have "tn_segs (s\<lparr>tn_tx := c, tn_written := w\<rparr>) = tn_segs s @ ms"
    using assms(3) by (simp add: tn_segs_def)
  then show ?thesis using assms by (auto simp: first_inv_def)
qed

lemma first_inv_drain:
  assumes "tn_drain s t" "first_inv m s"
  shows "first_inv m t"
  using assms(1)
proof (cases rule: tn_drain.cases)
  case (tn_deliver x ms r)
  have inv: "rx_inv (tn_rx s)" "small x" using assms(2) tn_deliver by (auto simp: first_inv_def tn_inv_def)
  have "rx_parked (tn_rx s) = None" using tn_deliver(3) by (auto elim: rx_deliverE)
  with rx_deliver_small [OF tn_deliver(3) inv] tn_drain_inv [OF assms(1)] assms(2) tn_deliver inv(2)
  show ?thesis by (auto simp: first_inv_def tn_segs_def)
next
  case (tn_local r)
  have inv: "rx_inv (tn_rx s)" "\<And>x i. rx_parked (tn_rx s) = Some (x, i) \<Longrightarrow> i = 0 \<and> small x"
    using assms(2) by (auto simp: first_inv_def tn_inv_def)
  show ?thesis
  proof (cases "rx_out r = []")
    case True
    from rx_local_small [OF tn_local(2) inv(1) True inv(2)] tn_drain_inv [OF assms(1)] assms(2) tn_local
    show ?thesis by (auto simp: first_inv_def tn_segs_def)
  next
    case False
    have "rx_parked r = None \<or> rx_parked r = rx_parked (tn_rx s)"
      using tn_local(2) False
    proof (cases rule: rx_local.cases)
      case (lc_resume_park x i c j)
      then show ?thesis
        using feed_small [of "rx_ch (tn_rx s)" x] inv by (fastforce simp: rx_inv_def)
    qed auto
    then show ?thesis
      using False tn_drain_inv [OF assms(1)] assms(2) tn_local by (auto simp: first_inv_def)
  qed
qed

lemma chunks_small: "\<forall>x \<in> set (chunks 4096 data). small x"
  using chunks_bounded by (auto simp: small_def)

lemma first_inv_step:
  assumes "tn_step s t" "first_inv m s"
  shows "first_inv m t"
proof -
  have inv: "tn_inv s" "tn_inv t" using assms tn_step_inv by (auto simp: first_inv_def)
  have up: "chan_up (cn_rwr (tn_tx s))" using inv(1) by (simp add: tn_inv_def)
  from assms(1) show ?thesis
  proof (cases rule: tn_step.cases)
    case (tn_write st pick data n c)
    then have "c_dc (cn_rwr c) = tn_wire s @ chunks 4096 data"
      using Conn_Write_wire [OF up, of st pick data] by (auto split: if_splits)
    with first_inv_tx [OF assms(2)] inv(2) tn_write(1) chunks_small show ?thesis by blast
  next
    case (tn_write_err st pick data n e c)
    then have "c = tn_tx s" using Conn_Write_wire [OF up, of st pick data] by (auto split: if_splits)
    with tn_write_err assms(2) show ?thesis by simp
  next
    case (tn_close c)
    then have "c_dc (cn_rwr c) = tn_wire s @ []" using Conn_Close_keeps [OF _ up] by simp
    with first_inv_tx [OF assms(2), where c = c and w = "tn_written s" and ms = "[]"] inv(2) tn_close(1)
    show ?thesis by simp
  next
    case tn_progress
    then show ?thesis using first_inv_drain assms(2) by blast
  qed
qed

interpretation first_run: preserved tn_step "first_inv m" for m
  by unfold_locales (rule first_inv_step)

text \<open>A first write of at most a batch puts one message on the wire.\<close>

lemma chunks_small_one: "small m \<Longrightarrow> chunks 4096 m = [m]"
  by (subst chunks.simps) (simp add: small_def)

lemma first_inv_start:
  assumes "tn_ready c d" "small m"
    and "Conn_Write (Channel_Write st wire_send pick) (NewConn c) m = CnWrote n None c1"
  shows "first_inv m ((tn_start c d)\<lparr>tn_tx := c1, tn_written := m\<rparr>)"
proof -
  let ?s = "tn_start c d"
  have "Conn_Write (Channel_Write st wire_send pick) (tn_tx ?s) m = CnWrote n None c1"
    using assms(3) by (simp add: tn_start_def)
  from tn_write [OF this] have step: "tn_step ?s (?s\<lparr>tn_tx := c1, tn_written := m\<rparr>)"
    by (simp add: tn_start_def)
  have "tn_inv (?s\<lparr>tn_tx := c1, tn_written := m\<rparr>)"
    using tn_step_inv [OF step] tn_reach_inv [OF tn_init assms(1)] by blast
  moreover have "c_dc (cn_rwr c1) = [m]"
    using Conn_Write_wire [of "NewConn c" st pick m] assms chunks_small_one [OF assms(2)]
    by (auto simp: NewConn_def tn_ready_def split: if_splits)
  moreover have "rx_unread d = []" "rx_queue d = []"
  proof -
    have "stream d = []" "chan_inv d" using assms(1) by (auto simp: tn_ready_def rx_ready_def)
    then show "rx_unread d = []" "rx_queue d = []"
      by (auto simp: stream_split) (auto simp: rx_queue_def chan_inv_def reader_ok_def stream_def queued_def
          split: option.splits)
  qed
  ultimately show ?thesis
    using assms(2) by (simp add: first_inv_def tn_segs_def tn_start_def rx_start_def)
qed

text \<open>What a read into an empty buffer returns: the first queued batch, when it fits.\<close>

lemma read_first_batch:
  assumes "chan_inv c" "c_status c = Active" "\<not> chan_ready (c_close c)" "rx_unread c = []"
  shows "(\<forall>rest. rx_queue c = m # rest \<longrightarrow> length m \<le> n \<longrightarrow> 0 < n \<longrightarrow> (\<exists>c'. Channel_Read c n = CRead m None c'))
    \<and> (rx_queue c = [] \<longrightarrow> 0 < n \<longrightarrow> Channel_Read c n = CReadBlocks)"
proof -
  obtain r b where rb: "c_rd c = Some r" "c_buffer c = Some b" "bf_size b = 4096" "bf_err b = None"
    "\<not> ch_closed (rd_recv r)" "reader_ok r"
    using assms(1,2) by (auto elim: chan_inv_ActiveE)
  then show ?thesis
    using assms(3,4)
    by (auto simp: Channel_Read_def bufio_Read_def ChannelReader_Read_def chan_recv_def rx_queue_def rx_unread_def
        reader_ok_def)
qed

subsection \<open>Properties\<close>

text \<open>
  However writes, failed writes, closing of the sending connection, message callbacks, parked
  callbacks and reads interleave, the bytes read at the far end, then those buffered, queued or parked
  there, then those in flight are exactly the bytes that the successful writes were given, in order.
  So the reader has seen a prefix of what was written.
\<close>

theorem tunnel_is_a_byte_stream:
  assumes "tn_ready c d" "tn_reach c d s"
  shows "rx_out (tn_rx s) @ rx_rest (tn_rx s) @ concat (tn_wire s) = tn_written s
    \<and> (\<exists>rest. tn_written s = rx_out (tn_rx s) @ rest)"
proof -
  have "rx_out (tn_rx s) @ rx_rest (tn_rx s) @ concat (tn_wire s) = tn_written s"
    using tn_reach_inv [OF assms(2,1)] by (simp add: tn_inv_def rx_inv_def flip: append_assoc)
  then show ?thesis by metis
qed

text \<open>
  From every reachable state, whatever the receiver and the data channel do next without a
  further write ends after a bounded number of effective steps, keeps what was written, and can only
  stop when every written byte has been read: the bounded queue and the parked callbacks never
  deadlock with the reader.
\<close>

theorem tunnel_drains_completely:
  assumes "tn_ready c d" "tn_reach c d s" "(tn_drain ^^ k) s t"
  shows "k \<le> tn_work s \<and> tn_written t = tn_written s
    \<and> ((\<nexists>u. tn_drain t u) \<longrightarrow> rx_out (tn_rx t) = tn_written s)"
  using tn_drain_run [OF assms(3) tn_reach_inv [OF assms(2,1)]] tn_stuck [of t] by auto

lemma tn_ready_example:
  "tn_ready (Channel_onOpen (NewOfferChannel ''s'' ''c'' [] (NewLabel Web 1)))
            (Channel_onOpen (NewAnswerChannel ''s'' ''c'' () (NewLabel Web 1) True))"
  by (simp add: tn_ready_def chan_up_def rx_ready_def)
    (simp add: Channel_onOpen_def NewOfferChannel_def NewAnswerChannel_def newChannel_def chan_close_def
      stream_def)

lemma tn_write_example:
  assumes "tn_ready c d"
  shows "\<exists>s. tn_reach c d s \<and> tn_written s = data \<and> tn_wire s = chunks 4096 data
    \<and> tn_rx s = rx_start d"
proof -
  let ?s = "tn_start c d"
  let ?c = "(NewConn c)\<lparr>cn_rwr := c\<lparr>c_dc := chunks 4096 data\<rparr>\<rparr>"
  have "Conn_Write (Channel_Write [] wire_send (\<lambda>_. True)) (tn_tx ?s) data = CnWrote (length data) None ?c"
    using Conn_Write_wire [of "tn_tx ?s" "[]" "\<lambda>_. True" data] assms
    by (simp add: tn_start_def NewConn_def tn_ready_def)
  then have "tn_reach c d (?s\<lparr>tn_tx := ?c, tn_written := tn_written ?s @ data\<rparr>)"
    by (blast intro: tn_next tn_init tn_write)
  then show ?thesis
    by (intro exI conjI) (auto simp: tn_start_def NewConn_def)
qed

theorem tunnel_is_a_byte_stream_witness:
  "\<exists>c d s. tn_ready c d \<and> tn_reach c d s \<and> tn_written s = [1, 2, 3] \<and>
     rx_out (tn_rx s) @ rx_rest (tn_rx s) @ concat (tn_wire s) = [1, 2, 3]"
proof -
  obtain c d where r: "tn_ready c d" using tn_ready_example by blast
  obtain s where "tn_reach c d s" "tn_written s = [1, 2, 3]" using tn_write_example [OF r] by blast
  with r show ?thesis using tunnel_is_a_byte_stream [of c d s] by auto
qed

theorem tunnel_drains_completely_witness:
  "\<exists>c d s t k. tn_ready c d \<and> tn_reach c d s \<and> (tn_drain ^^ k) s t \<and> 0 < k \<and> k \<le> tn_work s \<and>
     tn_written t = [1, 2, 3]"
proof -
  obtain c d where r: "tn_ready c d" using tn_ready_example by blast
  obtain s where s: "tn_reach c d s" "tn_written s = [1, 2, 3]" "tn_rx s = rx_start d"
    using tn_write_example [OF r] by blast
  have "rx_out (tn_rx s) \<noteq> tn_written s" using s by (simp add: rx_start_def)
  then obtain t where "(tn_drain ^^ 1) s t" using tn_stuck tn_reach_inv [OF s(1) r] by fastforce
  with r s show ?thesis using tunnel_drains_completely [of c d s 1 t] by force
qed

lemma first_piece:
  assumes "tn_ready c d" "small m"
    and "Conn_Write (Channel_Write st wire_send pick) (NewConn c) m = CnWrote k None c1"
    and "tn_step\<^sup>*\<^sup>* ((tn_start c d)\<lparr>tn_tx := c1, tn_written := m\<rparr>) s"
    and "rx_out (tn_rx s) = []" "c_status (rx_ch (tn_rx s)) = Active" "length m \<le> n"
  shows "Channel_Read (rx_ch (tn_rx s)) n = CReadBlocks
    \<or> (\<exists>c'. Channel_Read (rx_ch (tn_rx s)) n = CRead m None c')"
proof -
  have inv: "first_inv m s"
    using first_run.along [OF assms(4)] first_inv_start [OF assms(1-3)] by blast
  then have "chan_inv (rx_ch (tn_rx s))" "\<not> chan_ready (c_close (rx_ch (tn_rx s)))"
    "rx_unread (rx_ch (tn_rx s)) = []"
    using assms(5) by (auto simp: first_inv_def tn_inv_def chan_up_def)
  note read = read_first_batch [OF this(1) assms(6) this(2,3), of m n]
  have n: "0 < n" using assms(2,7) by (cases m) (auto simp: small_def)
  obtain rest where segs: "tn_segs s = m # rest" using inv assms(5) by (auto simp: first_inv_def)
  show ?thesis
  proof (cases "rx_queue (rx_ch (tn_rx s))")
    case Nil
    then show ?thesis using read n by simp
  next
    case (Cons x xs)
    then have "x = m" using segs by (simp add: tn_segs_def)
    then show ?thesis using read n assms(7) Cons by blast
  qed
qed

text \<open>The same read through the connection, whose deadline is not set: it waits or returns the message.\<close>

lemma first_conn_read:
  assumes "tn_ready c d" "small m"
    and "Conn_Write (Channel_Write st wire_send pick) (NewConn c) m = CnWrote k None c1"
    and "tn_step\<^sup>*\<^sup>* ((tn_start c d)\<lparr>tn_tx := c1, tn_written := m\<rparr>) s"
    and "rx_out (tn_rx s) = []" "c_status (rx_ch (tn_rx s)) = Active" "length m \<le> n"
  shows "(\<exists>c'. Conn_Read Channel_Read now waited pick' (NewConn (rx_ch (tn_rx s))) n = CnBlocks c')
    \<or> (\<exists>c'. Conn_Read Channel_Read now waited pick' (NewConn (rx_ch (tn_rx s))) n = CnRead m None c')"
proof -
  have "cn_rdl (NewConn (rx_ch (tn_rx s))) = None" by (simp add: NewConn_def)
  then show ?thesis
    using first_piece [OF assms] pending_deadline_never_fires [of "NewConn (rx_ch (tn_rx s))" now Channel_Read waited pick' n]
    by (auto simp: NewConn_def)
qed

text \<open>
  C16: a connection keeps its first message together.  When the first write hands over at most 4096 bytes,
  then under every later interleaving, the first read of at least that many bytes at the other end waits
  until the message has arrived and then returns exactly these bytes, neither split nor merged with what
  was written after them.  Services read their request headers this way.
\<close>

theorem first_read_returns_the_first_write:
  assumes "tn_ready c d" "small m"
    and "Conn_Write (Channel_Write st wire_send pick) (NewConn c) m = CnWrote k None c1"
    and "tn_step\<^sup>*\<^sup>* ((tn_start c d)\<lparr>tn_tx := c1, tn_written := m\<rparr>) s"
    and "rx_out (tn_rx s) = []" "c_status (rx_ch (tn_rx s)) = Active" "length m \<le> n"
  shows "Channel_Read (rx_ch (tn_rx s)) n = CReadBlocks
    \<or> (\<exists>c'. Channel_Read (rx_ch (tn_rx s)) n = CRead m None c')"
  by (rule first_piece [OF assms])

lemma rx_deliver_active: "rx_deliver m s t \<Longrightarrow> rx_inv s \<Longrightarrow> c_status (rx_ch t) = Active"
  by (elim rx_deliverE) (auto dest!: rx_msg_inv)

text \<open>A run in which a first message has been written and its delivery has started.\<close>

lemma first_message_example:
  assumes "small m"
  obtains c d c1 k s where "tn_ready c d"
    "Conn_Write (Channel_Write [] wire_send (\<lambda>_. True)) (NewConn c) m = CnWrote k None c1"
    "tn_step\<^sup>*\<^sup>* ((tn_start c d)\<lparr>tn_tx := c1, tn_written := m\<rparr>) s"
    "rx_out (tn_rx s) = []" "c_status (rx_ch (tn_rx s)) = Active"
proof -
  obtain c d where r: "tn_ready c d" using tn_ready_example by blast
  obtain k c1 where w: "Conn_Write (Channel_Write [] wire_send (\<lambda>_. True)) (NewConn c) m = CnWrote k None c1"
    using Conn_Write_wire [of "NewConn c" "[]" "\<lambda>_. True" m] r by (auto simp: NewConn_def tn_ready_def)
  let ?s = "(tn_start c d)\<lparr>tn_tx := c1, tn_written := m\<rparr>"
  have inv: "first_inv m ?s" by (rule first_inv_start [OF r assms w])
  then have rx: "rx_inv (tn_rx ?s)" "chan_up (rx_ch (tn_rx ?s))" by (auto simp: first_inv_def tn_inv_def)
  have none: "rx_parked (tn_rx ?s) = None" by (simp add: tn_start_def rx_start_def)
  obtain ms where wire: "tn_wire ?s = m # ms"
    using Conn_Write_wire [of "NewConn c" "[]" "\<lambda>_. True" m] w r chunks_small_one [OF assms]
    by (auto simp: NewConn_def tn_ready_def split: if_splits)
  obtain t where t: "rx_deliver m (tn_rx ?s) t" using deliver_enabled [OF rx none] by blast
  let ?t = "?s\<lparr>tn_tx := (tn_tx ?s)\<lparr>cn_rwr := (cn_rwr (tn_tx ?s))\<lparr>c_dc := ms\<rparr>\<rparr>, tn_rx := t\<rparr>"
  have "tn_step ?s ?t" by (rule tn_progress [OF tn_deliver [OF wire t]])
  then have run: "tn_step\<^sup>*\<^sup>* ?s ?t" by blast
  have "rx_out t = []" "c_status (rx_ch t) = Active"
    using rx_deliver_small [OF t rx(1) assms] rx_deliver_active [OF t rx(1)]
    by (simp_all add: tn_start_def rx_start_def)
  then show thesis by (intro that [OF r w run]) simp_all
qed

theorem first_read_returns_the_first_write_witness:
  "\<exists>c d c1 k s. tn_ready c d \<and>
     Conn_Write (Channel_Write [] wire_send (\<lambda>_. True)) (NewConn c) [31, 144] = CnWrote k None c1 \<and>
     tn_step\<^sup>*\<^sup>* ((tn_start c d)\<lparr>tn_tx := c1, tn_written := [31, 144]\<rparr>) s \<and>
     (Channel_Read (rx_ch (tn_rx s)) 2 = CReadBlocks \<or>
      (\<exists>c'. Channel_Read (rx_ch (tn_rx s)) 2 = CRead [31, 144] None c'))"
proof -
  have small: "small [31, 144 :: byte]" by (simp add: small_def)
  obtain c d c1 k s where s: "tn_ready c d"
    "Conn_Write (Channel_Write [] wire_send (\<lambda>_. True)) (NewConn c) [31, 144] = CnWrote k None c1"
    "tn_step\<^sup>*\<^sup>* ((tn_start c d)\<lparr>tn_tx := c1, tn_written := [31, 144]\<rparr>) s"
    "rx_out (tn_rx s) = []" "c_status (rx_ch (tn_rx s)) = Active"
    by (rule first_message_example [OF small])
  from first_read_returns_the_first_write [OF s(1) small s(2-5), of 2] s show ?thesis by force
qed

end
