(* ===== verification/Duplex.thy ===== *)
theory Duplex
  imports Tunnel
begin

section \<open>Both directions of a connection\<close>

text \<open>
  The two ends of one data channel, each with the \<open>net.Conn\<close> (\<open>net/conn.go\<close>) that the dialling or
  the accepting side uses.  A \<open>Channel\<close> (\<open>net/conn/channel.go\<close>) serves both directions with one
  record: \<open>Write\<close> hands messages to its data channel, \<open>OnMessage\<close> queues the other side's messages
  on its reader.  The labelled steps interleave, at both ends, writes, reads with and without deadlines,
  arrivals and parked callbacks that continue; closing ends the connection and is not part of these
  runs.  The specification is the pair of byte pipes of \<open>Transitions\<close>; the simulation shows that the
  pair of channels implements it.
\<close>

datatype side = Dialer | Accepter

fun other :: "side \<Rightarrow> side" where
  "other Dialer = Accepter"
| "other Accepter = Dialer"

text \<open>\<open>ep_in\<close> and \<open>ep_out\<close> record the bytes received by the callbacks and returned by reads.\<close>

record endpoint =
  ep_conn :: "bytes list Channel Conn"
  ep_parked :: "(bytes \<times> nat) option"
  ep_in :: bytes
  ep_out :: bytes

type_synonym duplex = "side \<Rightarrow> endpoint"

abbreviation ep_ch :: "endpoint \<Rightarrow> bytes list Channel" where
  "ep_ch p \<equiv> cn_rwr (ep_conn p)"

abbreviation ep_wire :: "endpoint \<Rightarrow> bytes list" where
  "ep_wire p \<equiv> c_dc (ep_ch p)"

definition ep_rx :: "endpoint \<Rightarrow> bytes list rx" where
  "ep_rx p = \<lparr>rx_ch = ep_ch p, rx_parked = ep_parked p, rx_in = ep_in p, rx_out = ep_out p\<rparr>"

definition set_rx :: "bytes list rx \<Rightarrow> endpoint \<Rightarrow> endpoint" where
  "set_rx r p = p\<lparr>ep_conn := (ep_conn p)\<lparr>cn_rwr := rx_ch r\<rparr>, ep_parked := rx_parked r,
                  ep_in := rx_in r, ep_out := rx_out r\<rparr>"

definition set_wire :: "bytes list \<Rightarrow> endpoint \<Rightarrow> endpoint" where
  "set_wire ms p = p\<lparr>ep_conn := (ep_conn p)\<lparr>cn_rwr := (ep_ch p)\<lparr>c_dc := ms\<rparr>\<rparr>\<rparr>"

definition ep_start :: "bytes list Channel \<Rightarrow> endpoint" where
  "ep_start c = \<lparr>ep_conn = NewConn c, ep_parked = None, ep_in = [], ep_out = []\<rparr>"

text \<open>
  The dialled channel was taken from the pool, the accepted one is taken by its first message; both are
  open, nothing is in flight and nothing is buffered.
\<close>

definition ep_ready :: "bytes list Channel \<Rightarrow> bool" where
  "ep_ready c \<longleftrightarrow> chan_up c \<and> c_dc c = [] \<and> stream c = [] \<and> (c_status c = Active \<or> c_status c = Idle)"

definition dx_start :: "bytes list Channel \<Rightarrow> bytes list Channel \<Rightarrow> duplex" where
  "dx_start c d e = (case e of Dialer \<Rightarrow> ep_start c | Accepter \<Rightarrow> ep_start d)"

datatype dx_event = DWrite side bytes | DWriteFails side | DDeadline side | DArrive side | DResume side
  | DRead side bytes

text \<open>A connection exists on a side while its channel is active, so only then it is written or read.\<close>

inductive dx_step :: "duplex \<Rightarrow> dx_event \<Rightarrow> duplex \<Rightarrow> bool" where
  dx_write: "c_status (ep_ch (s e)) = Active \<Longrightarrow>
     Conn_Write (Channel_Write st wire_send pick) (ep_conn (s e)) data = CnWrote n None c \<Longrightarrow>
     dx_step s (DWrite e data) (s(e := (s e)\<lparr>ep_conn := c\<rparr>))"
| dx_write_err: "c_status (ep_ch (s e)) = Active \<Longrightarrow>
     Conn_Write (Channel_Write st wire_send pick) (ep_conn (s e)) data = CnWrote n (Some er) c \<Longrightarrow>
     dx_step s (DWriteFails e) (s(e := (s e)\<lparr>ep_conn := c\<rparr>))"
| dx_deadline: "c_status (ep_ch (s e)) = Active \<Longrightarrow>
     c \<in> {SetDeadline t (ep_conn (s e)), SetReadDeadline t (ep_conn (s e)), SetWriteDeadline t (ep_conn (s e))} \<Longrightarrow>
     dx_step s (DDeadline e) (s(e := (s e)\<lparr>ep_conn := c\<rparr>))"
| dx_arrive: "ep_wire (s (other e)) = m # ms \<Longrightarrow> rx_deliver m (ep_rx (s e)) r \<Longrightarrow>
     dx_step s (DArrive e) (s(e := set_rx r (s e), other e := set_wire ms (s (other e))))"
| dx_resume: "ep_parked (s e) = Some (m, i) \<Longrightarrow> Channel_feed (ep_ch (s e)) m i = MsgDone c \<Longrightarrow>
     dx_step s (DResume e)
       (s(e := (s e)\<lparr>ep_conn := (ep_conn (s e))\<lparr>cn_rwr := c\<rparr>, ep_parked := None\<rparr>))"
| dx_resume_park: "ep_parked (s e) = Some (m, i) \<Longrightarrow> Channel_feed (ep_ch (s e)) m i = MsgParked c j \<Longrightarrow>
     i \<noteq> j \<Longrightarrow> dx_step s (DResume e)
       (s(e := (s e)\<lparr>ep_conn := (ep_conn (s e))\<lparr>cn_rwr := c\<rparr>, ep_parked := Some (m, j)\<rparr>))"
| dx_read: "c_status (ep_ch (s e)) = Active \<Longrightarrow>
     Conn_Read Channel_Read now waited pick (ep_conn (s e)) k = CnRead bs er c \<Longrightarrow>
     dx_step s (DRead e bs) (s(e := (s e)\<lparr>ep_conn := c, ep_out := ep_out (s e) @ bs\<rparr>))"

text \<open>What the user of the connection sees of a step.\<close>

fun dx_visible :: "dx_event \<Rightarrow> side pipe_event option" where
  "dx_visible (DWrite e bs) = Some (PWrite e bs)"
| "dx_visible (DRead e bs) = Some (PRead (other e) bs)"
| "dx_visible _ = None"

text \<open>The bytes on their way from \<open>e\<close>: queued, buffered or parked at the other end, then in flight.\<close>

definition dx_pipe :: "duplex \<Rightarrow> side \<Rightarrow> bytes" where
  "dx_pipe s e = rx_rest (ep_rx (s (other e))) @ concat (ep_wire (s e))"

definition ep_inv :: "endpoint \<Rightarrow> bool" where
  "ep_inv p \<longleftrightarrow> chan_up (ep_ch p) \<and> rx_inv (ep_rx p) \<and> \<not> cn_isRelease (ep_conn p)"

definition dx_inv :: "duplex \<Rightarrow> bool" where
  "dx_inv s \<longleftrightarrow> (\<forall>e. ep_inv (s e))"

subsection \<open>Sending and receiving do not interfere\<close>

lemma other_other [simp]: "other (other e) = e" "other e \<noteq> e" "e \<noteq> other e"
  by (cases e; simp)+

lemma side_eq_other: "f \<noteq> e \<longleftrightarrow> f = other e"
  by (cases e; cases f; simp)

text \<open>The bytes a channel has received do not depend on its data channel, through which it sends.\<close>

lemma stream_dc [simp]: "stream (c\<lparr>c_dc := q\<rparr>) = stream c"
  by (simp add: stream_def)

lemma chan_inv_dc [simp]: "chan_inv (c\<lparr>c_dc := q\<rparr>) = chan_inv c"
  by (simp add: chan_inv_def split: option.split)

lemma ep_rx_simps [simp]:
  "rx_ch (ep_rx p) = ep_ch p" "rx_parked (ep_rx p) = ep_parked p" "rx_in (ep_rx p) = ep_in p"
  "rx_out (ep_rx p) = ep_out p" "ep_rx (set_rx r p) = r" "ep_wire (set_wire ms p) = ms"
  "ep_wire (set_rx r p) = c_dc (rx_ch r)"
  by (simp_all add: ep_rx_def set_rx_def set_wire_def)

lemma rx_inv_out: "rx_inv s \<Longrightarrow> rx_out s @ rx_rest s = rx_in s"
  by (simp add: rx_inv_def)

lemma ep_inv_conn:
  assumes "ep_inv p" "cn_rwr c = (ep_ch p)\<lparr>c_dc := q\<rparr>" "cn_isRelease c = cn_isRelease (ep_conn p)"
  shows "ep_inv (p\<lparr>ep_conn := c\<rparr>)" "rx_rest (ep_rx (p\<lparr>ep_conn := c\<rparr>)) = rx_rest (ep_rx p)"
  using assms by (auto simp: ep_inv_def rx_inv_def rx_rest_def chan_up_def)

lemma Conn_Read_cases:
  assumes "Conn_Read rd now waited pick c k = CnRead bs er c'"
  shows "(bs = [] \<and> cn_rdl c \<noteq> None \<and> c' = c\<lparr>cn_rdl := None\<rparr>)
    \<or> (\<exists>s. rd (cn_rwr c) k = CRead bs er s \<and> c' = c\<lparr>cn_rdl := None, cn_rwr := s\<rparr>)"
proof (cases "\<exists>t. cn_rdl c = Some t \<and> t \<le> now")
  case True
  then show ?thesis using assms passed_deadline_fails_once [of c] by auto
next
  case False
  then have "cn_rdl c = None \<or> (\<exists>t. cn_rdl c = Some t \<and> now < t)" by (cases "cn_rdl c") auto
  from pending_deadline_never_fires [OF this, of rd waited pick k] assms show ?thesis
    by (auto split: chan_read.splits)
qed

text \<open>A read at an end in its invariant takes a piece from the front of what has arrived there.\<close>

lemma ep_read:
  assumes "ep_inv p" "c_status (ep_ch p) = Active"
    and "Conn_Read Channel_Read now waited pick (ep_conn p) k = CnRead bs er c"
  defines "p' \<equiv> p\<lparr>ep_conn := c, ep_out := ep_out p @ bs\<rparr>"
  shows "ep_inv p' \<and> rx_rest (ep_rx p) = bs @ rx_rest (ep_rx p') \<and> ep_wire p' = ep_wire p"
  using Conn_Read_cases [OF assms(3)]
proof (elim disjE conjE exE)
  assume "bs = []" "c = (ep_conn p)\<lparr>cn_rdl := None\<rparr>"
  then show ?thesis using assms(1) by (simp add: p'_def ep_inv_def ep_rx_def)
next
  fix s
  assume rd: "Channel_Read (ep_ch p) k = CRead bs er s" and c: "c = (ep_conn p)\<lparr>cn_rdl := None, cn_rwr := s\<rparr>"
  have inv: "rx_inv (ep_rx p)" "chan_up (ep_ch p)" using assms(1) by (auto simp: ep_inv_def)
  have "rx_step (ep_rx p) (ep_rx p')"
    using rx_read [of "ep_rx p" k bs er s] rd c assms(2) by (simp add: ep_rx_def p'_def)
  with inv(1) have "rx_inv (ep_rx p')" by (blast intro: rx_step_inv)
  moreover have p': "ep_ch p' = s" "ep_in p' = ep_in p" "ep_out p' = ep_out p @ bs"
    by (simp_all add: p'_def c)
  moreover have "ep_out p @ rx_rest (ep_rx p) = ep_out p @ bs @ rx_rest (ep_rx p')"
    using rx_inv_out [OF inv(1)] rx_inv_out [OF \<open>rx_inv (ep_rx p')\<close>] p' by simp
  moreover have "chan_inv s" using \<open>rx_inv (ep_rx p')\<close> p' by (simp add: rx_inv_def)
  ultimately show ?thesis
    using inv(2) Read_flags [OF rd] assms(1) by (simp add: ep_inv_def chan_up_def) (simp add: p'_def c)
qed

text \<open>A callback that continues moves parked bytes to the queue.\<close>

lemma ep_resume:
  assumes "ep_inv p" "ep_parked p = Some (m, i)"
    and "Channel_feed (ep_ch p) m i = MsgDone c \<and> pk = None \<or>
         Channel_feed (ep_ch p) m i = MsgParked c j \<and> pk = Some (m, j)"
  defines "p' \<equiv> p\<lparr>ep_conn := (ep_conn p)\<lparr>cn_rwr := c\<rparr>, ep_parked := pk\<rparr>"
  shows "ep_inv p' \<and> rx_rest (ep_rx p') = rx_rest (ep_rx p) \<and> ep_wire p' = ep_wire p"
proof -
  have inv: "rx_inv (ep_rx p)" "chan_up (ep_ch p)" using assms(1) by (auto simp: ep_inv_def)
  have "rx_step (ep_rx p) (ep_rx p')"
    using assms(2,3) rx_resume [of "ep_rx p" m i c] rx_resume_park [of "ep_rx p" m i c j]
    by (auto simp: ep_rx_def p'_def)
  with inv(1) have inv': "rx_inv (ep_rx p')" by (blast intro: rx_step_inv)
  have p': "ep_ch p' = c" "ep_in p' = ep_in p" "ep_out p' = ep_out p" by (simp_all add: p'_def)
  have "c_open c = c_open (ep_ch p) \<and> c_close c = c_close (ep_ch p) \<and> c_dc c = c_dc (ep_ch p)"
    using assms(3) feed_flags(1,2) [of "ep_ch p" m i c] by auto
  moreover have "ep_out p @ rx_rest (ep_rx p) = ep_out p @ rx_rest (ep_rx p')"
    using rx_inv_out [OF inv(1)] rx_inv_out [OF inv'] p' by simp
  moreover have "chan_inv c" using inv' p' by (simp add: rx_inv_def)
  ultimately show ?thesis
    using inv(2) inv' p' assms(1) by (simp add: ep_inv_def chan_up_def) (simp add: p'_def)
qed

lemma ep_arrive:
  assumes "ep_inv p" "rx_deliver m (ep_rx p) r"
  shows "ep_inv (set_rx r p) \<and> rx_rest r = rx_rest (ep_rx p) @ m \<and> c_dc (rx_ch r) = ep_wire p"
proof -
  have inv: "rx_inv (ep_rx p)" "chan_up (ep_ch p)" using assms(1) by (auto simp: ep_inv_def)
  have r: "rx_inv r" "chan_up (rx_ch r)" "rx_in r = ep_in p @ m"
    using rx_deliver_inv [OF assms(2) inv(1)] inv(2) by auto
  have "rx_out r = ep_out p" using assms(2) by (auto elim: rx_deliverE)
  then have "ep_out p @ rx_rest r = ep_out p @ rx_rest (ep_rx p) @ m"
    using rx_inv_out [OF r(1)] rx_inv_out [OF inv(1)] r(3) by simp
  then show ?thesis using r rx_deliver_flags [OF assms(2)] assms(1) by (simp add: ep_inv_def) (simp add: set_rx_def)
qed


lemma set_wire_inv: "ep_inv p \<Longrightarrow> ep_inv (set_wire ms p) \<and> rx_rest (ep_rx (set_wire ms p)) = rx_rest (ep_rx p)"
  using ep_inv_conn [of p "(ep_conn p)\<lparr>cn_rwr := (ep_ch p)\<lparr>c_dc := ms\<rparr>\<rparr>" ms] by (simp add: set_wire_def)

text \<open>
  The effect of a step on the end that takes it: its invariant, what is waiting there, and what it has in
  flight.  The other end changes only by the message that an arrival takes from it.
\<close>

lemma ep_write:
  assumes "ep_inv p" "Conn_Write (Channel_Write st wire_send pick) (ep_conn p) data = CnWrote n er c"
  defines "p' \<equiv> p\<lparr>ep_conn := c\<rparr>"
  shows "ep_inv p' \<and> rx_rest (ep_rx p') = rx_rest (ep_rx p)
    \<and> concat (ep_wire p') = concat (ep_wire p) @ (if er = None then data else [])"
proof -
  have up: "chan_up (cn_rwr (ep_conn p))" using assms(1) by (simp add: ep_inv_def)
  have "cn_rwr c = (ep_ch p)\<lparr>c_dc := ep_wire p @ (if er = None then chunks 4096 data else [])\<rparr>"
    "cn_isRelease c = cn_isRelease (ep_conn p)"
    using assms(2) Conn_Write_wire [OF up, of st pick data] by (auto split: if_splits)
  from ep_inv_conn [OF assms(1) this] this show ?thesis by (cases er) (simp_all add: p'_def concat_chunks)
qed

lemma ep_deadline:
  assumes "ep_inv p"
    and "c \<in> {SetDeadline t (ep_conn p), SetReadDeadline t (ep_conn p), SetWriteDeadline t (ep_conn p)}"
  defines "p' \<equiv> p\<lparr>ep_conn := c\<rparr>"
  shows "ep_inv p' \<and> rx_rest (ep_rx p') = rx_rest (ep_rx p) \<and> ep_wire p' = ep_wire p"
proof -
  have "cn_rwr c = (ep_ch p)\<lparr>c_dc := ep_wire p\<rparr>" "cn_isRelease c = cn_isRelease (ep_conn p)"
    using assms(2) by (auto simp: SetDeadline_def SetReadDeadline_def SetWriteDeadline_def)
  from ep_inv_conn [OF assms(1) this] this show ?thesis by (simp add: p'_def)
qed

lemma dx_hidden:
  assumes "dx_inv s"
    and "ep_inv p \<and> rx_rest (ep_rx p) = rx_rest (ep_rx (s e)) \<and> concat (ep_wire p) = concat (ep_wire (s e))"
  shows "dx_inv (s(e := p)) \<and> dx_pipe (s(e := p)) = dx_pipe s"
  using assms by (auto simp: dx_inv_def dx_pipe_def fun_eq_iff)

lemma dx_sends:
  assumes "dx_inv s"
    and "ep_inv p \<and> rx_rest (ep_rx p) = rx_rest (ep_rx (s e)) \<and> concat (ep_wire p) = concat (ep_wire (s e)) @ bs"
  shows "dx_inv (s(e := p)) \<and> pipe_step (dx_pipe s) (PWrite e bs) (dx_pipe (s(e := p)))"
  using assms by (auto simp: dx_inv_def dx_pipe_def pipe_step_def pipe_apply_def fun_eq_iff)

lemma dx_takes:
  assumes "dx_inv s"
    and "ep_inv p \<and> rx_rest (ep_rx (s e)) = bs @ rx_rest (ep_rx p) \<and> ep_wire p = ep_wire (s e)"
  shows "dx_inv (s(e := p)) \<and> pipe_step (dx_pipe s) (PRead (other e) bs) (dx_pipe (s(e := p)))"
proof -
  let ?q = "rx_rest (ep_rx p) @ concat (ep_wire (s (other e)))"
  have "dx_pipe s (other e) = bs @ ?q" using assms(2) by (simp add: dx_pipe_def)
  moreover have "dx_pipe (s(e := p)) = (dx_pipe s)(other e := ?q)"
  proof
    fix f
    show "dx_pipe (s(e := p)) f = ((dx_pipe s)(other e := ?q)) f"
      using assms(2) by (cases "f = e") (simp_all add: dx_pipe_def side_eq_other)
  qed
  ultimately show ?thesis using assms by (simp add: dx_inv_def pipe_step_def pipe_apply_def)
qed

lemma dx_moves:
  assumes "dx_inv s" "ep_wire (s (other e)) = m # ms" "rx_deliver m (ep_rx (s e)) r"
  defines "t \<equiv> s(e := set_rx r (s e), other e := set_wire ms (s (other e)))"
  shows "dx_inv t \<and> dx_pipe t = dx_pipe s"
proof -
  have p: "ep_inv (s e)" "ep_inv (s (other e))" using assms(1) by (simp_all add: dx_inv_def)
  have "dx_pipe t e = dx_pipe s e" "dx_pipe t (other e) = dx_pipe s (other e)"
    using ep_arrive [OF p(1) assms(3)] set_wire_inv [OF p(2), of ms] assms(2)
    by (simp_all add: t_def dx_pipe_def)
  then have "dx_pipe t f = dx_pipe s f" for f by (cases "f = e") (simp_all add: side_eq_other)
  then have "dx_pipe t = dx_pipe s" ..
  moreover have "dx_inv t"
    using ep_arrive [OF p(1) assms(3)] set_wire_inv [OF p(2), of ms] assms(1) by (simp add: t_def dx_inv_def)
  ultimately show ?thesis by simp
qed

lemma dx_step_sim:
  assumes "dx_step s ev t" "dx_inv s"
  shows "dx_inv t \<and> (case dx_visible ev of None \<Rightarrow> dx_pipe t = dx_pipe s
                      | Some m \<Rightarrow> pipe_step (dx_pipe s) m (dx_pipe t))"
proof -
  have p: "ep_inv (s e)" for e using assms(2) by (simp add: dx_inv_def)
  from assms(1) show ?thesis
  proof (cases rule: dx_step.cases)
    case (dx_write e st pick data n c)
    then show ?thesis using dx_sends [OF assms(2), of _ e] ep_write [OF p dx_write(4)] by simp
  next
    case (dx_write_err e st pick data n er c)
    then show ?thesis using dx_hidden [OF assms(2), of _ e] ep_write [OF p dx_write_err(4)] by simp
  next
    case (dx_deadline e c t)
    then show ?thesis using dx_hidden [OF assms(2), of _ e] ep_deadline [OF p dx_deadline(4)] by simp
  next
    case (dx_arrive e m ms r)
    then show ?thesis using dx_moves [OF assms(2) dx_arrive(3,4)] by simp
  next
    case (dx_resume e m i c)
    then show ?thesis
      using dx_hidden [OF assms(2), of _ e] ep_resume [OF p dx_resume(3), of c None 0] by simp
  next
    case (dx_resume_park e m i c j)
    then show ?thesis
      using dx_hidden [OF assms(2), of _ e] ep_resume [OF p dx_resume_park(3), of c "Some (m, j)" j] by simp
  next
    case (dx_read e now waited pick k bs er c)
    then show ?thesis using dx_takes [OF assms(2), of _ e bs] ep_read [OF p dx_read(3,4)] by simp
  qed
qed

interpretation dx_refines: simulation dx_step dx_inv pipe_step dx_pipe dx_visible
  by unfold_locales (auto dest: dx_step_sim)


subsection \<open>Progress and termination\<close>

fun dx_quiet :: "dx_event \<Rightarrow> bool" where
  "dx_quiet (DArrive e) = True"
| "dx_quiet (DResume e) = True"
| "dx_quiet (DRead e bs) = True"
| "dx_quiet _ = False"

text \<open>What happens without a further write or deadline: every such step that changes something.\<close>

definition dx_drain :: "duplex \<Rightarrow> duplex \<Rightarrow> bool" where
  "dx_drain s t \<longleftrightarrow> t \<noteq> s \<and> (\<exists>ev. dx_quiet ev \<and> dx_step s ev t)"

definition ep_work :: "endpoint \<Rightarrow> nat" where
  "ep_work p = rx_work (ep_rx p) + sum_list (map (\<lambda>m. 2 + 2 * length m) (ep_wire p))
     + (if cn_rdl (ep_conn p) = None then 0 else 1)"

definition dx_work :: "duplex \<Rightarrow> nat" where
  "dx_work s = ep_work (s Dialer) + ep_work (s Accepter)"

lemma dx_work_side: "dx_work s = ep_work (s e) + ep_work (s (other e))"
  by (cases e) (simp_all add: dx_work_def)

text \<open>A read of the channel that returns nothing without blocking leaves it as it was.\<close>

lemma empty_read_keeps:
  assumes "chan_inv c" "c_status c = Active" "\<not> chan_ready (c_close c)" "Channel_Read c k = CRead [] er c'"
  shows "c' = c"
proof -
  obtain r b where rb: "c_rd c = Some r" "c_buffer c = Some b" "reader_ok r" "bf_size b = 4096" "bf_err b = None"
    "\<not> ch_closed (rd_recv r)"
    using assms(1,2) by (auto elim: chan_inv_ActiveE)
  have "k = 0"
  proof (rule ccontr)
    assume k: "k \<noteq> 0"
    then have "stream c = []" using Channel_Read_spec [OF assms(1), of k] rb assms(3,4) by auto
    then have empty: "bf_unread b = []" "ch_buf (rd_recv r) = []"
      using rb by (auto simp: stream_def queued_def reader_ok_def)
    then have "ChannelReader_Read r n = RdBlocks" for n
      using rb by (simp add: ChannelReader_Read_def chan_recv_def)
    with k empty rb assms(3,4) show False by (simp add: Channel_Read_def bufio_Read_def split: if_splits)
  qed
  then show ?thesis
    using assms(3,4) rb by (auto simp: Channel_Read_def bufio_Read_def split: if_splits)
qed

lemma ep_read_work:
  assumes "ep_inv p" "c_status (ep_ch p) = Active"
    and "Conn_Read Channel_Read now waited pick (ep_conn p) k = CnRead bs er c"
  defines "p' \<equiv> p\<lparr>ep_conn := c, ep_out := ep_out p @ bs\<rparr>"
  shows "p' = p \<or> ep_work p' < ep_work p"
  using Conn_Read_cases [OF assms(3)]
proof (elim disjE conjE exE)
  assume "bs = []" "c = (ep_conn p)\<lparr>cn_rdl := None\<rparr>" "cn_rdl (ep_conn p) \<noteq> None"
  then show ?thesis by (simp add: p'_def ep_work_def ep_rx_def)
next
  fix s
  assume rd: "Channel_Read (ep_ch p) k = CRead bs er s" and c: "c = (ep_conn p)\<lparr>cn_rdl := None, cn_rwr := s\<rparr>"
  have inv: "rx_inv (ep_rx p)" "chan_up (ep_ch p)" using assms(1) by (auto simp: ep_inv_def)
  show ?thesis
  proof (cases "bs = []")
    case True
    then have "s = ep_ch p"
      using empty_read_keeps [of "ep_ch p" k er s] rd assms(2) inv by (auto simp: chan_up_def)
    with True c show ?thesis by (auto simp: p'_def ep_work_def ep_rx_def)
  next
    case False
    then have "rx_local (ep_rx p) (ep_rx p')"
      using lc_read [of "ep_rx p" k bs er s] rd c assms(2) by (simp add: ep_rx_def p'_def)
    from rx_local_work [OF this inv(1)] Read_flags [OF rd] show ?thesis by (simp add: ep_work_def p'_def c)
  qed
qed

lemma ep_resume_work:
  assumes "ep_inv p" "ep_parked p = Some (m, i)"
    and "Channel_feed (ep_ch p) m i = MsgDone c \<and> pk = None \<or>
         Channel_feed (ep_ch p) m i = MsgParked c j \<and> pk = Some (m, j) \<and> i \<noteq> j"
  defines "p' \<equiv> p\<lparr>ep_conn := (ep_conn p)\<lparr>cn_rwr := c\<rparr>, ep_parked := pk\<rparr>"
  shows "ep_work p' < ep_work p"
proof -
  have inv: "rx_inv (ep_rx p)" using assms(1) by (auto simp: ep_inv_def)
  have "rx_local (ep_rx p) (ep_rx p')"
    using assms(2,3) lc_resume [of "ep_rx p" m i c] lc_resume_park [of "ep_rx p" m i c j]
    by (auto simp: ep_rx_def p'_def)
  from rx_local_work [OF this inv] show ?thesis
    using assms(3) feed_flags(1,2) [of "ep_ch p" m i c] by (auto simp: ep_work_def p'_def)
qed

lemma ep_arrive_work:
  assumes "ep_inv p" "rx_deliver m (ep_rx p) r" "ep_wire q = m # ms"
  shows "ep_work (set_rx r p) + ep_work (set_wire ms q) < ep_work p + ep_work q"
proof -
  have "rx_work r < rx_work (ep_rx p) + (2 + 2 * length m)"
    using rx_deliver_work [OF assms(2)] assms(1) by (simp add: ep_inv_def)
  moreover have "rx_work (ep_rx (set_wire ms q)) = rx_work (ep_rx q)"
    by (simp add: rx_work_def) (simp add: set_wire_def)
  ultimately show ?thesis
    using assms(3) rx_deliver_flags [OF assms(2)]
    by (simp add: ep_work_def) (simp add: set_rx_def set_wire_def)
qed

lemma dx_drain_work:
  assumes "dx_drain s t" "dx_inv s"
  shows "dx_work t < dx_work s"
proof -
  have p: "ep_inv (s e)" for e using assms(2) by (simp add: dx_inv_def)
  obtain ev where ev: "dx_step s ev t" "dx_quiet ev" "t \<noteq> s" using assms(1) by (auto simp: dx_drain_def)
  from ev(1) show ?thesis
  proof (cases rule: dx_step.cases)
    case (dx_arrive e m ms r)
    then show ?thesis
      using ep_arrive_work [OF p dx_arrive(4,3)] by (simp add: dx_work_side [of _ e])
  next
    case (dx_resume e m i c)
    then show ?thesis
      using ep_resume_work [OF p dx_resume(3), of c None 0] by (simp add: dx_work_side [of _ e])
  next
    case (dx_resume_park e m i c j)
    then show ?thesis
      using ep_resume_work [OF p dx_resume_park(3), of c "Some (m, j)" j] by (simp add: dx_work_side [of _ e])
  next
    case (dx_read e now waited pick k bs er c)
    then show ?thesis
      using ep_read_work [OF p dx_read(3,4)] ev(3) by (auto simp: dx_work_side [of _ e] fun_upd_idem_iff)
  qed (use ev in auto)
qed

interpretation dx_drains: ranked dx_drain dx_inv dx_work
  by unfold_locales (use dx_step_sim dx_drain_work in \<open>auto simp: dx_drain_def\<close>)


text \<open>Bytes waiting at an end can be read, parked callbacks go on, messages in flight arrive.\<close>

lemma dx_read_enabled:
  assumes "dx_inv s" "stream (ep_ch (s e)) \<noteq> []"
  shows "\<exists>t. dx_drain s t"
proof -
  let ?p = "s e"
  have inv: "rx_inv (ep_rx ?p)" "chan_up (ep_ch ?p)" using assms(1) by (auto simp: dx_inv_def ep_inv_def)
  then have act: "c_status (ep_ch ?p) = Active" "chan_inv (ep_ch ?p)" using assms(2) by (auto simp: rx_inv_def)
  then have "c_buffer (ep_ch ?p) \<noteq> None" by (auto elim: chan_inv_ActiveE)
  then obtain bs er c where rd: "Channel_Read (ep_ch ?p) 1 = CRead bs er c" "bs \<noteq> []"
    using Channel_Read_spec [OF act(2), of 1] assms(2) inv(2)
    by (cases "Channel_Read (ep_ch ?p) 1") (auto simp: chan_up_def)
  let ?now = "case cn_rdl (ep_conn ?p) of None \<Rightarrow> 0 | Some t \<Rightarrow> t - 1"
  have "cn_rdl (ep_conn ?p) = None \<or> (\<exists>t. cn_rdl (ep_conn ?p) = Some t \<and> ?now < t)" by (auto split: option.split)
  from pending_deadline_never_fires [OF this, of Channel_Read 0 True 1] rd(1)
  obtain c' where "Conn_Read Channel_Read ?now 0 True (ep_conn ?p) 1 = CnRead bs er c'" by simp
  from dx_read [where s = s and e = e, OF act(1) this] have "dx_step s (DRead e bs) (s(e := ?p\<lparr>ep_conn := c', ep_out := ep_out ?p @ bs\<rparr>))" .
  moreover have "ep_out ((s(e := ?p\<lparr>ep_conn := c', ep_out := ep_out ?p @ bs\<rparr>)) e) \<noteq> ep_out (s e)"
    using rd(2) by simp
  then have "s(e := ?p\<lparr>ep_conn := c', ep_out := ep_out ?p @ bs\<rparr>) \<noteq> s" by metis
  ultimately show ?thesis unfolding dx_drain_def by (meson dx_quiet.simps)
qed

lemma dx_resume_enabled:
  assumes "dx_inv s" "stream (ep_ch (s e)) = []" "ep_parked (s e) = Some (m, i)"
  shows "\<exists>t. dx_drain s t"
proof -
  have inv: "rx_inv (ep_rx (s e))" using assms(1) by (auto simp: dx_inv_def ep_inv_def)
  obtain r where "rx_local (ep_rx (s e)) r" using resume_enabled [OF inv] assms(2,3) by auto
  then consider c where "Channel_feed (ep_ch (s e)) m i = MsgDone c"
    | c j where "Channel_feed (ep_ch (s e)) m i = MsgParked c j" "i \<noteq> j"
  proof (cases rule: rx_local.cases)
    case (lc_read n bs er c)
    then have "c_buffer (ep_ch (s e)) \<noteq> None" using inv by (auto simp: rx_inv_def elim: chan_inv_ActiveE)
    then show ?thesis
      using Channel_Read_spec [of "ep_ch (s e)" n] lc_read inv assms(2) by (simp add: rx_inv_def)
  qed (use assms(3) in auto)
  then show ?thesis
  proof cases
    case 1
    let ?t = "s(e := (s e)\<lparr>ep_conn := (ep_conn (s e))\<lparr>cn_rwr := c\<rparr>, ep_parked := None\<rparr>)"
    have "ep_parked (?t e) \<noteq> ep_parked (s e)" using assms(3) by simp
    then have "?t \<noteq> s" by metis
    with dx_resume [where s = s and e = e, OF assms(3) 1] show ?thesis unfolding dx_drain_def by (meson dx_quiet.simps)
  next
    case 2
    let ?t = "s(e := (s e)\<lparr>ep_conn := (ep_conn (s e))\<lparr>cn_rwr := c\<rparr>, ep_parked := Some (m, j)\<rparr>)"
    have "ep_parked (?t e) \<noteq> ep_parked (s e)" using assms(3) 2 by simp
    then have "?t \<noteq> s" by metis
    with dx_resume_park [where s = s and e = e, OF assms(3) 2] show ?thesis
      unfolding dx_drain_def by (meson dx_quiet.simps)
  qed
qed

lemma dx_arrive_enabled:
  assumes "dx_inv s" "ep_parked (s e) = None" "ep_wire (s (other e)) = m # ms"
  shows "\<exists>t. dx_drain s t"
proof -
  have "rx_inv (ep_rx (s e))" "chan_up (rx_ch (ep_rx (s e)))" using assms(1) by (auto simp: dx_inv_def ep_inv_def)
  from deliver_enabled [OF this, of m] assms(2) obtain r where r: "rx_deliver m (ep_rx (s e)) r" by auto
  let ?t = "s(e := set_rx r (s e), other e := set_wire ms (s (other e)))"
  have "ep_wire (?t (other e)) \<noteq> ep_wire (s (other e))" using assms(3) by simp
  then have "?t \<noteq> s" by metis
  with dx_arrive [where s = s, OF assms(3) r] show ?thesis unfolding dx_drain_def by (meson dx_quiet.simps)
qed

text \<open>The ends of a connection in which nothing is left to do.\<close>

lemma dx_idle:
  assumes "dx_inv s" "\<nexists>t. dx_drain s t"
  shows "stream (ep_ch (s e)) = []" "ep_parked (s e) = None" "ep_wire (s e) = []"
proof -
  show rest: "stream (ep_ch (s f)) = []" "ep_parked (s f) = None" for f
    using dx_read_enabled [OF assms(1), of f] dx_resume_enabled [OF assms(1), of f] assms(2)
    by (auto simp: not_Some_eq [symmetric])
  then show "ep_wire (s e) = []"
    using dx_arrive_enabled [OF assms(1), of "other e"] assms(2) by (metis list.exhaust other_other(1))
qed

lemma dx_stuck: "dx_inv s \<Longrightarrow> \<nexists>t. dx_drain s t \<Longrightarrow> dx_pipe s e = []"
  by (simp add: dx_pipe_def rx_rest_def dx_idle)

subsection \<open>Properties\<close>

lemma dx_start_inv:
  assumes "ep_ready c" "ep_ready d"
  shows "dx_inv (dx_start c d) \<and> dx_pipe (dx_start c d) = (\<lambda>_. [])"
proof -
  have "ep_inv (ep_start x) \<and> rx_rest (ep_rx (ep_start x)) = [] \<and> ep_wire (ep_start x) = []" if "ep_ready x" for x
    using that by (auto simp: ep_ready_def ep_start_def ep_inv_def rx_inv_def rx_rest_def NewConn_def chan_up_def)
  with assms show ?thesis
    by (auto simp: dx_inv_def dx_pipe_def dx_start_def fun_eq_iff split: side.split)
qed

text \<open>
  C1: a connection implements the pair of byte pipes.  However writes, reads with and without deadlines,
  arrivals and parked callbacks interleave at both ends, what the two users observe is a run of the
  specification: in each direction the bytes read so far, followed by those still on their way, are
  exactly the bytes written, in order.  Neither direction disturbs the other, and a deadline never loses
  a byte.
\<close>

theorem connection_refines_byte_pipes:
  assumes "ep_ready c" "ep_ready d" "lrun dx_step (dx_start c d) evs s"
  shows "lrun pipe_step (\<lambda>_. []) (List.map_filter dx_visible evs) (dx_pipe s)
    \<and> read_on e (List.map_filter dx_visible evs) @ dx_pipe s e = written_on e (List.map_filter dx_visible evs)"
proof -
  have "lrun pipe_step (\<lambda>_. []) (List.map_filter dx_visible evs) (dx_pipe s)"
    using dx_refines.refines [OF assms(3)] dx_start_inv [OF assms(1,2)] by simp
  then show ?thesis using pipe_run_stream [of _ _ "dx_pipe s" e] by fastforce
qed



text \<open>Two ends over a fresh data channel: the dialled end taken from the pool, the other one idle.\<close>

definition dialled :: "bytes list Channel" where
  "dialled = snd (Channel_TakeConn (Channel_onOpen (NewOfferChannel ''s'' ''c'' [] (NewLabel Web 1))))"

definition listening :: "bytes list Channel" where
  "listening = Channel_onOpen (NewAnswerChannel ''s'' ''c'' [] (NewLabel Web 1) True)"

lemma ep_ready_example: "ep_ready dialled" "ep_ready listening"
proof -
  have "chan_inv dialled"
    using chan_releaser.take_inv [of "Channel_onOpen (NewOfferChannel ''s'' ''c'' [] (NewLabel Web 1))"]
    by (simp add: dialled_def)
  then show "ep_ready dialled"
    by (simp add: ep_ready_def chan_up_def)
      (simp add: dialled_def Channel_TakeConn_def Channel_onOpen_def NewOfferChannel_def newChannel_def
        chan_close_def stream_def bufio_NewReader_def)
  show "ep_ready listening"
    by (simp add: ep_ready_def chan_up_def listening_def)
      (simp add: Channel_onOpen_def NewAnswerChannel_def newChannel_def chan_close_def stream_def)
qed

lemma dx_write_example:
  obtains s where "lrun dx_step (dx_start dialled listening) [DWrite Dialer bs] s"
    "dx_pipe s Dialer = bs"
proof -
  let ?s = "dx_start dialled listening"
  have up: "chan_up (cn_rwr (ep_conn (?s Dialer)))" "c_status (ep_ch (?s Dialer)) = Active"
    using ep_ready_example(1)
    by (simp_all add: dx_start_def ep_start_def NewConn_def ep_ready_def)
      (simp add: dialled_def Channel_TakeConn_def Channel_onOpen_def NewOfferChannel_def newChannel_def chan_close_def)
  obtain n c where "Conn_Write (Channel_Write [] wire_send (\<lambda>_. True)) (ep_conn (?s Dialer)) bs = CnWrote n None c"
    using Conn_Write_wire [OF up(1), of "[]" "\<lambda>_. True" bs]
    by (auto simp: dx_start_def ep_start_def NewConn_def)
  from dx_write [where s = ?s and e = Dialer, OF up(2) this]
  obtain s where s: "dx_step ?s (DWrite Dialer bs) s" by blast
  then have "pipe_step (\<lambda>_. []) (PWrite Dialer bs) (dx_pipe s)"
    using dx_step_sim [OF s] dx_start_inv [OF ep_ready_example] by simp
  then have "dx_pipe s Dialer = bs" by (simp add: pipe_step_def pipe_apply_def) (metis fun_upd_same)
  with that [OF lrun_one [of dx_step, OF s]] show thesis by blast
qed

theorem connection_refines_byte_pipes_witness:
  "\<exists>s. lrun dx_step (dx_start dialled listening) [DWrite Dialer [1, 2, 3]] s
     \<and> read_on Dialer [PWrite Dialer [1, 2, 3]] @ dx_pipe s Dialer = [1, 2, 3]"
proof -
  obtain s where s: "lrun dx_step (dx_start dialled listening) [DWrite Dialer [1, 2, 3]] s"
    by (rule dx_write_example)
  with connection_refines_byte_pipes [OF ep_ready_example s, of Dialer] show ?thesis
    by (auto simp: List.map_filter_simps written_on_def)
qed


end
