(* ===== verification/Reuse.thy ===== *)
theory Reuse
  imports Duplex
begin

section \<open>The end of a connection and the next one on its channel\<close>

text \<open>
  \<open>Conn.Close\<close> (\<open>net/conn.go\<close>) releases the channel: \<open>Release\<close> (\<open>net/conn/channel.go\<close>) closes the
  reader's queue and makes the channel idle, and the next connection takes it with a fresh reader.  The
  data channel goes on underneath and carries no mark that separates the connections.  This theory
  shows what that means: after a drained connection both ends are as good as new; a message that arrives
  after the release starts a connection nobody opened; a callback still waiting for room in the queue
  panics.
\<close>

subsection \<open>Releasing a channel\<close>

lemma release_up:
  assumes "chan_up c" "c_status c = Active \<or> c_status c = Idle"
  obtains c' where "Channel_Release c = Some c'" "chan_up c'" "c_status c' = Idle" "stream c' = stream c"
    "c_dc c' = c_dc c" "c_type c' = c_type c" "c_accept c' = c_accept c"
proof (cases "c_status c = Active")
  case True
  have inv: "chan_inv c" using assms(1) by (simp add: chan_up_def)
  then obtain r where r: "c_rd c = Some r" "\<not> ch_closed (rd_recv r)" using True by (auto elim: chan_inv_ActiveE)
  let ?r = "r\<lparr>rd_recv := (rd_recv r)\<lparr>ch_closed := True\<rparr>\<rparr>"
  let ?c = "c\<lparr>c_rd := Some ?r, c_status := Idle\<rparr>"
  have rel: "Channel_Release c = Some ?c"
    using True r by (simp add: Channel_Release_def ChannelReader_Release_def chan_close_def)
  moreover have "chan_up ?c" using Release_inv [OF inv] rel assms(1) by (simp add: chan_up_def)
  moreover have "stream ?c = stream c" using r by (simp add: stream_def queued_def)
  ultimately show thesis by (intro that [of ?c]) simp_all
next
  case False
  then show thesis using assms by (intro that) (simp_all add: Channel_Release_def)
qed

lemma close_conn_up:
  assumes "chan_up (cn_rwr c)" "c_status (cn_rwr c) = Active \<or> c_status (cn_rwr c) = Idle" "\<not> cn_isRelease c"
  obtains c' where "Conn_Close Channel_Release c = Some c'" "chan_up (cn_rwr c')" "c_status (cn_rwr c') = Idle"
    "stream (cn_rwr c') = stream (cn_rwr c)" "c_dc (cn_rwr c') = c_dc (cn_rwr c)"
proof -
  obtain ch where ch: "Channel_Release (cn_rwr c) = Some ch" "chan_up ch" "c_status ch = Idle"
    "stream ch = stream (cn_rwr c)" "c_dc ch = c_dc (cn_rwr c)"
    using release_up [OF assms(1,2)] by metis
  obtain c' where c': "Conn_Close Channel_Release c = Some c'"
    using chan_releaser.conn_close_ok [of c] assms(1) by (auto simp: chan_up_def)
  then have "cn_rwr c' = ch"
    using ch(1) assms(3) by (auto simp: Conn_Close_def Conn_Release_def split: option.splits if_splits)
  with ch c' show thesis by (intro that [of c']) simp_all
qed

text \<open>A first message on an idle channel: a fresh reader holds it as its only batch.\<close>

lemma fresh_reader_message:
  "small m \<Longrightarrow> OnData_from (NewChannelReader 4096) m 0 =
     OnDone ((NewChannelReader 4096)\<lparr>rd_recv := (make_chan 10)\<lparr>ch_buf := [m]\<rparr>\<rparr>)"
  by (subst OnData_from.simps, subst OnData_from.simps)
    (simp add: NewChannelReader_def chan_send_def make_chan_def small_def go_min_def gslice_def)

text \<open>A message that reaches a channel just taken is queued; the taker reads it, and then waits.\<close>

lemma taken_message:
  assumes "chan_up c" "Channel_TakeConn c = (True, c1)" "small m"
  obtains c2 where "Channel_feed c1 m 0 = MsgDone c2" "chan_up c2" "c_status c2 = Active" "rx_queue c2 = [m]"
    "rx_unread c2 = []" "c_label c2 = c_label c" "stream c2 = m"
proof -
  let ?r = "(NewChannelReader 4096)\<lparr>rd_recv := (make_chan 10)\<lparr>ch_buf := [m]\<rparr>\<rparr>"
  let ?c2 = "c1\<lparr>c_rd := Some ?r\<rparr>"
  have batch: "c_batch c = 4096" "chan_inv c" using assms(1) by (auto simp: chan_up_def chan_inv_def)
  then have c1: "c1 = c\<lparr>c_status := Active, c_rd := Some (NewChannelReader 4096), c_buffer := Some bufio_NewReader\<rparr>"
    using assms(2) by (auto simp: Channel_TakeConn_def split: if_splits)
  then have feed: "Channel_feed c1 m 0 = MsgDone ?c2" using fresh_reader_message [OF assms(3)] by (simp add: Channel_feed_def)
  have "chan_inv ?c2"
    using feed_spec [of c1, where data = m and i = 0] TakeConn_inv [OF batch(2) assms(2)] c1 unfolding feed by simp
  then have "chan_up ?c2" using assms(1) c1 by (simp add: chan_up_def)
  with feed c1 show thesis
    by (intro that [of ?c2])
      (simp_all add: rx_queue_def rx_unread_def bufio_NewReader_def stream_def queued_def)
qed

lemma TakeConn_kind: "Channel_TakeConn c = (t, c') \<Longrightarrow> c_type c' = c_type c \<and> c_accept c' = c_accept c"
  by (auto simp: Channel_TakeConn_def split: if_splits)

lemma first_message:
  assumes "chan_up c" "c_status c = Idle" "small m" "\<not> ch_closed acc" "length (ch_buf acc) < ch_cap acc"
  obtains c' where "Channel_OnMessage pick self acc c m =
      (MsgDone c', if c_type c = SDPTypeAnswer \<and> c_accept c then acc\<lparr>ch_buf := ch_buf acc @ [self]\<rparr> else acc)"
    "chan_up c'" "c_status c' = Active" "rx_queue c' = [m]" "rx_unread c' = []" "c_label c' = c_label c"
proof -
  obtain c1 where take: "Channel_TakeConn c = (True, c1)" using assms(2) by (simp add: Channel_TakeConn_def)
  obtain c2 where c2: "Channel_feed c1 m 0 = MsgDone c2" "chan_up c2" "c_status c2 = Active" "rx_queue c2 = [m]"
    "rx_unread c2 = []" "c_label c2 = c_label c"
    using taken_message [OF assms(1) take assms(3)] by metis
  have "c_type c1 = c_type c" "c_accept c1 = c_accept c" using TakeConn_kind [OF take] by simp_all
  then have "Channel_OnMessage pick self acc c m =
      (MsgDone c2, if c_type c = SDPTypeAnswer \<and> c_accept c then acc\<lparr>ch_buf := ch_buf acc @ [self]\<rparr> else acc)"
    using assms(1,4,5) take c2(1) by (simp add: Channel_OnMessage_def chan_up_def chan_send_open)
  with c2 show thesis by (intro that [of c2]) simp_all
qed

lemma drained_read_blocks:
  assumes "chan_up c" "c_status c = Active" "stream c = []" "0 < n"
  shows "Channel_Read c n = CReadBlocks"
proof -
  have inv: "chan_inv c" "\<not> chan_ready (c_close c)" using assms(1) by (simp_all add: chan_up_def)
  obtain r b where rb: "c_rd c = Some r" "c_buffer c = Some b" "reader_ok r"
    using inv(1) assms(2) by (auto elim: chan_inv_ActiveE)
  have "rx_unread c = []" "queued r = []" using assms(3) rb by (simp_all add: stream_def rx_unread_def)
  moreover from this(2) have "rx_queue c = []"
    using rb by (cases "ch_buf (rd_recv r)") (auto simp: rx_queue_def queued_def reader_ok_def)
  ultimately show ?thesis using read_first_batch [OF inv(1) assms(2) inv(2)] assms(4) by blast
qed

subsection \<open>Properties\<close>

text \<open>
  C4: a drained connection leaves its channel as good as new.  When nothing is left to arrive or to be
  read in either direction, closing both ends succeeds, the dialling side can take its channel again, and
  the two channels satisfy what a new connection starts from, so that all that holds of the first
  connection on a data channel holds of the next one.
\<close>

theorem drained_connection_can_be_reused:
  assumes "ep_ready c" "ep_ready d" "lrun dx_step (dx_start c d) evs s" "\<nexists>t. dx_drain s t"
  shows "\<exists>a b a'. Conn_Close Channel_Release (ep_conn (s Dialer)) = Some a
    \<and> Conn_Close Channel_Release (ep_conn (s Accepter)) = Some b
    \<and> Channel_TakeConn (cn_rwr a) = (True, a') \<and> ep_ready a' \<and> ep_ready (cn_rwr b)"
proof -
  have inv: "dx_inv s" using dx_refines.inv_run [OF assms(3)] dx_start_inv [OF assms(1,2)] by blast
  have closes: "\<exists>a. Conn_Close Channel_Release (ep_conn (s e)) = Some a \<and> ep_ready (cn_rwr a)
      \<and> c_status (cn_rwr a) = Idle" for e
  proof -
    have "chan_up (ep_ch (s e))" "\<not> cn_isRelease (ep_conn (s e))"
      "c_status (ep_ch (s e)) = Active \<or> c_status (ep_ch (s e)) = Idle"
      using inv by (auto simp: dx_inv_def ep_inv_def rx_inv_def)
    then obtain a where "Conn_Close Channel_Release (ep_conn (s e)) = Some a" "chan_up (cn_rwr a)"
      "c_status (cn_rwr a) = Idle" "stream (cn_rwr a) = []" "c_dc (cn_rwr a) = []"
      using close_conn_up [of "ep_conn (s e)"] dx_idle [OF inv assms(4), of e] by metis
    then show ?thesis by (auto simp: ep_ready_def)
  qed
  obtain a b where a: "Conn_Close Channel_Release (ep_conn (s Dialer)) = Some a" "ep_ready (cn_rwr a)"
      "c_status (cn_rwr a) = Idle"
    and b: "Conn_Close Channel_Release (ep_conn (s Accepter)) = Some b" "ep_ready (cn_rwr b)"
    using closes by meson
  obtain a' where a': "Channel_TakeConn (cn_rwr a) = (True, a')" using a(3) by (simp add: Channel_TakeConn_def)
  have "ep_ready a'"
    using a stream_TakeConn [OF a'] TakeConn_flags [OF a'] by (auto simp: ep_ready_def chan_up_def)
  with a b a' show ?thesis by blast
qed

theorem drained_connection_can_be_reused_witness:
  "\<exists>s a b a'. lrun dx_step (dx_start dialled listening) [] s
    \<and> Conn_Close Channel_Release (ep_conn (s Dialer)) = Some a
    \<and> Conn_Close Channel_Release (ep_conn (s Accepter)) = Some b
    \<and> Channel_TakeConn (cn_rwr a) = (True, a') \<and> ep_ready a' \<and> ep_ready (cn_rwr b)"
proof -
  let ?s = "dx_start dialled listening"
  have work: "dx_work ?s = 0"
    using ep_ready_example
    by (auto simp: dx_work_def ep_work_def dx_start_def ep_start_def NewConn_def rx_work_def ep_rx_def ep_ready_def)
  have "\<nexists>t. dx_drain ?s t" using dx_drain_work [of ?s] dx_start_inv [OF ep_ready_example] work by auto
  from drained_connection_can_be_reused [OF ep_ready_example lrun_start this] show ?thesis by auto
qed

text \<open>
  C24: a message that arrives after the release of an undrained connection opens a connection that nobody
  dialled.  The idle channel is taken by the callback; on the answering side it is announced to the
  listener as a new connection whose first read returns bytes of the old one, on the offering side it stays
  taken although no connection owns it, so the pool cannot hand it out again.
\<close>

theorem late_message_opens_a_phantom_connection:
  assumes "chan_up c" "c_status c = Active" "small m" "\<not> ch_closed acc" "length (ch_buf acc) < ch_cap acc"
    and "length m \<le> n"
  shows "\<exists>c1 c2 c3. Channel_Release c = Some c1
    \<and> Channel_OnMessage pick self acc c1 m =
        (MsgDone c2, if c_type c = SDPTypeAnswer \<and> c_accept c then acc\<lparr>ch_buf := ch_buf acc @ [self]\<rparr> else acc)
    \<and> Channel_TakeConn c2 = (False, c2) \<and> Channel_Read c2 n = CRead m None c3"
proof -
  obtain c1 where c1: "Channel_Release c = Some c1" "chan_up c1" "c_status c1 = Idle"
    "c_type c1 = c_type c" "c_accept c1 = c_accept c"
    using release_up [OF assms(1)] assms(2) by metis
  obtain c2 where c2: "Channel_OnMessage pick self acc c1 m =
      (MsgDone c2, if c_type c1 = SDPTypeAnswer \<and> c_accept c1 then acc\<lparr>ch_buf := ch_buf acc @ [self]\<rparr> else acc)"
    "chan_up c2" "c_status c2 = Active" "rx_queue c2 = [m]" "rx_unread c2 = []"
    by (rule first_message [OF c1(2,3) assms(3-5)])
  have n: "0 < n" using assms(3,6) by (cases m) (auto simp: small_def)
  have "\<exists>c3. Channel_Read c2 n = CRead m None c3"
    using read_first_batch [of c2 m n] c2 assms(6) n by (auto simp: chan_up_def)
  with c1 c2 show ?thesis by (auto simp: Channel_TakeConn_def)
qed

lemma up_example:
  defines "c \<equiv> snd (Channel_TakeConn (Channel_onOpen (NewAnswerChannel ''s'' ''c'' () (NewLabel Web 1) True)))"
  shows "chan_up c \<and> c_status c = Active \<and> c_type c = SDPTypeAnswer \<and> c_accept c"
proof -
  have "chan_inv c"
    using chan_releaser.take_inv [of "Channel_onOpen (NewAnswerChannel ''s'' ''c'' () (NewLabel Web 1) True)"]
    by (simp add: c_def)
  then show ?thesis
    by (simp add: chan_up_def)
      (simp add: c_def Channel_TakeConn_def Channel_onOpen_def NewAnswerChannel_def newChannel_def chan_close_def)
qed

theorem late_message_opens_a_phantom_connection_witness:
  "\<exists>c c1 c2 c3. Channel_Release (c :: unit Channel) = Some c1
    \<and> Channel_OnMessage True (5 :: nat) (make_chan 100) c1 [7] = (MsgDone c2, (make_chan 100)\<lparr>ch_buf := [5]\<rparr>)
    \<and> Channel_Read c2 16 = CRead [7] None c3"
proof -
  obtain c :: "unit Channel" where c: "chan_up c" "c_status c = Active" "c_type c = SDPTypeAnswer" "c_accept c"
    using up_example by blast
  have "small [7 :: byte]" by (simp add: small_def)
  from late_message_opens_a_phantom_connection [OF c(1,2) this, of "make_chan 100" 16 True "5 :: nat"] c
  show ?thesis by (auto simp: make_chan_def)
qed

text \<open>
  C26: releasing a connection whose receive queue is full brings the process down.  A callback that waits
  for room in the queue is a goroutine blocked in a send; \<open>Release\<close> closes the queue under it, and the
  send panics in the goroutine of the data channel.
\<close>

theorem release_under_a_waiting_callback_panics:
  assumes "chan_inv c" "c_status c = Active" "i < length m" "Channel_feed c m i = MsgParked c i"
  shows "\<exists>c1. Channel_Release c = Some c1 \<and> Channel_feed c1 m i = MsgPanic"
proof -
  obtain r where r: "c_rd c = Some r" "\<not> ch_closed (rd_recv r)" using assms(1,2) by (auto elim: chan_inv_ActiveE)
  let ?r = "r\<lparr>rd_recv := (rd_recv r)\<lparr>ch_closed := True\<rparr>\<rparr>"
  have "Channel_Release c = Some (c\<lparr>c_rd := Some ?r, c_status := Idle\<rparr>)"
    using assms(2) r by (simp add: Channel_Release_def ChannelReader_Release_def chan_close_def)
  moreover have "OnData_from ?r m i = OnPanic"
    using assms(3) by (subst OnData_from.simps) (simp add: chan_send_def)
  ultimately show ?thesis by (auto simp: Channel_feed_def)
qed

theorem release_under_a_waiting_callback_panics_witness:
  "\<exists>c c1. chan_inv (c :: unit Channel) \<and> Channel_feed c [7] 0 = MsgParked c 0
    \<and> Channel_Release c = Some c1 \<and> Channel_feed c1 [7] 0 = MsgPanic"
proof -
  let ?r = "(NewChannelReader 4096)\<lparr>rd_recv := (make_chan 10)\<lparr>ch_buf := replicate 10 [0]\<rparr>\<rparr>"
  let ?c = "(newChannel () SDPTypeOffer (NewLabel Web 1))
      \<lparr>c_status := Active, c_rd := Some ?r, c_buffer := Some bufio_NewReader\<rparr>"
  have inv: "chan_inv ?c"
    by (simp add: chan_inv_def newChannel_def reader_ok_def NewChannelReader_def bufio_NewReader_def make_chan_def)
  have "OnData_from ?r [7] 0 = OnParked ?r 0"
    by (subst OnData_from.simps) (simp add: chan_send_def make_chan_def NewChannelReader_def)
  then have "Channel_feed ?c [7] 0 = MsgParked ?c 0" by (simp add: Channel_feed_def)
  from release_under_a_waiting_callback_panics [OF inv _ _ this] inv this show ?thesis by auto
qed


lemma Conn_Close_rdl: "Conn_Close rel c = Some c' \<Longrightarrow> cn_rdl c' = cn_rdl c"
  by (auto simp: Conn_Close_def Conn_Release_def split: option.splits if_splits)

text \<open>
  C25: a closed connection goes on reading.  \<open>Conn.Write\<close> refuses to work after \<open>Close\<close>, \<open>Conn.Read\<close> does not look:
  it reads whatever the shared channel holds.  So after \<open>Close\<close>, once the pool has given the channel to the next
  connection, a read on the old one returns the first message of the new one, and the owner waits for it in
  vain.
\<close>

theorem closed_connection_reads_the_next_one:
  assumes "chan_up (cn_rwr c)" "c_status (cn_rwr c) = Active" "\<not> cn_isRelease c" "cn_rdl c = None"
    and "small m" "length m \<le> n"
  shows "\<exists>old ch1 ch2 ch3 old'. Conn_Close Channel_Release c = Some old \<and> Conn_IsClose old
    \<and> Channel_TakeConn (cn_rwr old) = (True, ch1)
    \<and> Channel_OnMessage pick self acc ch1 m = (MsgDone ch2, acc)
    \<and> Conn_Read Channel_Read now waited sel (old\<lparr>cn_rwr := ch2\<rparr>) n = CnRead m None old' \<and> cn_rwr old' = ch3
    \<and> Conn_Read Channel_Read now waited sel (NewConn ch3) n = CnBlocks (NewConn ch3)"
proof -
  obtain old where old: "Conn_Close Channel_Release c = Some old" "chan_up (cn_rwr old)" "c_status (cn_rwr old) = Idle"
    by (rule close_conn_up [OF assms(1) disjI1 [OF assms(2)] assms(3)])
  have "chan_inv (cn_rwr c)" using assms(1) by (simp add: chan_up_def)
  from chan_releaser.conn_close_ok [OF this] old(1) have closed: "Conn_IsClose old" by auto
  have rdl: "cn_rdl old = None"
    using Conn_Close_rdl [OF old(1)] assms(4) by simp
  obtain ch1 where ch1: "Channel_TakeConn (cn_rwr old) = (True, ch1)" using old(3) by (simp add: Channel_TakeConn_def)
  obtain ch2 where ch2: "Channel_feed ch1 m 0 = MsgDone ch2" "chan_up ch2" "c_status ch2 = Active" "rx_queue ch2 = [m]"
    "rx_unread ch2 = []" "stream ch2 = m"
    using taken_message [OF old(2) ch1 assms(5)] by metis
  have "c_status ch1 = Active" "chan_ready (c_open ch1)" "\<not> chan_ready (c_close ch1)"
    using ch1 old(2) TakeConn_flags [OF ch1] by (auto simp: Channel_TakeConn_def chan_up_def split: if_splits)
  then have msg: "Channel_OnMessage pick self acc ch1 m = (MsgDone ch2, acc)"
    using ch2(1) by (simp add: Channel_OnMessage_def Channel_TakeConn_def)
  have n: "0 < n" using assms(5,6) by (cases m) (auto simp: small_def)
  then obtain ch3 where ch3: "Channel_Read ch2 n = CRead m None ch3"
    using read_first_batch [of ch2 m n] ch2 assms(6) by (auto simp: chan_up_def)
  have "chan_inv ch2" "c_buffer ch2 \<noteq> None" using ch2(2,3) by (auto simp: chan_up_def elim: chan_inv_ActiveE)
  from Channel_Read_spec [OF this, of n] ch3 ch2(3,6)
  have "chan_inv ch3" "c_status ch3 = Active" "stream ch3 = []" by simp_all
  moreover have "chan_up ch3" using Read_flags [OF ch3] ch2(2) \<open>chan_inv ch3\<close> by (simp add: chan_up_def)
  ultimately have "Channel_Read ch3 n = CReadBlocks" using drained_read_blocks [of ch3 n] n by blast
  then have next_read: "Conn_Read Channel_Read now waited sel (NewConn ch3) n = CnBlocks (NewConn ch3)"
    using pending_deadline_never_fires [of "NewConn ch3" now Channel_Read waited sel n] by (simp add: NewConn_def)
  have "Conn_Read Channel_Read now waited sel (old\<lparr>cn_rwr := ch2\<rparr>) n = CnRead m None (old\<lparr>cn_rwr := ch3\<rparr>)"
    using pending_deadline_never_fires [of "old\<lparr>cn_rwr := ch2\<rparr>" now Channel_Read waited sel n] ch3 rdl by simp
  then show ?thesis
    using old(1) closed ch1 msg next_read by (intro exI conjI) (assumption+, simp_all)
qed

theorem closed_connection_reads_the_next_one_witness:
  "\<exists>c old ch1 ch2 old'. Conn_Close Channel_Release (c :: unit Channel Conn) = Some old \<and> Conn_IsClose old
    \<and> Channel_OnMessage True (5 :: nat) (make_chan 100) ch1 [7] = (MsgDone ch2, make_chan 100)
    \<and> Conn_Read Channel_Read 0 0 True (old\<lparr>cn_rwr := ch2\<rparr>) 16 = CnRead [7] None old'"
proof -
  obtain c :: "unit Channel" where c: "chan_up c" "c_status c = Active" using up_example by blast
  have "small [7 :: byte]" by (simp add: small_def)
  from closed_connection_reads_the_next_one [of "NewConn c" "[7]" 16 True "5 :: nat" "make_chan 100" 0 0 True, OF _ _ _ _ this] c
  show ?thesis unfolding NewConn_def by (simp del: ex_simps) blast
qed

end
