(* ===== verification/Channel_Pool.thy ===== *)
theory Channel_Pool
  imports Conn
begin

section \<open>The pool of channels of a peer (\<open>net/conn/channel-pool.go\<close>)\<close>

text \<open>
  The pool keeps two maps from label texts to channels, \<open>idles\<close> and \<open>actives\<close>.  Channels are shared
  by pointer between the maps, the listener and the connections, so they live in a heap: a list of
  channels, a pointer being an index into it.  \<open>pc.CreateDataChannel\<close> is library code and an argument;
  the order in which \<open>range\<close> visits \<open>idles\<close> is the argument \<open>ord\<close>.
\<close>

type_synonym 'd heap = "'d Channel list"

record ChannelPool =
  cp_cluster :: string
  cp_type :: SDPType
  cp_id :: string
  cp_remoteId :: string
  cp_remoteClientId :: string
  cp_idles :: "(string, nat) gomap"
  cp_actives :: "(string, nat) gomap"
  cp_accept :: bool
  cp_release :: "nat gochan"
  cp_idx :: u64
  cp_close :: "unit gochan"

definition NewChannelPool :: "string \<Rightarrow> string \<Rightarrow> string \<Rightarrow> SDPType \<Rightarrow> ChannelPool" where
  "NewChannelPool uuid rid rcid pt =
     \<lparr>cp_cluster = '''', cp_type = pt, cp_id = uuid, cp_remoteId = rid, cp_remoteClientId = rcid,
      cp_idles = [], cp_actives = [], cp_accept = False, cp_release = make_chan 1, cp_idx = 0,
      cp_close = make_chan 0\<rparr>"

text \<open>\<open>ch.TakeConn()\<close> through a pointer.\<close>

definition pool_take :: "'d heap \<Rightarrow> nat \<Rightarrow> bool \<times> 'd heap" where
  "pool_take h r = (case Channel_TakeConn (h ! r) of (t, c) \<Rightarrow> (t, h[r := c]))"

text \<open>One receive of \<open>loop\<close>: a channel that arrives on \<open>release\<close> moves from \<open>actives\<close> to \<open>idles\<close>.\<close>

definition ChannelPool_loop_release :: "ChannelPool \<Rightarrow> 'd heap \<Rightarrow> nat \<Rightarrow> ChannelPool" where
  "ChannelPool_loop_release p h r =
     (let key = Label_String (c_label (h ! r))
      in p\<lparr>cp_actives := gm_del key (cp_actives p), cp_idles := gm_put key r (cp_idles p)\<rparr>)"

text \<open>\<open>loop\<close> over what its \<open>select\<close> finds; its error once the context is cancelled.\<close>

datatype pool_event = PlDone go_error | PlRelease nat

fun ChannelPool_loop :: "ChannelPool \<Rightarrow> 'd heap \<Rightarrow> pool_event list \<Rightarrow> ChannelPool \<times> go_error option" where
  "ChannelPool_loop p h [] = (p, None)"
| "ChannelPool_loop p h (PlDone e # evs) = (p, Some e)"
| "ChannelPool_loop p h (PlRelease r # evs) = ChannelPool_loop (ChannelPool_loop_release p h r) h evs"

text \<open>
  The loop over the idle channels: \<open>key\<close> holds the last key visited, also when no channel was taken.
\<close>

fun range_take :: "(string, nat) gomap \<Rightarrow> string list \<Rightarrow> 'd heap \<Rightarrow> string \<Rightarrow> string \<times> nat option \<times> 'd heap" where
  "range_take idles [] h key = (key, None, h)"
| "range_take idles (k # ks) h key =
     (case gm_get idles k of
        None \<Rightarrow> range_take idles ks h key
      | Some r \<Rightarrow>
          (case pool_take h r of
             (True, h') \<Rightarrow> (k, Some r, h')
           | (False, h') \<Rightarrow> range_take idles ks h' k))"

text \<open>The loop that creates a data channel, at most \<open>n\<close> times; \<open>st\<close> is the stack recorded in errors.\<close>

fun create_loop ::
  "string \<Rightarrow> (string \<Rightarrow> go_error + 'd) \<Rightarrow> ChannelType \<Rightarrow> nat \<Rightarrow> ChannelPool \<Rightarrow> 'd heap
   \<Rightarrow> (go_error + nat) \<times> ChannelPool \<times> 'd heap" where
  "create_loop st createDC ct 0 p h = (Inl (wrap_err st (ErrorString ''cannot take conn'')), p, h)"
| "create_loop st createDC ct (Suc n) p h =
     (let idx = cp_idx p + 1;
          label = NewLabel ct idx;
          p1 = p\<lparr>cp_idx := idx\<rparr>
      in case createDC (Label_String label) of
           Inl e \<Rightarrow> (Inl e, p1, h)
         | Inr dc \<Rightarrow>
             (let r = length h;
                  h1 = h @ [NewOfferChannel (cp_cluster p) (cp_id p) dc label]
              in case pool_take h1 r of
                   (True, h2) \<Rightarrow> (Inr r, p1, h2)
                 | (False, h2) \<Rightarrow> create_loop st createDC ct n p1 h2))"

text \<open>The deferred function of \<open>Get\<close>, which runs when the result is no error.\<close>

definition get_done :: "string \<Rightarrow> nat \<Rightarrow> 'd heap \<Rightarrow> ChannelPool \<Rightarrow> ChannelPool" where
  "get_done key r h p =
     p\<lparr>cp_idles := gm_del key (cp_idles p),
       cp_actives := gm_put (Label_String (c_label (h ! r))) r (cp_actives p)\<rparr>"

definition get_create ::
  "string \<Rightarrow> (string \<Rightarrow> go_error + 'd) \<Rightarrow> ChannelType \<Rightarrow> string \<Rightarrow> ChannelPool \<Rightarrow> 'd heap
   \<Rightarrow> (go_error + nat) \<times> ChannelPool \<times> 'd heap" where
  "get_create st createDC ct key p h =
     (case create_loop st createDC ct 5 p h of
        (Inl e, p1, h1) \<Rightarrow> (Inl e, p1, h1)
      | (Inr r, p1, h1) \<Rightarrow> (Inr r, get_done key r h1 p1, h1))"

definition ChannelPool_Get ::
  "string \<Rightarrow> (string \<Rightarrow> go_error + 'd) \<Rightarrow> string list \<Rightarrow> ChannelPool \<Rightarrow> 'd heap \<Rightarrow> ChannelType
   \<Rightarrow> string list \<Rightarrow> (go_error + nat) \<times> ChannelPool \<times> 'd heap" where
  "ChannelPool_Get st createDC ord p h ct labels =
     (case labels of
        [key] \<Rightarrow>
          (case gm_get (cp_idles p) key of
             None \<Rightarrow> (Inl (wrap_err st (ErrorString ''not found'')), p, h)
           | Some r \<Rightarrow>
               (case pool_take h r of
                  (True, h1) \<Rightarrow> (Inr r, get_done key r h1 p, h1)
                | (False, h1) \<Rightarrow> get_create st createDC ct key p h1))
      | _ \<Rightarrow>
          (case range_take (cp_idles p) ord h '''' of
             (key, Some r, h1) \<Rightarrow> (Inr r, get_done key r h1 p, h1)
           | (key, None, h1) \<Rightarrow> get_create st createDC ct key p h1))"

definition OnChannelOpen ::
  "string \<Rightarrow> ChannelPool \<Rightarrow> 'd heap \<Rightarrow> string \<Rightarrow> 'd \<Rightarrow> go_error option \<times> ChannelPool \<times> 'd heap" where
  "OnChannelOpen st p h dcLabel dc =
     (case parseLabel st dcLabel of
        Inl e \<Rightarrow> (Some e, p, h)
      | Inr label \<Rightarrow>
          if gm_get (cp_actives p) dcLabel \<noteq> None then (None, p, h)
          else if gm_get (cp_idles p) dcLabel = None then
            (None, p\<lparr>cp_idles := gm_put dcLabel (length h) (cp_idles p)\<rparr>,
             h @ [NewAnswerChannel (cp_cluster p) (cp_id p) dc label (cp_accept p)])
          else (None, p, h))"

definition OnRelease :: "ChannelPool \<Rightarrow> 'd heap \<Rightarrow> string \<Rightarrow> 'd heap option" where
  "OnRelease p h label =
     (case gm_get (cp_actives p) label of
        None \<Rightarrow> Some h
      | Some r \<Rightarrow> (case Channel_Release (h ! r) of None \<Rightarrow> None | Some c \<Rightarrow> Some (h[r := c])))"

definition ChannelPool_Close :: "ChannelPool \<Rightarrow> ChannelPool option" where
  "ChannelPool_Close p =
     (if chan_ready (cp_close p) then Some p
      else case chan_close (cp_close p) of None \<Rightarrow> None | Some c \<Rightarrow> Some (p\<lparr>cp_close := c\<rparr>))"

subsection \<open>The pool in use\<close>

text \<open>
  The life of an offering pool: channels are obtained with \<open>Get\<close>, released by the remote command
  (\<open>OnRelease\<close>) or by their connection (\<open>Channel.Release\<close>), and change through their callbacks and
  reads.  Nothing in the sources sends on the pool's \<open>release\<close> channel.
\<close>

record 'd pool_sys =
  ps_pool :: ChannelPool
  ps_heap :: "'d heap"

inductive pool_step ::
  "string \<Rightarrow> (string \<Rightarrow> go_error + 'd) \<Rightarrow> 'd pool_sys \<Rightarrow> 'd pool_sys \<Rightarrow> bool" for st createDC where
  ps_get: "ChannelPool_Get st createDC ord (ps_pool s) (ps_heap s) ct [] = (res, p, h) \<Longrightarrow>
     pool_step st createDC s \<lparr>ps_pool = p, ps_heap = h\<rparr>"
| ps_command: "OnRelease (ps_pool s) (ps_heap s) label = Some h \<Longrightarrow>
     pool_step st createDC s (s\<lparr>ps_heap := h\<rparr>)"
| ps_release: "r < length (ps_heap s) \<Longrightarrow> Channel_Release (ps_heap s ! r) = Some c \<Longrightarrow>
     pool_step st createDC s (s\<lparr>ps_heap := (ps_heap s)[r := c]\<rparr>)"
| ps_open: "r < length (ps_heap s) \<Longrightarrow>
     pool_step st createDC s (s\<lparr>ps_heap := (ps_heap s)[r := Channel_onOpen (ps_heap s ! r)]\<rparr>)"

inductive pool_reach ::
  "string \<Rightarrow> (string \<Rightarrow> go_error + 'd) \<Rightarrow> 'd pool_sys \<Rightarrow> 'd pool_sys \<Rightarrow> bool" for st createDC s0 where
  pr_init: "pool_reach st createDC s0 s0"
| pr_step: "pool_reach st createDC s0 s \<Longrightarrow> pool_step st createDC s t \<Longrightarrow> pool_reach st createDC s0 t"

subsection \<open>The invariant of the pool\<close>

definition pool_inv :: "ChannelPool \<Rightarrow> 'd heap \<Rightarrow> bool" where
  "pool_inv p h \<longleftrightarrow> (\<forall>c \<in> set h. chan_inv c)
     \<and> (\<forall>k r. gm_get (cp_idles p) k = Some r \<longrightarrow> r < length h)
     \<and> (\<forall>k r. gm_get (cp_actives p) k = Some r \<longrightarrow> r < length h \<and> k = Label_String (c_label (h ! r)))"

lemma TakeConn_label: "c_label (snd (Channel_TakeConn c)) = c_label c"
  by (simp add: Channel_TakeConn_def)

lemma Release_label: "Channel_Release c = Some c' \<Longrightarrow> c_label c' = c_label c"
  by (auto simp: Channel_Release_def split: if_splits option.splits)

lemma pool_take_cases:
  obtains (Taken) c where "pool_take h r = (True, h[r := c])" "Channel_TakeConn (h ! r) = (True, c)"
      "c_status (h ! r) = Idle" "c_status c = Active" "c_label c = c_label (h ! r)"
  | (Busy) "pool_take h r = (False, h)" "c_status (h ! r) \<noteq> Idle"
proof (cases "c_status (h ! r) = Idle")
  case True
  obtain c where c: "Channel_TakeConn (h ! r) = (True, c)" using True by (simp add: Channel_TakeConn_def)
  with True show thesis
    using Taken [of c] TakeConn_label [of "h ! r"] by (simp add: pool_take_def TakeConn_True_iff)
next
  case False
  then show thesis using Busy by (simp add: pool_take_def Channel_TakeConn_def)
qed

text \<open>Replacing one channel by a successor with the same label keeps the invariant.\<close>

lemma pool_inv_upd:
  assumes "pool_inv p h" "chan_inv c" "c_label c = c_label (h ! r)"
  shows "pool_inv p (h[r := c])"
proof -
  have "c_label (h[r := c] ! i) = c_label (h ! i)" if "i < length h" for i
    using that assms(3) by (cases "i = r") simp_all
  moreover have "\<forall>x \<in> set (h[r := c]). chan_inv x"
    using set_update_subset_insert [of h r c] assms(1,2) by (auto simp: pool_inv_def)
  ultimately show ?thesis
    using assms(1) by (simp add: pool_inv_def)
qed

lemma pool_inv_append:
  assumes "pool_inv p h" "chan_inv c"
  shows "pool_inv p (h @ [c])"
  using assms by (auto simp: pool_inv_def nth_append intro: less_SucI)

lemma pool_inv_done:
  assumes "pool_inv p h" "r < length h"
  shows "pool_inv (get_done key r h p) h"
  using assms by (auto simp: pool_inv_def get_done_def)

lemma pool_inv_idx [simp]: "pool_inv (p\<lparr>cp_idx := i\<rparr>) h = pool_inv p h"
  by (simp add: pool_inv_def)

lemma pool_take_inv:
  assumes "pool_inv p h" "r < length h" "pool_take h r = (t, h')"
  shows "pool_inv p h'" "length h' = length h" "t \<Longrightarrow> c_status (h' ! r) = Active" "\<not> t \<Longrightarrow> h' = h"
proof -
  have "chan_inv (h ! r)" using assms(1,2) by (simp add: pool_inv_def)
  then show "pool_inv p h'" "length h' = length h" "t \<Longrightarrow> c_status (h' ! r) = Active" "\<not> t \<Longrightarrow> h' = h"
    using assms pool_inv_upd [OF assms(1), of _ r] TakeConn_inv [of "h ! r" True]
    by (cases h r rule: pool_take_cases; auto)+
qed

text \<open>A fresh channel is idle, so the first round of the creating loop ends it.\<close>

lemma create_loop_Suc:
  "create_loop st createDC ct (Suc n) p h =
     (let idx = cp_idx p + 1; label = NewLabel ct idx; p1 = p\<lparr>cp_idx := idx\<rparr>
      in case createDC (Label_String label) of
           Inl e \<Rightarrow> (Inl e, p1, h)
         | Inr dc \<Rightarrow> (Inr (length h), p1,
             h @ [snd (Channel_TakeConn (NewOfferChannel (cp_cluster p) (cp_id p) dc label))]))"
  by (simp add: Let_def pool_take_def Channel_TakeConn_def NewOfferChannel_def newChannel_def
      split: sum.split)

declare create_loop.simps [simp del]

lemma get_create_eq:
  "get_create st createDC ct key p h =
     (let idx = cp_idx p + 1; label = NewLabel ct idx; p1 = p\<lparr>cp_idx := idx\<rparr>
      in case createDC (Label_String label) of
           Inl e \<Rightarrow> (Inl e, p1, h)
         | Inr dc \<Rightarrow>
             (Inr (length h), p1\<lparr>cp_idles := gm_del key (cp_idles p),
                cp_actives := gm_put (Label_String label) (length h) (cp_actives p)\<rparr>,
              h @ [snd (Channel_TakeConn (NewOfferChannel (cp_cluster p) (cp_id p) dc label))]))"
proof -
  have "c_label (snd (Channel_TakeConn (NewOfferChannel a b dc l))) = l" for a b l and dc :: 'a
    by (simp add: TakeConn_label NewOfferChannel_def newChannel_def)
  then show ?thesis
    by (simp add: get_create_def create_loop_Suc [of st createDC ct 4 p h, simplified] Let_def
        get_done_def nth_append split: sum.split)
qed

lemma range_take_spec:
  assumes "range_take idles ord h key0 = (key, res, h')"
  shows "case res of
      Some r \<Rightarrow> key \<in> set ord \<and> gm_get idles key = Some r \<and> pool_take h r = (True, h')
    | None \<Rightarrow> h' = h \<and> (\<forall>k \<in> set ord. \<forall>r. gm_get idles k = Some r \<longrightarrow> c_status (h ! r) \<noteq> Idle)
        \<and> (set ord \<subseteq> set (gm_keys idles) \<longrightarrow> key = (if ord = [] then key0 else last ord))"
  using assms
proof (induction ord arbitrary: key0)
  case (Cons k ks)
  show ?case
  proof (cases "gm_get idles k")
    case None
    with Cons.prems have "range_take idles ks h key0 = (key, res, h')" by simp
    from Cons.IH [OF this] None show ?thesis by (auto simp: gm_keys_iff split: option.splits)
  next
    case (Some r)
    show ?thesis
    proof (cases h r rule: pool_take_cases)
      case (Taken c)
      with Some Cons.prems have "key = k" "res = Some r" "h' = h[r := c]" by simp_all
      with Some Taken show ?thesis by simp
    next
      case Busy
      with Some Cons.prems have "range_take idles ks h k = (key, res, h')" by simp
      from Cons.IH [OF this] Busy Some show ?thesis by (auto split: option.splits)
    qed
  qed
qed simp

lemma new_taken:
  "chan_inv (snd (Channel_TakeConn (NewOfferChannel a b dc l)))"
  "c_status (snd (Channel_TakeConn (NewOfferChannel a b dc l))) = Active"
  "c_label (snd (Channel_TakeConn (NewOfferChannel a b dc l))) = l"
proof -
  show "chan_inv (snd (Channel_TakeConn (NewOfferChannel a b dc l)))"
    by (rule chan_releaser.take_inv) simp
qed (simp_all add: Channel_TakeConn_def NewOfferChannel_def newChannel_def)

text \<open>What every successful branch of \<open>Get\<close> guarantees about the channel it returns.\<close>

definition got :: "ChannelPool \<Rightarrow> 'd heap \<Rightarrow> nat \<Rightarrow> ChannelPool \<Rightarrow> 'd heap \<Rightarrow> bool" where
  "got p h r p' h' \<longleftrightarrow> pool_inv p' h' \<and> r < length h' \<and> c_status (h' ! r) = Active
     \<and> (if r < length h then c_status (h ! r) = Idle \<and> (\<exists>k. gm_get (cp_idles p) k = Some r) else r = length h)
     \<and> gm_get (cp_actives p') (Label_String (c_label (h' ! r))) = Some r
     \<and> (\<forall>i < length h. i \<noteq> r \<longrightarrow> h' ! i = h ! i)"

lemma got_idle:
  assumes "pool_inv p h" "gm_get (cp_idles p) key = Some r" "pool_take h r = (True, h')"
  shows "got p h r (get_done key r h' p) h'"
proof -
  have r: "r < length h" using assms(1,2) by (auto simp: pool_inv_def)
  note inv = pool_take_inv [OF assms(1) r assms(3)]
  obtain c where c: "h' = h[r := c]" "c_status (h ! r) = Idle" "c_status c = Active"
    using assms(3) by (cases h r rule: pool_take_cases) auto
  have "pool_inv (get_done key r h' p) h'"
    using pool_inv_done [OF inv(1)] inv(2) r by simp
  then show ?thesis
    using c r assms(2) by (auto simp: got_def get_done_def)
qed

lemma got_created:
  assumes "pool_inv p h" "get_create st createDC ct key p h = (Inr r, p', h')"
  shows "got p h r p' h'"
proof -
  obtain dc where r: "r = length h"
    and p': "p' = p\<lparr>cp_idx := cp_idx p + 1, cp_idles := gm_del key (cp_idles p),
                cp_actives := gm_put (Label_String (NewLabel ct (cp_idx p + 1))) (length h) (cp_actives p)\<rparr>"
    and h': "h' = h @ [snd (Channel_TakeConn (NewOfferChannel (cp_cluster p) (cp_id p) dc (NewLabel ct (cp_idx p + 1))))]"
    using assms(2) by (auto simp: get_create_eq Let_def split: sum.splits)
  have "pool_inv p h'"
    unfolding h' by (rule pool_inv_append [OF assms(1) new_taken(1)])
  then have "pool_inv p' h'"
    by (auto simp: pool_inv_def p' h' nth_append new_taken)
  then show ?thesis
    by (auto simp: got_def p' h' r nth_append new_taken)
qed

lemma Get_got:
  assumes inv: "pool_inv p h" and get: "ChannelPool_Get st createDC ord p h ct labels = (Inr r, p', h')"
  shows "got p h r p' h'"
proof (cases "\<exists>key. labels = [key]")
  case True
  then obtain key where labels: "labels = [key]" by blast
  obtain r0 where r0: "gm_get (cp_idles p) key = Some r0"
    using get labels by (auto simp: ChannelPool_Get_def split: option.splits)
  show ?thesis
  proof (cases h r0 rule: pool_take_cases)
    case (Taken c)
    with get labels r0 show ?thesis
      using got_idle [OF inv r0] by (auto simp: ChannelPool_Get_def)
  next
    case Busy
    with get labels r0 have "get_create st createDC ct key p h = (Inr r, p', h')"
      by (simp add: ChannelPool_Get_def)
    with inv show ?thesis by (rule got_created)
  qed
next
  case False
  obtain key res h1 where rt: "range_take (cp_idles p) ord h '''' = (key, res, h1)"
    using prod_cases3 by blast
  then have get': "(case res of Some r \<Rightarrow> (Inr r, get_done key r h1 p, h1)
      | None \<Rightarrow> get_create st createDC ct key p h1) = (Inr r, p', h')"
    using get False by (auto simp: ChannelPool_Get_def split: list.splits option.splits)
  show ?thesis
    using range_take_spec [OF rt] get' got_idle [OF inv] got_created [OF inv]
    by (auto split: option.splits)
qed

lemma Get_failed:
  assumes "ChannelPool_Get st createDC ord p h ct labels = (Inl e, p', h')"
  shows "h' = h \<and>
    ((\<exists>key. labels = [key] \<and> gm_get (cp_idles p) key = None \<and> p' = p \<and>
        e = StdError (ErrorString ''not found'') st) \<or>
     (createDC (Label_String (NewLabel ct (cp_idx p + 1))) = Inl e \<and> p' = p\<lparr>cp_idx := cp_idx p + 1\<rparr>))"
proof -
  have create: "get_create st createDC ct key p h1 = (Inl e, p', h') \<Longrightarrow>
      h' = h1 \<and> createDC (Label_String (NewLabel ct (cp_idx p + 1))) = Inl e \<and> p' = p\<lparr>cp_idx := cp_idx p + 1\<rparr>"
    for key h1 by (auto simp: get_create_eq Let_def split: sum.splits)
  show ?thesis
  proof (cases "\<exists>key. labels = [key]")
    case True
    then obtain key where labels: "labels = [key]" by blast
    show ?thesis
    proof (cases "gm_get (cp_idles p) key")
      case None
      with assms labels show ?thesis by (simp add: ChannelPool_Get_def wrap_err_def Wrap_def)
    next
      case (Some r0)
      with assms labels create show ?thesis
        by (cases h r0 rule: pool_take_cases) (auto simp: ChannelPool_Get_def)
    qed
  next
    case False
    obtain key res h1 where rt: "range_take (cp_idles p) ord h '''' = (key, res, h1)"
      using prod_cases3 by blast
    then have "res = None" "get_create st createDC ct key p h1 = (Inl e, p', h')"
      using assms False by (auto simp: ChannelPool_Get_def split: list.splits option.splits)
    then show ?thesis using range_take_spec [OF rt] create by simp
  qed
qed

subsection \<open>Properties of the pool\<close>

text \<open>
  C7: run without interruption by another \<open>Get\<close> (see \<open>Pool_Race\<close> for what happens otherwise), whatever
  \<open>Get\<close> returns is exclusively the caller's: the channel is active afterwards and was
  either created by this call or was an idle channel of the pool, never one in use; it is registered in
  \<open>actives\<close> under its own label, no other channel changes, and the pool's invariant is kept.
\<close>

theorem get_hands_out_exclusively:
  assumes "pool_inv p h" "ChannelPool_Get st createDC ord p h ct labels = (Inr r, p', h')"
  shows "pool_inv p' h' \<and> r < length h' \<and> c_status (h' ! r) = Active
     \<and> (if r < length h then c_status (h ! r) = Idle \<and> (\<exists>k. gm_get (cp_idles p) k = Some r) else r = length h)
     \<and> gm_get (cp_actives p') (Label_String (c_label (h' ! r))) = Some r
     \<and> (\<forall>i < length h. i \<noteq> r \<longrightarrow> h' ! i = h ! i)"
  using Get_got [OF assms] by (simp add: got_def)

theorem get_hands_out_exclusively_witness:
  "\<exists>p' h'. ChannelPool_Get [] (\<lambda>l. Inr ()) [] (NewChannelPool ''u'' [] ''b'' SDPTypeOffer) [] Web [] = (Inr 0, p', h')
     \<and> c_status (h' ! 0) = Active \<and> gm_get (cp_actives p') (Label_String (c_label (h' ! 0))) = Some 0"
proof -
  let ?p = "NewChannelPool ''u'' [] ''b'' SDPTypeOffer"
  have "pool_inv ?p ([] :: unit heap)" by (simp add: pool_inv_def NewChannelPool_def)
  moreover obtain p' h' where get: "ChannelPool_Get [] (\<lambda>l. Inr ()) [] ?p [] Web [] = (Inr 0, p', h')"
    by (simp add: ChannelPool_Get_def get_create_eq Let_def)
  ultimately have "c_status (h' ! 0) = Active \<and> gm_get (cp_actives p') (Label_String (c_label (h' ! 0))) = Some 0"
    using get_hands_out_exclusively by blast
  with get show ?thesis by blast
qed

text \<open>
  \<open>Get\<close> fails only when a requested label is not idle, or with the error of
  \<open>CreateDataChannel\<close> for the next label; its error \<open>cannot take conn\<close> is unreachable, and a failed
  \<open>Get\<close> leaves every channel and both maps unchanged (the index may have advanced).
\<close>

theorem get_failures:
  assumes "ChannelPool_Get st createDC ord p h ct labels = (Inl e, p', h')"
  shows "h' = h \<and> cp_idles p' = cp_idles p \<and> cp_actives p' = cp_actives p \<and>
    ((\<exists>key. labels = [key] \<and> gm_get (cp_idles p) key = None \<and> e = StdError (ErrorString ''not found'') st) \<or>
     createDC (Label_String (NewLabel ct (cp_idx p + 1))) = Inl e)"
  using Get_failed [OF assms] by auto

theorem get_failures_witness:
  "ChannelPool_Get [] (\<lambda>l. Inr ()) [] (NewChannelPool ''u'' [] ''b'' SDPTypeOffer) [] Web [''web:9''] =
     (Inl (StdError (ErrorString ''not found'') []), NewChannelPool ''u'' [] ''b'' SDPTypeOffer, []) \<and>
   gm_get (cp_idles (NewChannelPool ''u'' [] ''b'' SDPTypeOffer)) ''web:9'' = None"
proof -
  let ?p = "NewChannelPool ''u'' [] ''b'' SDPTypeOffer"
  have get: "ChannelPool_Get [] (\<lambda>l. Inr ()) [] ?p [] Web [''web:9''] =
     (Inl (StdError (ErrorString ''not found'') []), ?p, [])"
    by (simp add: ChannelPool_Get_def NewChannelPool_def wrap_err_def Wrap_def)
  from get_failures [OF this] get show ?thesis by simp
qed

lemma OnRelease_inv:
  assumes "pool_inv p h"
  shows "\<exists>h'. OnRelease p h label = Some h' \<and> pool_inv p h' \<and> length h' = length h"
proof (cases "gm_get (cp_actives p) label")
  case (Some r)
  then have r: "r < length h" using assms by (auto simp: pool_inv_def)
  then have "chan_inv (h ! r)" using assms by (simp add: pool_inv_def)
  then obtain c where c: "Channel_Release (h ! r) = Some c" "chan_inv c" using Release_inv by blast
  with pool_inv_upd [OF assms c(2) Release_label [OF c(1)]] Some show ?thesis
    by (simp add: OnRelease_def)
qed (use assms in \<open>simp add: OnRelease_def\<close>)

lemma OnChannelOpen_inv:
  assumes "pool_inv p h" "OnChannelOpen st p h l dc = (e, p', h')"
  shows "pool_inv p' h'"
proof -
  have "pool_inv (p\<lparr>cp_idles := gm_put l (length h) (cp_idles p)\<rparr>)
      (h @ [NewAnswerChannel (cp_cluster p) (cp_id p) dc lb (cp_accept p)])" for lb
    using pool_inv_append [OF assms(1) chan_inv_new(3)]
    by (auto simp: pool_inv_def)
  then show ?thesis
    using assms by (auto simp: OnChannelOpen_def split: sum.splits if_splits)
qed

lemma loop_release_inv:
  assumes "pool_inv p h" "r < length h"
  shows "pool_inv (ChannelPool_loop_release p h r) h"
  using assms by (auto simp: pool_inv_def ChannelPool_loop_release_def Let_def)

lemma ChannelPool_loop_inv:
  "pool_inv p h \<Longrightarrow> (\<And>r. PlRelease r \<in> set evs \<Longrightarrow> r < length h) \<Longrightarrow>
     pool_inv (fst (ChannelPool_loop p h evs)) h"
  by (induction p h evs rule: ChannelPool_loop.induct) (simp_all add: loop_release_inv)

lemma Get_inv:
  assumes "pool_inv p h" "ChannelPool_Get st createDC ord p h ct labels = (res, p', h')"
  shows "pool_inv p' h'"
proof (cases res)
  case (Inl e)
  with assms show ?thesis using Get_failed [of st createDC ord p h ct labels e p' h'] by auto
next
  case (Inr r)
  with assms show ?thesis using Get_got [of p h st createDC ord ct labels r p' h'] by (simp add: got_def)
qed

lemma Get_no_idles:
  assumes "cp_idles p = []" "ChannelPool_Get st createDC ord p h ct [] = (res, p', h')"
  shows "cp_idles p' = [] \<and> (\<forall>r. res = Inr r \<longrightarrow> r = length h \<and> length h' = Suc (length h)
           \<and> lb_index (c_label (h' ! r)) = cp_idx p + 1 \<and> cp_idx p' = cp_idx p + 1)"
proof -
  have "range_take [] ord h '''' = ('''', None, h)" by (induction ord) auto
  then have "get_create st createDC ct '''' p h = (res, p', h')"
    using assms by (simp add: ChannelPool_Get_def)
  then show ?thesis
    using assms(1)
    by (auto simp: get_create_eq Let_def gm_del_def nth_append new_taken NewLabel_def split: sum.splits)
qed

lemma pool_step_inv:
  "pool_step st createDC s t \<Longrightarrow> pool_inv (ps_pool s) (ps_heap s) \<and> cp_idles (ps_pool s) = [] \<Longrightarrow>
     pool_inv (ps_pool t) (ps_heap t) \<and> cp_idles (ps_pool t) = []"
proof (induction rule: pool_step.induct)
  case (ps_get ord s ct res p h)
  then show ?case using Get_inv Get_no_idles by fastforce
next
  case (ps_command s label h)
  then show ?case using OnRelease_inv [of "ps_pool s" "ps_heap s" label] by auto
next
  case (ps_release r s c)
  then have "chan_inv (ps_heap s ! r)" by (simp add: pool_inv_def)
  then have "chan_inv c" using Release_inv ps_release(2) by force
  with ps_release show ?case by (simp add: pool_inv_upd Release_label)
next
  case (ps_open r s)
  then have "chan_inv (ps_heap s ! r)" by (simp add: pool_inv_def)
  moreover have "c_label (Channel_onOpen (ps_heap s ! r)) = c_label (ps_heap s ! r)"
    by (simp add: Channel_onOpen_def split: option.split)
  ultimately show ?case using ps_open by (simp add: pool_inv_upd)
qed

definition pool_init :: "string \<Rightarrow> string \<Rightarrow> string \<Rightarrow> SDPType \<Rightarrow> 'd pool_sys" where
  "pool_init uuid rid rcid pt = \<lparr>ps_pool = NewChannelPool uuid rid rcid pt, ps_heap = []\<rparr>"

lemma pool_reach_inv:
  "pool_reach st createDC (pool_init u rid rcid pt) s \<Longrightarrow>
     pool_inv (ps_pool s) (ps_heap s) \<and> cp_idles (ps_pool s) = []"
proof (induction rule: pool_reach.induct)
  case pr_init
  show ?case by (simp add: pool_init_def NewChannelPool_def pool_inv_def)
qed (rule pool_step_inv)

text \<open>
  An offering pool never reuses a channel: however many channels have been obtained and released,
  \<open>idles\<close> is empty, the remote release command never panics, and every successful \<open>Get\<close> creates one more
  data channel, numbered with the next index.
\<close>

theorem offering_pool_never_reuses:
  assumes "pool_reach st createDC (pool_init u rid rcid pt) s"
  shows "cp_idles (ps_pool s) = [] \<and> OnRelease (ps_pool s) (ps_heap s) label \<noteq> None \<and>
    (\<forall>ord ct r p h. ChannelPool_Get st createDC ord (ps_pool s) (ps_heap s) ct [] = (Inr r, p, h) \<longrightarrow>
       r = length (ps_heap s) \<and> length h = Suc (length (ps_heap s)) \<and>
       lb_index (c_label (h ! r)) = cp_idx (ps_pool s) + 1)"
proof -
  note inv = pool_reach_inv [OF assms]
  show ?thesis
    using inv OnRelease_inv [of "ps_pool s" "ps_heap s" label] Get_no_idles [of "ps_pool s" st createDC]
    by auto
qed

lemma pool_example:
  "\<exists>s. pool_reach [] (\<lambda>l. Inr ()) (pool_init ''u'' [] ''b'' SDPTypeOffer) s \<and>
     length (ps_heap s) = 1 \<and> c_status (ps_heap s ! 0) = Idle"
proof -
  let ?s0 = "pool_init ''u'' [] ''b'' SDPTypeOffer :: unit pool_sys"
  let ?p = "NewChannelPool ''u'' [] ''b'' SDPTypeOffer"
  let ?c = "snd (Channel_TakeConn (NewOfferChannel '''' ''u'' () (NewLabel Web 1)))"
  obtain p where "ChannelPool_Get [] (\<lambda>l. Inr ()) [] ?p [] Web [] = (Inr 0, p, [?c])"
    by (simp add: ChannelPool_Get_def get_create_eq Let_def NewChannelPool_def)
  then have s1: "pool_step [] (\<lambda>l. Inr ()) ?s0 \<lparr>ps_pool = p, ps_heap = [?c]\<rparr>"
    using ps_get [of "[]" "\<lambda>l. Inr ()" "[]" ?s0 Web] by (simp add: pool_init_def)
  obtain c where c: "Channel_Release ?c = Some c" "c_status c = Idle"
    by (simp add: Channel_Release_def Channel_TakeConn_def NewOfferChannel_def newChannel_def
        ChannelReader_Release_def NewChannelReader_def chan_close_def)
  then have s2: "pool_step [] (\<lambda>l. Inr ()) \<lparr>ps_pool = p, ps_heap = [?c]\<rparr> \<lparr>ps_pool = p, ps_heap = [c]\<rparr>"
    using ps_release [of 0 "\<lparr>ps_pool = p, ps_heap = [?c]\<rparr>" c "[]" "\<lambda>l. Inr ()"] by simp
  have "pool_reach [] (\<lambda>l. Inr ()) ?s0 \<lparr>ps_pool = p, ps_heap = [c]\<rparr>"
    using pool_reach.intros s1 s2 by blast
  with c show ?thesis by (intro exI [of _ "\<lparr>ps_pool = p, ps_heap = [c]\<rparr>"]) simp
qed

theorem offering_pool_never_reuses_witness:
  "\<exists>s. pool_reach [] (\<lambda>l. Inr ()) (pool_init ''u'' [] ''b'' SDPTypeOffer) s \<and>
     length (ps_heap s) = 1 \<and> c_status (ps_heap s ! 0) = Idle \<and>
     (\<forall>ord ct r p h. ChannelPool_Get [] (\<lambda>l. Inr ()) ord (ps_pool s) (ps_heap s) ct [] = (Inr r, p, h) \<longrightarrow> r = 1)"
proof -
  obtain s where s: "pool_reach [] (\<lambda>l. Inr ()) (pool_init ''u'' [] ''b'' SDPTypeOffer) s"
    "length (ps_heap s) = 1" "c_status (ps_heap s ! 0) = Idle"
    using pool_example by blast
  with offering_pool_never_reuses [OF s(1), of "''web:1''"] show ?thesis by auto
qed

text \<open>
  A \<open>Get\<close> without label that finds every idle entry busy loses one: it creates a new channel and
  deletes from \<open>idles\<close> the entry it visited last, although it did not hand that channel out.
\<close>

theorem get_loses_the_last_busy_entry:
  assumes "pool_inv p h" "ord \<noteq> []" "set ord = set (gm_keys (cp_idles p))"
    and "\<forall>k r. gm_get (cp_idles p) k = Some r \<longrightarrow> c_status (h ! r) \<noteq> Idle"
    and "createDC (Label_String (NewLabel ct (cp_idx p + 1))) = Inr dc"
  shows "\<exists>p' h' r. ChannelPool_Get st createDC ord p h ct [] = (Inr (length h), p', h') \<and>
    gm_get (cp_idles p) (last ord) = Some r \<and> r < length h \<and> h' ! r = h ! r \<and>
    gm_get (cp_idles p') (last ord) = None"
proof -
  obtain key res h1 where rt: "range_take (cp_idles p) ord h '''' = (key, res, h1)"
    using prod_cases3 by blast
  obtain r where r: "gm_get (cp_idles p) (last ord) = Some r"
    using assms(2,3) gm_keys_iff [of "last ord" "cp_idles p"] last_in_set by fastforce
  have "res = None"
  proof (rule ccontr)
    assume "res \<noteq> None"
    then obtain r' where "gm_get (cp_idles p) key = Some r'" "pool_take h r' = (True, h1)"
      using range_take_spec [OF rt] by auto
    then show False using assms(4) by (cases h r' rule: pool_take_cases) auto
  qed
  then have "h1 = h" "key = last ord" using range_take_spec [OF rt] assms(2,3) by simp_all
  with rt \<open>res = None\<close> have "ChannelPool_Get st createDC ord p h ct [] = get_create st createDC ct (last ord) p h"
    by (simp add: ChannelPool_Get_def)
  moreover have "r < length h" using r assms(1) by (auto simp: pool_inv_def)
  ultimately show ?thesis
    using r assms(5) by (simp add: get_create_eq Let_def nth_append)
qed

theorem get_loses_the_last_busy_entry_witness:
  "\<exists>p h p' h' r. ChannelPool_Get [] (\<lambda>l. Inr ()) [''web:1''] p h Web [] = (Inr (length h), p', h') \<and>
    gm_get (cp_idles p) ''web:1'' = Some r \<and> gm_get (cp_idles p') ''web:1'' = None"
proof -
  let ?p0 = "NewChannelPool ''u'' ''r'' [] SDPTypeAnswer"
  let ?c = "snd (Channel_TakeConn (NewAnswerChannel [] ''u'' () (NewLabel Web 1) True))"
  let ?p = "?p0\<lparr>cp_idles := [(''web:1'', 0)]\<rparr>"
  have "chan_inv ?c" by (rule chan_releaser.take_inv) simp
  then have inv: "pool_inv ?p [?c]" by (simp add: pool_inv_def NewChannelPool_def)
  have keys: "set [''web:1''] = set (gm_keys (cp_idles ?p))" by (simp add: gm_keys_def)
  have busy: "\<forall>k r. gm_get (cp_idles ?p) k = Some r \<longrightarrow> c_status ([?c] ! r) \<noteq> Idle"
    by (simp add: Channel_TakeConn_def NewAnswerChannel_def newChannel_def)
  obtain p' h' r where "ChannelPool_Get [] (\<lambda>l. Inr ()) [''web:1''] ?p [?c] Web [] = (Inr (length [?c]), p', h')"
    "gm_get (cp_idles ?p) (last [''web:1'']) = Some r" "gm_get (cp_idles p') (last [''web:1'']) = None"
    using get_loses_the_last_busy_entry [OF inv _ keys busy, of "\<lambda>l. Inr ()" Web "()" "[]"] by blast
  then show ?thesis
    by (intro exI [of _ ?p] exI [of _ "[?c]"] exI [of _ p'] exI [of _ h'] exI [of _ r]) simp
qed

end
