(* ===== verification/Locks.thy ===== *)
theory Locks
  imports Transitions
begin

section \<open>Locks and goroutines\<close>

text \<open>
  The \<open>sync.RWMutex\<close> that the structs of the program embed (a \<open>sync.Mutex\<close> is one that is only locked
  for writing), and goroutines that run between acquiring and releasing it.  A goroutine is a number; a
  call that would block is \<open>None\<close>.  In Go a waiting writer also holds back new readers, which only takes
  runs away.  The locale \<open>locked\<close> is the discipline of a component whose
  goroutines enter and leave their critical sections through one lock; its lemmas say who can be inside
  together: readers with readers, a writer with nobody.
\<close>

record rwlock =
  lk_readers :: "nat set"
  lk_writer :: "nat option"

definition free_lock :: rwlock where
  "free_lock = \<lparr>lk_readers = {}, lk_writer = None\<rparr>"

definition RLock :: "nat \<Rightarrow> rwlock \<Rightarrow> rwlock option" where
  "RLock g l = (if lk_writer l = None then Some (l\<lparr>lk_readers := insert g (lk_readers l)\<rparr>) else None)"

definition RUnlock :: "nat \<Rightarrow> rwlock \<Rightarrow> rwlock" where
  "RUnlock g l = l\<lparr>lk_readers := lk_readers l - {g}\<rparr>"

definition WLock :: "nat \<Rightarrow> rwlock \<Rightarrow> rwlock option" where
  "WLock g l = (if lk_writer l = None \<and> lk_readers l = {} then Some (l\<lparr>lk_writer := Some g\<rparr>) else None)"

definition WUnlock :: "rwlock \<Rightarrow> rwlock" where
  "WUnlock l = l\<lparr>lk_writer := None\<rparr>"

lemmas lock_defs = RLock_def RUnlock_def WLock_def WUnlock_def free_lock_def

text \<open>
  Where a goroutine stands: outside, or inside with the lock held for reading or for writing.
  \<open>lock_agrees\<close>: the lock knows exactly who is inside.
\<close>

datatype place = Outside | Reading | Writing

definition lock_agrees :: "rwlock \<Rightarrow> (nat \<Rightarrow> place) \<Rightarrow> bool" where
  "lock_agrees l at \<longleftrightarrow> (\<forall>g. (g \<in> lk_readers l \<longleftrightarrow> at g = Reading) \<and> (lk_writer l = Some g \<longleftrightarrow> at g = Writing))
     \<and> (lk_writer l \<noteq> None \<longrightarrow> lk_readers l = {})"

text \<open>How one goroutine may change its place and the lock.\<close>

inductive lock_move :: "nat \<Rightarrow> rwlock \<Rightarrow> (nat \<Rightarrow> place) \<Rightarrow> rwlock \<Rightarrow> (nat \<Rightarrow> place) \<Rightarrow> bool" for g l at where
  lm_stay: "lock_move g l at l at"
| lm_rlock: "at g = Outside \<Longrightarrow> RLock g l = Some l' \<Longrightarrow> lock_move g l at l' (at(g := Reading))"
| lm_runlock: "at g = Reading \<Longrightarrow> lock_move g l at (RUnlock g l) (at(g := Outside))"
| lm_wlock: "at g = Outside \<Longrightarrow> WLock g l = Some l' \<Longrightarrow> lock_move g l at l' (at(g := Writing))"
| lm_wunlock: "at g = Writing \<Longrightarrow> lock_move g l at (WUnlock l) (at(g := Outside))"

lemma lock_agreesI:
  assumes "\<And>g. g \<in> lk_readers l \<longleftrightarrow> at g = Reading" "\<And>g. lk_writer l = Some g \<longleftrightarrow> at g = Writing"
    and "lk_writer l \<noteq> None \<Longrightarrow> lk_readers l = {}"
  shows "lock_agrees l at"
  using assms by (simp add: lock_agrees_def)

lemma lock_agreesD:
  assumes "lock_agrees l at"
  shows "g \<in> lk_readers l \<longleftrightarrow> at g = Reading" "lk_writer l = Some g \<longleftrightarrow> at g = Writing"
    "lk_writer l \<noteq> None \<Longrightarrow> lk_readers l = {}"
  using assms unfolding lock_agrees_def by blast+

lemma lock_move_agrees:
  assumes "lock_move g l at l' at'" "lock_agrees l at"
  shows "lock_agrees l' at'"
  using assms(1)
proof (cases rule: lock_move.cases)
  case lm_rlock
  then have l': "l' = l\<lparr>lk_readers := insert g (lk_readers l)\<rparr>" "lk_writer l = None"
    by (simp_all add: RLock_def split: if_splits)
  show ?thesis
  proof (rule lock_agreesI)
    fix g'
    show "g' \<in> lk_readers l' \<longleftrightarrow> at' g' = Reading" using lock_agreesD(1) [OF assms(2)] l' lm_rlock(1) by simp
    have "at g' \<noteq> Writing" using lock_agreesD(2) [OF assms(2), of g'] l'(2) by simp
    then show "lk_writer l' = Some g' \<longleftrightarrow> at' g' = Writing" using l' lm_rlock(1) by simp
  qed (simp add: l')
next
  case lm_runlock
  then have none: "lk_writer l = None" using lock_agreesD(1,3) [OF assms(2)] by blast
  show ?thesis
  proof (rule lock_agreesI)
    fix g'
    show "g' \<in> lk_readers l' \<longleftrightarrow> at' g' = Reading"
      using lock_agreesD(1) [OF assms(2)] lm_runlock by (simp add: RUnlock_def)
    have "at g' \<noteq> Writing" using lock_agreesD(2) [OF assms(2), of g'] none by simp
    then show "lk_writer l' = Some g' \<longleftrightarrow> at' g' = Writing" using none lm_runlock by (simp add: RUnlock_def)
  qed (simp add: none lm_runlock(1) RUnlock_def)
next
  case lm_wlock
  then have l': "l' = l\<lparr>lk_writer := Some g\<rparr>" "lk_writer l = None" "lk_readers l = {}"
    by (simp_all add: WLock_def split: if_splits)
  show ?thesis
  proof (rule lock_agreesI)
    fix g'
    have "at g' \<noteq> Writing" "at g' \<noteq> Reading"
      using lock_agreesD(1,2) [OF assms(2), of g'] l'(2,3) by simp_all
    then show "g' \<in> lk_readers l' \<longleftrightarrow> at' g' = Reading" "lk_writer l' = Some g' \<longleftrightarrow> at' g' = Writing"
      using l' lm_wlock(1) by auto
  qed (simp add: l')
next
  case lm_wunlock
  then have w: "lk_writer l = Some g" using lock_agreesD(2) [OF assms(2)] by blast
  then have r: "lk_readers l = {}" using lock_agreesD(3) [OF assms(2)] by simp
  show ?thesis
  proof (rule lock_agreesI)
    fix g'
    have "at g' \<noteq> Reading" "at g' = Writing \<longleftrightarrow> g' = g"
      using lock_agreesD(1,2) [OF assms(2), of g'] w r by auto
    then show "g' \<in> lk_readers l' \<longleftrightarrow> at' g' = Reading" "lk_writer l' = Some g' \<longleftrightarrow> at' g' = Writing"
      using r lm_wunlock by (auto simp: WUnlock_def)
  qed (simp add: lm_wunlock(1) WUnlock_def)
qed (use assms in simp)

lemma lock_agrees_free: "(\<And>g. at g = Outside) \<Longrightarrow> lock_agrees free_lock at"
  by (simp add: lock_agrees_def free_lock_def)

locale locked =
  fixes step :: "'s \<Rightarrow> nat \<Rightarrow> 's \<Rightarrow> bool" and lock :: "'s \<Rightarrow> rwlock" and place_of :: "'s \<Rightarrow> nat \<Rightarrow> place"
  assumes moves: "step s g t \<Longrightarrow> lock_move g (lock s) (place_of s) (lock t) (place_of t)"
begin

lemma agrees_step: "step s g t \<Longrightarrow> lock_agrees (lock s) (place_of s) \<Longrightarrow> lock_agrees (lock t) (place_of t)"
  using moves lock_move_agrees by blast

lemma agrees_run: "lrun step s gs t \<Longrightarrow> lock_agrees (lock s) (place_of s) \<Longrightarrow> lock_agrees (lock t) (place_of t)"
  by (induction rule: lrun.induct) (auto intro: agrees_step)

lemma writer_alone:
  assumes "lock_agrees (lock s) (place_of s)" "place_of s g = Writing" "place_of s g' \<noteq> Outside"
  shows "g' = g"
proof (cases "place_of s g'")
  case Reading
  then show ?thesis using assms by (auto simp: lock_agrees_def)
next
  case Writing
  then have "lk_writer (lock s) = Some g" "lk_writer (lock s) = Some g'"
    using assms by (simp_all add: lock_agrees_def)
  then show ?thesis by simp
qed (use assms in simp)

end

subsection \<open>Running alone\<close>

text \<open>\<open>alone step g s t\<close>: goroutine \<open>g\<close> takes the state from \<open>s\<close> to \<open>t\<close> by its own steps.\<close>

definition alone :: "('s \<Rightarrow> nat \<Rightarrow> 's \<Rightarrow> bool) \<Rightarrow> nat \<Rightarrow> 's \<Rightarrow> 's \<Rightarrow> bool" where
  "alone step g s t \<longleftrightarrow> (\<exists>n. lrun step s (replicate n g) t)"

lemma alone_refl: "alone step g s s"
  unfolding alone_def by (rule exI [of _ 0]) (simp add: lrun_start)

lemma alone_step: "step s g t \<Longrightarrow> alone step g t u \<Longrightarrow> alone step g s u"
proof -
  assume step: "step s g t" and "alone step g t u"
  then obtain n where "lrun step t (replicate n g) u" by (auto simp: alone_def)
  with step have "lrun step s (replicate (Suc n) g) u" by (simp add: lrun_Cons)
  then show ?thesis unfolding alone_def by blast
qed

end
