(* ===== verification/Pool_Race.thy ===== *)
theory Pool_Race
  imports Channel_Pool Locks
begin

section \<open>The channel pool under concurrent callers (\<open>net/conn/channel-pool.go\<close>)\<close>

text \<open>
  \<open>Channel_Pool\<close> gives each operation as one step.  Here the operations are cut where other goroutines can
  come in between: \<open>Get\<close>, which holds the lock for reading only, at its lock, at each idle channel it visits,
  and inside \<open>TakeConn\<close> between the test of the status and its change; \<open>OnChannelOpen\<close>, \<open>OnRelease\<close> and a
  round of \<open>loop\<close> hold it for writing and are cut at the lock.  The creation of a channel is one step: its index
  comes from an atomic counter and the new channel is known to nobody else.  \<open>range\<close> visits the keys in the order
  given at the start and skips those that have been deleted meanwhile.  All callers in the sources call \<open>Get\<close>
  without labels, and the goroutines here are those of the pool's operations, not the callbacks of the channels.
  Run alone, the cut \<open>Get\<close> computes what \<open>ChannelPool_Get\<close> does; the writers are never disturbed; two calls of
  \<open>Get\<close> can be given the same channel.
\<close>

text \<open>\<open>TakeConn\<close> in two halves.\<close>

definition take_check :: "'d Channel \<Rightarrow> bool" where
  "take_check c \<longleftrightarrow> c_status c = Idle"

definition take_set :: "'d Channel \<Rightarrow> 'd Channel" where
  "take_set c = c\<lparr>c_status := Active, c_rd := Some (NewChannelReader (c_batch c)), c_buffer := Some bufio_NewReader\<rparr>"

lemma TakeConn_halves: "Channel_TakeConn c = (if take_check c then (True, take_set c) else (False, c))"
  by (simp add: Channel_TakeConn_def take_check_def take_set_def)

text \<open>The calls that run under the write lock; \<open>None\<close> is a panic, after which the goroutine has no step.\<close>

datatype 'd pool_write = PwOpen string 'd | PwRelease string | PwLoop nat

definition pool_write :: "string \<Rightarrow> 'd pool_write \<Rightarrow> 'd pool_sys \<Rightarrow> 'd pool_sys option" where
  "pool_write st w s =
     (case w of
        PwOpen lab dc \<Rightarrow>
          (case OnChannelOpen st (ps_pool s) (ps_heap s) lab dc of (e, p, h) \<Rightarrow> Some \<lparr>ps_pool = p, ps_heap = h\<rparr>)
      | PwRelease lab \<Rightarrow>
          (case OnRelease (ps_pool s) (ps_heap s) lab of None \<Rightarrow> None | Some h \<Rightarrow> Some (s\<lparr>ps_heap := h\<rparr>))
      | PwLoop r \<Rightarrow> Some (s\<lparr>ps_pool := ChannelPool_loop_release (ps_pool s) (ps_heap s) r\<rparr>))"

text \<open>
  The program points.  \<open>GpRange ks key\<close> is at the head of the loop with the keys left and the last key visited,
  \<open>GpTest\<close> and \<open>GpTake\<close> are the halves of \<open>TakeConn\<close>, \<open>GpDone\<close> is the deferred function.
\<close>

datatype 'd pool_pc =
    GpLock "string list"
  | GpRange "string list" string
  | GpTest string nat "string list"
  | GpTake string nat
  | GpCreate string
  | GpDone string nat
  | GpUnlock "go_error + nat"
  | GpReturned "go_error + nat"
  | WpLock "'d pool_write"
  | WpRun "'d pool_write"
  | WpUnlock
  | WpReturned

record 'd pool_conc =
  pk_sys :: "'d pool_sys"
  pk_lock :: rwlock
  pk_pc :: "nat \<Rightarrow> 'd pool_pc"

definition pk_goto :: "nat \<Rightarrow> 'd pool_pc \<Rightarrow> 'd pool_conc \<Rightarrow> 'd pool_conc" where
  "pk_goto g pc s = s\<lparr>pk_pc := (pk_pc s)(g := pc)\<rparr>"

lemma pk_goto_simps [simp]:
  "pk_sys (pk_goto g pc s) = pk_sys s"
  "pk_lock (pk_goto g pc s) = pk_lock s"
  "pk_pc (pk_goto g pc s) = (pk_pc s)(g := pc)"
  "pk_goto g pc (pk_goto g pc' s) = pk_goto g pc s"
  "(pk_goto g pc s)\<lparr>pk_sys := sys\<rparr> = pk_goto g pc (s\<lparr>pk_sys := sys\<rparr>)"
  "(pk_goto g pc s)\<lparr>pk_lock := l\<rparr> = pk_goto g pc (s\<lparr>pk_lock := l\<rparr>)"
  by (simp_all add: pk_goto_def)

definition pool_micro ::
  "string \<Rightarrow> (string \<Rightarrow> go_error + 'd) \<Rightarrow> ChannelType \<Rightarrow> 'd pool_conc \<Rightarrow> nat \<Rightarrow> 'd pool_conc option" where
  "pool_micro st createDC ct s g =
     (let sys = pk_sys s; p = ps_pool sys; h = ps_heap sys in
      case pk_pc s g of
        GpLock ord \<Rightarrow> (case RLock g (pk_lock s) of None \<Rightarrow> None | Some l \<Rightarrow> Some (pk_goto g (GpRange ord '''') (s\<lparr>pk_lock := l\<rparr>)))
      | GpRange [] key \<Rightarrow> Some (pk_goto g (GpCreate key) s)
      | GpRange (k # ks) key \<Rightarrow>
          (case gm_get (cp_idles p) k of
             None \<Rightarrow> Some (pk_goto g (GpRange ks key) s)
           | Some r \<Rightarrow> Some (pk_goto g (GpTest k r ks) s))
      | GpTest k r ks \<Rightarrow> Some (pk_goto g (if take_check (h ! r) then GpTake k r else GpRange ks k) s)
      | GpTake k r \<Rightarrow> Some (pk_goto g (GpDone k r) (s\<lparr>pk_sys := sys\<lparr>ps_heap := h[r := take_set (h ! r)]\<rparr>\<rparr>))
      | GpCreate key \<Rightarrow>
          (case create_loop st createDC ct 5 p h of
             (Inl e, p1, h1) \<Rightarrow> Some (pk_goto g (GpUnlock (Inl e)) (s\<lparr>pk_sys := \<lparr>ps_pool = p1, ps_heap = h1\<rparr>\<rparr>))
           | (Inr r, p1, h1) \<Rightarrow> Some (pk_goto g (GpDone key r) (s\<lparr>pk_sys := \<lparr>ps_pool = p1, ps_heap = h1\<rparr>\<rparr>)))
      | GpDone key r \<Rightarrow> Some (pk_goto g (GpUnlock (Inr r)) (s\<lparr>pk_sys := sys\<lparr>ps_pool := get_done key r h p\<rparr>\<rparr>))
      | GpUnlock res \<Rightarrow> Some (pk_goto g (GpReturned res) (s\<lparr>pk_lock := RUnlock g (pk_lock s)\<rparr>))
      | GpReturned res \<Rightarrow> None
      | WpLock w \<Rightarrow> (case WLock g (pk_lock s) of None \<Rightarrow> None | Some l \<Rightarrow> Some (pk_goto g (WpRun w) (s\<lparr>pk_lock := l\<rparr>)))
      | WpRun w \<Rightarrow> (case pool_write st w sys of None \<Rightarrow> None | Some sys' \<Rightarrow> Some (pk_goto g WpUnlock (s\<lparr>pk_sys := sys'\<rparr>)))
      | WpUnlock \<Rightarrow> Some (pk_goto g WpReturned (s\<lparr>pk_lock := WUnlock (pk_lock s)\<rparr>))
      | WpReturned \<Rightarrow> None)"

definition pool_conc_step ::
  "string \<Rightarrow> (string \<Rightarrow> go_error + 'd) \<Rightarrow> ChannelType \<Rightarrow> 'd pool_conc \<Rightarrow> nat \<Rightarrow> 'd pool_conc \<Rightarrow> bool" where
  "pool_conc_step st createDC ct s g t \<longleftrightarrow> pool_micro st createDC ct s g = Some t"

text \<open>Nobody has started: every goroutine is about to acquire the lock, which is free.\<close>

definition pool_conc_start :: "'d pool_sys \<Rightarrow> (nat \<Rightarrow> 'd pool_pc) \<Rightarrow> 'd pool_conc" where
  "pool_conc_start sys pc = \<lparr>pk_sys = sys, pk_lock = free_lock, pk_pc = pc\<rparr>"

definition at_start :: "'d pool_pc \<Rightarrow> bool" where
  "at_start pc \<longleftrightarrow> (\<exists>ord. pc = GpLock ord) \<or> (\<exists>w. pc = WpLock w)"

primrec pc_place :: "'d pool_pc \<Rightarrow> place" where
  "pc_place (GpLock ord) = Outside"
| "pc_place (GpRange ks key) = Reading"
| "pc_place (GpTest k r ks) = Reading"
| "pc_place (GpTake k r) = Reading"
| "pc_place (GpCreate key) = Reading"
| "pc_place (GpDone key r) = Reading"
| "pc_place (GpUnlock res) = Reading"
| "pc_place (GpReturned res) = Outside"
| "pc_place (WpLock w) = Outside"
| "pc_place (WpRun w) = Writing"
| "pc_place WpUnlock = Writing"
| "pc_place WpReturned = Outside"

definition pk_place :: "'d pool_conc \<Rightarrow> nat \<Rightarrow> place" where
  "pk_place s g = pc_place (pk_pc s g)"

lemma pk_place_goto [simp]:
  "pk_place (pk_goto g pc s) = (pk_place s)(g := pc_place pc)"
  "pk_place (s\<lparr>pk_lock := l\<rparr>) = pk_place s"
  "pk_place (s\<lparr>pk_sys := sys\<rparr>) = pk_place s"
  by (auto simp: pk_place_def fun_eq_iff)

subsection \<open>The lock discipline\<close>

lemma pool_micro_moves:
  assumes "pool_micro st createDC ct s g = Some t"
  shows "lock_move g (pk_lock s) (pk_place s) (pk_lock t) (pk_place t)"
proof -
  have stay: "lock_move g l at l (at(g := at g))" for l at using lm_stay [of g l at] by simp
  show ?thesis
    using assms stay [of "pk_lock s" "pk_place s"]
      lm_rlock [of "pk_place s" g "pk_lock s"] lm_wlock [of "pk_place s" g "pk_lock s"]
      lm_runlock [of "pk_place s" g "pk_lock s"] lm_wunlock [of "pk_place s" g "pk_lock s"]
    by (cases "pk_pc s g" rule: pool_pc.exhaust)
      (auto simp: pool_micro_def Let_def pk_place_def [of s g] split: option.splits list.splits prod.splits sum.splits)
qed


interpretation pool_locks: locked "pool_conc_step st createDC ct" pk_lock pk_place for st createDC ct
  by unfold_locales (simp add: pool_conc_step_def pool_micro_moves)

lemma at_start_place: "at_start pc \<Longrightarrow> pc_place pc = Outside"
  by (auto simp: at_start_def)

lemma start_agrees:
  assumes "\<forall>g. at_start (pc g)"
  shows "lock_agrees (pk_lock (pool_conc_start sys pc)) (pk_place (pool_conc_start sys pc))"
proof -
  have "pk_place (pool_conc_start sys pc) g = Outside" for g
    using assms at_start_place [of "pc g"] by (simp add: pk_place_def pool_conc_start_def)
  then have "lock_agrees free_lock (pk_place (pool_conc_start sys pc))" by (rule lock_agrees_free)
  then show ?thesis by (simp add: pool_conc_start_def)
qed

lemma outside_step_keeps:
  assumes "pool_micro st createDC ct s g = Some t" "pk_place s g = Outside"
  shows "pk_sys t = pk_sys s"
proof (cases "pk_pc s g")
  case (GpLock ord)
  then show ?thesis using assms(1) by (auto simp: pool_micro_def Let_def split: option.splits)
next
  case (WpLock w)
  then show ?thesis using assms(1) by (auto simp: pool_micro_def Let_def split: option.splits)
qed (use assms in \<open>simp_all add: pk_place_def pool_micro_def Let_def\<close>)

subsection \<open>\<open>Get\<close> alone\<close>

lemma alone_micro:
  "pool_micro st createDC ct s g = Some t \<Longrightarrow> alone (pool_conc_step st createDC ct) g t u \<Longrightarrow>
     alone (pool_conc_step st createDC ct) g s u"
  by (rule alone_step) (simp add: pool_conc_step_def)

lemma range_alone:
  assumes "pk_pc s g = GpRange ks key" "range_take (cp_idles (ps_pool (pk_sys s))) ks (ps_heap (pk_sys s)) key = (key', ro, h')"
    and "ro = None \<Longrightarrow> alone (pool_conc_step st createDC ct) g (pk_goto g (GpCreate key') s) u"
    and "\<And>r. ro = Some r \<Longrightarrow>
      alone (pool_conc_step st createDC ct) g (pk_goto g (GpDone key' r) (s\<lparr>pk_sys := (pk_sys s)\<lparr>ps_heap := h'\<rparr>\<rparr>)) u"
  shows "alone (pool_conc_step st createDC ct) g s u"
  using assms
proof (induction ks arbitrary: s key)
  case Nil
  then have none: "ro = None" "key' = key" by simp_all
  have "alone (pool_conc_step st createDC ct) g (pk_goto g (GpCreate key) s) u" using Nil(3) [OF none(1)] unfolding none(2) .
  moreover have "pool_micro st createDC ct s g = Some (pk_goto g (GpCreate key) s)"
    using Nil(1) by (simp add: pool_micro_def Let_def)
  ultimately show ?case by (rule alone_micro [rotated])
next
  case (Cons k ks)
  let ?h = "ps_heap (pk_sys s)"
  have again: "alone (pool_conc_step st createDC ct) g (pk_goto g (GpRange ks key1) s) u"
    if "range_take (cp_idles (ps_pool (pk_sys s))) ks ?h key1 = (key', ro, h')" for key1
    by (rule Cons.IH [where key = key1]) (use that Cons.prems(3,4) in simp_all)
  show ?case
  proof (cases "gm_get (cp_idles (ps_pool (pk_sys s))) k")
    case None
    have "pool_micro st createDC ct s g = Some (pk_goto g (GpRange ks key) s)"
      using Cons.prems(1) None by (simp add: pool_micro_def Let_def)
    moreover have "alone (pool_conc_step st createDC ct) g (pk_goto g (GpRange ks key) s) u"
      using Cons.prems(2) None by (intro again) simp
    ultimately show ?thesis by (rule alone_micro)
  next
    case (Some r)
    have test: "pool_micro st createDC ct s g = Some (pk_goto g (GpTest k r ks) s)"
      using Cons.prems(1) Some by (simp add: pool_micro_def Let_def)
    have "alone (pool_conc_step st createDC ct) g (pk_goto g (GpTest k r ks) s) u"
    proof (cases "take_check (?h ! r)")
      case True
      have res: "key' = k" "ro = Some r" "h' = ?h[r := take_set (?h ! r)]"
        using Cons.prems(2) Some True by (simp_all add: pool_take_def TakeConn_halves)
      have "alone (pool_conc_step st createDC ct) g (pk_goto g (GpTake k r) s) u"
        using Cons.prems(4) [OF res(2)] unfolding res(1)
        by (rule alone_micro [rotated]) (simp add: pool_micro_def Let_def res(3))
      then show ?thesis
        by (rule alone_micro [rotated]) (simp add: pool_micro_def Let_def True)
    next
      case False
      have "range_take (cp_idles (ps_pool (pk_sys s))) ks ?h k = (key', ro, h')"
        using Cons.prems(2) Some False by (simp add: pool_take_def TakeConn_halves)
      from again [OF this] show ?thesis
        by (rule alone_micro [rotated]) (simp add: pool_micro_def Let_def False)
    qed
    with test show ?thesis by (rule alone_micro)
  qed
qed


lemma got_alone:
  assumes "pk_pc s g = GpDone key r" "get_done key r (ps_heap (pk_sys s)) (ps_pool (pk_sys s)) = p" "ps_heap (pk_sys s) = h"
  shows "alone (pool_conc_step st createDC ct) g s
    (pk_goto g (GpReturned (Inr r)) (s\<lparr>pk_sys := \<lparr>ps_pool = p, ps_heap = h\<rparr>, pk_lock := RUnlock g (pk_lock s)\<rparr>))"
  by (rule alone_micro [where t = "pk_goto g (GpUnlock (Inr r)) (s\<lparr>pk_sys := \<lparr>ps_pool = p, ps_heap = h\<rparr>\<rparr>)"],
      use assms in \<open>simp add: pool_micro_def Let_def\<close>, rule alone_micro [OF _ alone_refl], simp add: pool_micro_def Let_def)

lemma create_alone:
  assumes "pk_pc s g = GpCreate key"
    "get_create st createDC ct key (ps_pool (pk_sys s)) (ps_heap (pk_sys s)) = (res, p, h)"
  shows "alone (pool_conc_step st createDC ct) g s
    (pk_goto g (GpReturned res) (s\<lparr>pk_sys := \<lparr>ps_pool = p, ps_heap = h\<rparr>, pk_lock := RUnlock g (pk_lock s)\<rparr>))"
proof -
  obtain res1 p1 h1 where loop: "create_loop st createDC ct 5 (ps_pool (pk_sys s)) (ps_heap (pk_sys s)) = (res1, p1, h1)"
    using prod_cases3 by blast
  let ?s = "s\<lparr>pk_sys := \<lparr>ps_pool = p1, ps_heap = h1\<rparr>\<rparr>"
  show ?thesis
  proof (cases res1)
    case (Inl e)
    then have "res = Inl e" "p = p1" "h = h1" using assms(2) loop by (simp_all add: get_create_def)
    then show ?thesis
      by (intro alone_micro [OF _ alone_micro [OF _ alone_refl], where t = "pk_goto g (GpUnlock (Inl e)) ?s"])
        (use assms(1) loop Inl in \<open>simp_all add: pool_micro_def Let_def\<close>)
  next
    case (Inr r)
    then have res: "res = Inr r" "p = get_done key r h1 p1" "h = h1" using assms(2) loop by (auto simp: get_create_def)
    have "pool_micro st createDC ct s g = Some (pk_goto g (GpDone key r) ?s)"
      using assms(1) loop Inr by (simp add: pool_micro_def Let_def)
    from alone_micro [OF this got_alone] res show ?thesis by simp
  qed
qed



subsection \<open>Who can be inside together\<close>

lemma pool_micro_other: "pool_micro st createDC ct s g' = Some t \<Longrightarrow> g \<noteq> g' \<Longrightarrow> pk_pc t g = pk_pc s g"
  by (cases "pk_pc s g'" rule: pool_pc.exhaust)
    (auto simp: pool_micro_def Let_def split: option.splits list.splits prod.splits sum.splits)


subsection \<open>Two calls of \<open>Get\<close>\<close>

primrec pool_schedule ::
  "string \<Rightarrow> (string \<Rightarrow> go_error + 'd) \<Rightarrow> ChannelType \<Rightarrow> 'd pool_conc \<Rightarrow> nat list \<Rightarrow> 'd pool_conc option" where
  "pool_schedule st createDC ct s [] = Some s"
| "pool_schedule st createDC ct s (g # gs) =
     (case pool_micro st createDC ct s g of None \<Rightarrow> None | Some t \<Rightarrow> pool_schedule st createDC ct t gs)"

lemma pool_schedule_run: "pool_schedule st createDC ct s gs = Some t \<Longrightarrow> lrun (pool_conc_step st createDC ct) s gs t"
  by (induction gs arbitrary: s) (auto simp: pool_conc_step_def intro: lrun_Cons split: option.splits)


lemma two_tests:
  assumes "lk_writer (pk_lock s) = None" "g1 \<noteq> g2" "pk_pc s g1 = GpLock (k # ks1)" "pk_pc s g2 = GpLock (k # ks2)"
    and "gm_get (cp_idles (ps_pool (pk_sys s))) k = Some r" "c_status (ps_heap (pk_sys s) ! r) = Idle"
  shows "\<exists>l. pool_schedule st createDC ct s [g1, g1, g1, g2, g2, g2] =
      Some (pk_goto g2 (GpTake k r) (pk_goto g1 (GpTake k r) (s\<lparr>pk_lock := l\<rparr>)))"
  using assms by (simp add: pool_micro_def Let_def RLock_def take_check_def) blast

lemma two_takes:
  assumes "g1 \<noteq> g2" "pk_pc s g1 = GpTake k r" "pk_pc s g2 = GpTake k r" "r < length (ps_heap (pk_sys s))"
  shows "pool_schedule st createDC ct s [g1, g2] =
    Some (pk_goto g2 (GpDone k r) (pk_goto g1 (GpDone k r)
      (s\<lparr>pk_sys := (pk_sys s)\<lparr>ps_heap := (ps_heap (pk_sys s))[r := take_set (ps_heap (pk_sys s) ! r)]\<rparr>\<rparr>)))"
  using assms by (simp add: pool_micro_def Let_def take_set_def)

lemma two_returns:
  assumes "g1 \<noteq> g2" "pk_pc s g1 = GpDone k r" "pk_pc s g2 = GpDone k r"
  shows "\<exists>t. pool_schedule st createDC ct s [g1, g2, g1, g2] = Some t
    \<and> pk_pc t g1 = GpReturned (Inr r) \<and> pk_pc t g2 = GpReturned (Inr r) \<and> ps_heap (pk_sys t) = ps_heap (pk_sys s)"
  using assms by (simp add: pool_micro_def Let_def)

text \<open>
  C10: \<open>Get\<close> holds the lock for reading while it takes a channel, so two calls can be given the same one: when
  both visit the same idle channel first, there is an interleaving in which both pass the test of \<open>TakeConn\<close>
  before either changes the status; both then stand at the assignments to the two maps at the same time, and
  both return the same channel, which from then on carries the bytes of two connections.
\<close>

theorem two_gets_share_a_channel:
  assumes "lk_writer (pk_lock s) = None" "g1 \<noteq> g2"
    and "pk_pc s g1 = GpLock (k # ks1)" "pk_pc s g2 = GpLock (k # ks2)"
    and "gm_get (cp_idles (ps_pool (pk_sys s))) k = Some r" "r < length (ps_heap (pk_sys s))"
    and "c_status (ps_heap (pk_sys s) ! r) = Idle"
  shows "\<exists>gs u gs' t. lrun (pool_conc_step st createDC ct) s gs u \<and> pk_pc u g1 = GpDone k r \<and> pk_pc u g2 = GpDone k r
    \<and> lrun (pool_conc_step st createDC ct) u gs' t
    \<and> pk_pc t g1 = GpReturned (Inr r) \<and> pk_pc t g2 = GpReturned (Inr r) \<and> c_status (ps_heap (pk_sys t) ! r) = Active"
proof -
  obtain l where s1: "pool_schedule st createDC ct s [g1, g1, g1, g2, g2, g2] =
      Some (pk_goto g2 (GpTake k r) (pk_goto g1 (GpTake k r) (s\<lparr>pk_lock := l\<rparr>)))" (is "_ = Some ?s1")
    using two_tests [OF assms(1-5,7)] by blast
  have "pk_pc ?s1 g1 = GpTake k r" "pk_pc ?s1 g2 = GpTake k r" "r < length (ps_heap (pk_sys ?s1))"
    using assms(2,6) by simp_all
  from two_takes [OF assms(2) this] obtain u where u: "pool_schedule st createDC ct ?s1 [g1, g2] = Some u"
    "pk_pc u g1 = GpDone k r" "pk_pc u g2 = GpDone k r" "c_status (ps_heap (pk_sys u) ! r) = Active"
    using assms(2,6) by (simp add: take_set_def)
  obtain t where t: "pool_schedule st createDC ct u [g1, g2, g1, g2] = Some t"
    "pk_pc t g1 = GpReturned (Inr r)" "pk_pc t g2 = GpReturned (Inr r)" "ps_heap (pk_sys t) = ps_heap (pk_sys u)"
    using two_returns [OF assms(2) u(2,3)] by blast
  have "lrun (pool_conc_step st createDC ct) s ([g1, g1, g1, g2, g2, g2] @ [g1, g2]) u"
    by (rule lrun_append [OF pool_schedule_run [OF u(1)] pool_schedule_run [OF s1]])
  with u(2-4) t(2-4) pool_schedule_run [OF t(1)] show ?thesis by metis
qed

text \<open>The witnesses: a pool with one idle channel, which two goroutines ask for.\<close>

definition race_pool :: "unit pool_sys" where
  "race_pool =
     \<lparr>ps_pool = (NewChannelPool ''u'' [] ''b'' SDPTypeOffer)\<lparr>cp_idles := [(''web:1'', 0)]\<rparr>,
      ps_heap = [NewOfferChannel '''' ''u'' () (NewLabel Web 1)]\<rparr>"

definition race_start :: "unit pool_conc" where
  "race_start = pool_conc_start race_pool (\<lambda>g. if g < 2 then GpLock [''web:1''] else WpLock (PwRelease ''web:1''))"

lemmas race_defs = race_start_def race_pool_def pool_conc_start_def free_lock_def NewChannelPool_def NewOfferChannel_def newChannel_def

theorem two_gets_share_a_channel_witness:
  "\<exists>gs t. lrun (pool_conc_step [] (\<lambda>l. Inr ()) Web) race_start gs t
     \<and> pk_pc t 0 = GpReturned (Inr 0) \<and> pk_pc t 1 = GpReturned (Inr 0)"
proof -
  obtain gs u gs' t where run: "lrun (pool_conc_step [] (\<lambda>l. Inr ()) Web) race_start gs u"
    "lrun (pool_conc_step [] (\<lambda>l. Inr ()) Web) u gs' t" "pk_pc t 0 = GpReturned (Inr 0)" "pk_pc t 1 = GpReturned (Inr 0)"
    using two_gets_share_a_channel [of race_start 0 1 "''web:1''" "[]" "[]" 0 "[]" "\<lambda>l. Inr ()" Web]
    by (auto simp: race_defs)
  from lrun_append [OF run(2,1)] run(3,4) show ?thesis by blast
qed




subsection \<open>Every call returns\<close>

text \<open>
  The invariant of the pool survives also the races: what two calls of \<open>Get\<close> break is the exclusive use of a
  channel, not the shape of the pool.
\<close>

fun pool_pc_ok :: "'d heap \<Rightarrow> 'd pool_pc \<Rightarrow> bool" where
  "pool_pc_ok h (GpTest k r ks) \<longleftrightarrow> r < length h"
| "pool_pc_ok h (GpTake k r) \<longleftrightarrow> r < length h"
| "pool_pc_ok h (GpDone k r) \<longleftrightarrow> r < length h"
| "pool_pc_ok h (WpLock (PwLoop r)) \<longleftrightarrow> r < length h"
| "pool_pc_ok h (WpRun (PwLoop r)) \<longleftrightarrow> r < length h"
| "pool_pc_ok h pc \<longleftrightarrow> True"

lemma pool_pc_ok_grow: "pool_pc_ok h pc \<Longrightarrow> length h \<le> length h' \<Longrightarrow> pool_pc_ok h' pc"
  by (cases "(h, pc)" rule: pool_pc_ok.cases) auto

abbreviation sys_inv :: "'d pool_sys \<Rightarrow> bool" where
  "sys_inv sys \<equiv> pool_inv (ps_pool sys) (ps_heap sys)"

lemma take_set_inv: "chan_inv c \<Longrightarrow> chan_inv (take_set c)" "c_label (take_set c) = c_label c"
  by (auto simp: take_set_def chan_inv_def bufio_NewReader_def NewChannelReader_def reader_ok_def split: option.splits)

lemma create_loop_inv:
  assumes "pool_inv p h" "create_loop st createDC ct 5 p h = (res, p', h')"
  shows "pool_inv p' h' \<and> length h \<le> length h' \<and> (\<forall>r. res = Inr r \<longrightarrow> r < length h')"
  using assms create_loop_Suc [of st createDC ct 4 p h] pool_inv_append [OF assms(1) new_taken(1)]
  by (auto simp: Let_def split: sum.splits)

lemma pool_write_inv:
  assumes "sys_inv sys" "pool_pc_ok (ps_heap sys) (WpRun w)"
  obtains sys' where "pool_write st w sys = Some sys'" "sys_inv sys'" "length (ps_heap sys) \<le> length (ps_heap sys')"
proof (cases w)
  case (PwOpen lab dc)
  obtain e p h where open_ch: "OnChannelOpen st (ps_pool sys) (ps_heap sys) lab dc = (e, p, h)" using prod_cases3 by blast
  then have "length (ps_heap sys) \<le> length h" by (auto simp: OnChannelOpen_def split: sum.splits if_splits)
  with OnChannelOpen_inv [OF assms(1) open_ch] open_ch PwOpen that show thesis by (simp add: pool_write_def)
next
  case (PwRelease lab)
  then show thesis using OnRelease_inv [OF assms(1), of lab] that by (auto simp: pool_write_def)
next
  case (PwLoop r)
  then show thesis using loop_release_inv [OF assms(1), of r] assms(2) that by (simp add: pool_write_def)
qed

definition pool_conc_inv :: "'d pool_conc \<Rightarrow> bool" where
  "pool_conc_inv s \<longleftrightarrow> lock_agrees (pk_lock s) (pk_place s) \<and> sys_inv (pk_sys s)
     \<and> (\<forall>g. pool_pc_ok (ps_heap (pk_sys s)) (pk_pc s g))"

text \<open>How many steps a goroutine has left at most.\<close>

primrec pc_rank :: "'d pool_pc \<Rightarrow> nat" where
  "pc_rank (GpLock ord) = 2 * length ord + 5"
| "pc_rank (GpRange ks key) = 2 * length ks + 4"
| "pc_rank (GpTest k r ks) = 2 * length ks + 5"
| "pc_rank (GpTake k r) = 3"
| "pc_rank (GpCreate key) = 3"
| "pc_rank (GpDone key r) = 2"
| "pc_rank (GpUnlock res) = 1"
| "pc_rank (GpReturned res) = 0"
| "pc_rank (WpLock w) = 3"
| "pc_rank (WpRun w) = 2"
| "pc_rank WpUnlock = 1"
| "pc_rank WpReturned = 0"

lemma pool_micro_rank: "pool_micro st createDC ct s g = Some t \<Longrightarrow> pc_rank (pk_pc t g) < pc_rank (pk_pc s g)"
  by (cases "pk_pc s g" rule: pool_pc.exhaust)
    (auto simp: pool_micro_def Let_def split: option.splits list.splits prod.splits sum.splits)

lemma pool_micro_inv:
  assumes "pool_micro st createDC ct s g = Some t" "sys_inv (pk_sys s)" "pool_pc_ok (ps_heap (pk_sys s)) (pk_pc s g)"
  shows "sys_inv (pk_sys t) \<and> length (ps_heap (pk_sys s)) \<le> length (ps_heap (pk_sys t))
    \<and> pool_pc_ok (ps_heap (pk_sys t)) (pk_pc t g)"
proof (cases "pk_pc s g" rule: pool_pc.exhaust)
  case (GpRange ks key)
  then show ?thesis using assms(1,2)
    by (cases ks) (auto simp: pool_micro_def Let_def pool_inv_def split: option.splits)
next
  case (GpTake k r)
  then have "chan_inv (ps_heap (pk_sys s) ! r)" using assms(2,3) by (simp add: pool_inv_def)
  with GpTake show ?thesis
    using assms pool_inv_upd [OF assms(2) take_set_inv(1) take_set_inv(2), of r]
    by (auto simp: pool_micro_def Let_def)
next
  case (GpCreate key)
  obtain res p h where loop: "create_loop st createDC ct 5 (ps_pool (pk_sys s)) (ps_heap (pk_sys s)) = (res, p, h)"
    using prod_cases3 by blast
  with create_loop_inv [OF assms(2) loop] GpCreate assms(1) show ?thesis
    by (cases res) (auto simp: pool_micro_def Let_def)
next
  case (GpDone key r)
  then show ?thesis using assms pool_inv_done [OF assms(2), of r key] by (auto simp: pool_micro_def Let_def)
next
  case (WpLock w)
  then show ?thesis using assms by (cases w) (auto simp: pool_micro_def Let_def split: option.splits)
next
  case (WpRun w)
  then have "pool_pc_ok (ps_heap (pk_sys s)) (WpRun w)" using assms(3) by simp
  then obtain sys' where "pool_write st w (pk_sys s) = Some sys'" "sys_inv sys'" "length (ps_heap (pk_sys s)) \<le> length (ps_heap sys')"
    by (rule pool_write_inv [OF assms(2)])
  with WpRun assms(1) show ?thesis by (auto simp: pool_micro_def Let_def)
qed (use assms in \<open>auto simp: pool_micro_def Let_def split: option.splits\<close>)

lemma pool_conc_step_inv:
  assumes "pool_conc_step st createDC ct s g t" "pool_conc_inv s"
  shows "pool_conc_inv t"
proof -
  have micro: "pool_micro st createDC ct s g = Some t" using assms(1) by (simp add: pool_conc_step_def)
  have inv: "sys_inv (pk_sys s)" "\<And>g. pool_pc_ok (ps_heap (pk_sys s)) (pk_pc s g)" "lock_agrees (pk_lock s) (pk_place s)"
    using assms(2) by (simp_all add: pool_conc_inv_def)
  note here = pool_micro_inv [OF micro inv(1) inv(2)]
  have "pool_pc_ok (ps_heap (pk_sys t)) (pk_pc t g')" for g'
    using here pool_pc_ok_grow [OF inv(2), of "ps_heap (pk_sys t)" g'] pool_micro_other [OF micro, of g']
    by (cases "g' = g") simp_all
  with here pool_locks.agrees_step [OF assms(1) inv(3)] show ?thesis by (simp add: pool_conc_inv_def)
qed

text \<open>No deadlock: whoever is inside can move, and when nobody is inside whoever waits can enter.\<close>

lemma pool_no_deadlock:
  assumes "pool_conc_inv s" "pc_rank (pk_pc s g) \<noteq> 0"
  shows "\<exists>g'. pool_micro st createDC ct s g' \<noteq> None"
proof (cases "\<exists>g'. pk_place s g' \<noteq> Outside")
  case True
  then obtain g' where inside: "pc_place (pk_pc s g') \<noteq> Outside" by (auto simp: pk_place_def)
  have inv: "sys_inv (pk_sys s)" "pool_pc_ok (ps_heap (pk_sys s)) (pk_pc s g')" using assms(1) by (simp_all add: pool_conc_inv_def)
  have "pool_micro st createDC ct s g' \<noteq> None"
  proof (cases "pk_pc s g'" rule: pool_pc.exhaust)
    case (WpRun w)
    then have "pool_pc_ok (ps_heap (pk_sys s)) (WpRun w)" using inv(2) by simp
    then obtain sys' where "pool_write st w (pk_sys s) = Some sys'" by (rule pool_write_inv [OF inv(1)])
    then show ?thesis using WpRun by (simp add: pool_micro_def Let_def)
  qed (use inside in \<open>auto simp: pool_micro_def Let_def split: option.splits list.splits prod.splits sum.splits\<close>)
  then show ?thesis by blast
next
  case False
  then have out: "pk_place s g' = Outside" for g' by blast
  have "lk_readers (pk_lock s) = {}" "lk_writer (pk_lock s) = None"
  proof -
    have agrees: "lock_agrees (pk_lock s) (pk_place s)" using assms(1) by (simp add: pool_conc_inv_def)
    show "lk_readers (pk_lock s) = {}" using lock_agreesD(1) [OF agrees] out by auto
    show "lk_writer (pk_lock s) = None" using lock_agreesD(2) [OF agrees] out by (cases "lk_writer (pk_lock s)") auto
  qed
  then have "pool_micro st createDC ct s g \<noteq> None"
    using out [of g] assms(2) by (cases "pk_pc s g") (auto simp: pk_place_def pool_micro_def Let_def RLock_def WLock_def)
  then show ?thesis by blast
qed


lemma pool_rank_run:
  assumes "lrun (pool_conc_step st createDC ct) s gs t" "\<forall>g \<ge> n. pc_rank (pk_pc s g) = 0"
  shows "(\<forall>g \<ge> n. pc_rank (pk_pc t g) = 0) \<and> length gs + (\<Sum>g<n. pc_rank (pk_pc t g)) \<le> (\<Sum>g<n. pc_rank (pk_pc s g))"
  using assms
proof (induction rule: lrun.induct)
  case (lrun_next s ls t l u)
  then have micro: "pool_micro st createDC ct t l = Some u" by (simp add: pool_conc_step_def)
  have IH: "\<forall>g \<ge> n. pc_rank (pk_pc t g) = 0"
    "length ls + (\<Sum>g<n. pc_rank (pk_pc t g)) \<le> (\<Sum>g<n. pc_rank (pk_pc s g))" using lrun_next.IH lrun_next.prems by simp_all
  note less = pool_micro_rank [OF micro]
  have keep: "pk_pc u g = pk_pc t g" if "g \<noteq> l" for g by (rule pool_micro_other [OF micro that])
  have l: "l < n" using IH(1) less by (metis not_le not_less0)
  have "pc_rank (pk_pc u g) \<le> pc_rank (pk_pc t g)" for g using keep [of g] less by (cases "g = l") simp_all
  then have "(\<Sum>g<n. pc_rank (pk_pc u g)) < (\<Sum>g<n. pc_rank (pk_pc t g))"
    by (intro sum_strict_mono_ex1) (use less l in auto)
  moreover have "pc_rank (pk_pc u g) = 0" if "n \<le> g" for g using keep [of g] IH(1) l that by simp
  ultimately show ?case using IH(2) by simp
qed simp



definition two_getters :: "nat \<Rightarrow> unit pool_pc" where
  "two_getters g = (if g < 2 then GpLock [''web:1''] else WpReturned)"


end
