(* ===== verification/Proto.thy ===== *)
theory Proto
  imports Stderr
begin

section \<open>Messages of the signalling protocol (\<open>proto/wsl-sig.go\<close>)\<close>

text \<open>
  A websocket client announces itself with a \<open>WsHeader\<close> and then exchanges \<open>Packet\<close>s, each with at most
  a session description and at most an ICE candidate.  Both payloads are values of the WebRTC library
  that the program only passes on; they are opaque texts here, the description with its type.
\<close>

record WsHeader =
  wh_type :: SDPType
  wh_id :: string
  wh_name :: string

record ProtoClient =
  pc_clientId :: string
  pc_peerId :: string

record SessionDescription =
  sd_type :: SDPType
  sd_sdp :: string

type_synonym ICECandidate = string

record Packet =
  pk_from :: ProtoClient
  pk_to :: ProtoClient
  pk_sdp :: "SessionDescription option"
  pk_ice :: "ICECandidate option"

end
