(* ===== verification/Ws_Sig.thy ===== *)
theory Ws_Sig
  imports Proto
begin

section \<open>The signalling client (\<open>net/conn/ws-sig.go\<close>, \<open>ws-sig-backend.go\<close>, \<open>ws-sig-frontend.go\<close>)\<close>

text \<open>
  A peer talks to the signalling server through a \<open>WsSigClient\<close>: \<open>Run\<close> reads packets from the websocket
  and sorts their payloads into one \<open>Session\<close> per local peer id, from whose channels the peers receive.
  The websocket is library code: dialling, reading and writing are arguments.  \<open>GetSession\<close> refers to
  an identifier \<open>cid\<close> that is not declared in the package; it is an argument here.
\<close>

record ClientPeer =
  cpr_clientId :: string
  cpr_peerId :: string

record SigSession =
  sg_id :: string
  sg_closed :: bool
  sg_sdp :: "SessionDescription gochan"
  sg_ice :: "ICECandidate gochan"

definition NewSession :: "string \<Rightarrow> SigSession" where
  "NewSession sid = \<lparr>sg_id = sid, sg_closed = False, sg_sdp = make_chan 1, sg_ice = make_chan 5\<rparr>"

text \<open>Closing a closed channel panics, which is \<open>None\<close>; a nil session is ignored by the caller's pattern.\<close>

definition Session_Close :: "SigSession \<Rightarrow> SigSession option" where
  "Session_Close s =
     (case chan_close (sg_ice s) of
        None \<Rightarrow> None
      | Some i \<Rightarrow>
          (case chan_close (sg_sdp s) of
             None \<Rightarrow> None
           | Some d \<Rightarrow> Some (s\<lparr>sg_closed := True, sg_ice := i, sg_sdp := d\<rparr>)))"

definition Session_IsClose :: "SigSession option \<Rightarrow> bool" where
  "Session_IsClose s = (case s of None \<Rightarrow> True | Some x \<Rightarrow> sg_closed x)"

text \<open>
  \<open>wc_newClient\<close> is the channel of the backend client whose \<open>OnSession\<close> callback announces new peers; the
  frontend client sets no callback.  \<open>wc_conn\<close> is nil before \<open>Run\<close> has dialled.
\<close>

record WsSigClient =
  wc_wsURL :: string
  wc_conn :: "nat option"
  wc_id :: string
  wc_cluster :: string
  wc_type :: SDPType
  wc_sessions :: "(string, SigSession) gomap"
  wc_newClient :: "ClientPeer gochan option"
  wc_cancelled :: bool
  wc_isClose :: bool

definition NewWsSigClient :: "string \<Rightarrow> string \<Rightarrow> string \<Rightarrow> WsSigClient" where
  "NewWsSigClient cid wsURL clusterName =
     \<lparr>wc_wsURL = wsURL, wc_conn = None, wc_id = cid, wc_cluster = clusterName, wc_type = SDPTypeOther 0,
      wc_sessions = [], wc_newClient = None, wc_cancelled = False, wc_isClose = True\<rparr>"

definition NewWsBackendSigClient :: "string \<Rightarrow> string \<Rightarrow> string \<Rightarrow> WsSigClient" where
  "NewWsBackendSigClient cid wsURL clusterName =
     (NewWsSigClient cid wsURL clusterName)\<lparr>wc_newClient := Some (make_chan 1), wc_type := SDPTypeAnswer\<rparr>"

definition NewWsFrontendSigClient :: "string \<Rightarrow> string \<Rightarrow> string \<Rightarrow> WsSigClient" where
  "NewWsFrontendSigClient cid wsURL clusterName =
     (NewWsSigClient cid wsURL clusterName)\<lparr>wc_type := SDPTypeOffer\<rparr>"

text \<open>
  \<open>CloseSession\<close> also schedules \<open>expire_session\<close> to run five seconds later.
\<close>

definition CloseSession :: "WsSigClient \<Rightarrow> string \<Rightarrow> WsSigClient option" where
  "CloseSession c sid =
     (case gm_get (wc_sessions c) sid of
        None \<Rightarrow> Some c
      | Some sess \<Rightarrow>
          (case Session_Close sess of
             None \<Rightarrow> None
           | Some sess' \<Rightarrow> Some (c\<lparr>wc_sessions := gm_put sid sess' (wc_sessions c)\<rparr>)))"

definition expire_session :: "WsSigClient \<Rightarrow> string \<Rightarrow> WsSigClient" where
  "expire_session c sid = c\<lparr>wc_sessions := gm_del sid (wc_sessions c)\<rparr>"

text \<open>\<open>OnSession\<close> of the backend client: \<open>None\<close> when the send blocks (with the client's lock held).\<close>

definition OnSession :: "WsSigClient \<Rightarrow> string \<Rightarrow> string \<Rightarrow> WsSigClient option" where
  "OnSession c sid cid =
     (case wc_newClient c of
        None \<Rightarrow> Some c
      | Some ch \<Rightarrow>
          (case chan_send ch \<lparr>cpr_clientId = cid, cpr_peerId = sid\<rparr> of
             Sent ch' \<Rightarrow> Some (c\<lparr>wc_newClient := Some ch'\<rparr>)
           | _ \<Rightarrow> None))"

definition GetSession :: "string \<Rightarrow> WsSigClient \<Rightarrow> string \<Rightarrow> (SigSession \<times> WsSigClient) option" where
  "GetSession cid c sid =
     (case gm_get (wc_sessions c) sid of
        Some sess \<Rightarrow> Some (sess, c)
      | None \<Rightarrow>
          (case OnSession c sid cid of
             None \<Rightarrow> None
           | Some c1 \<Rightarrow>
               (let sess = NewSession sid
                in Some (sess, c1\<lparr>wc_sessions := gm_put sid sess (wc_sessions c1)\<rparr>))))"

datatype 's put_result = PutOk 's | PutBlocks | PutPanics

definition OnSdp :: "SigSession \<Rightarrow> SessionDescription option \<Rightarrow> SigSession put_result" where
  "OnSdp s sdp =
     (case sdp of
        None \<Rightarrow> PutOk s
      | Some d \<Rightarrow>
          if sg_closed s then PutOk s
          else (case chan_send (sg_sdp s) d of
                  Sent c \<Rightarrow> PutOk (s\<lparr>sg_sdp := c\<rparr>)
                | SendBlocks \<Rightarrow> PutBlocks
                | SendPanics \<Rightarrow> PutPanics))"

definition OnIceCandidate :: "SigSession \<Rightarrow> ICECandidate option \<Rightarrow> SigSession put_result" where
  "OnIceCandidate s ice =
     (case ice of
        None \<Rightarrow> PutOk s
      | Some i \<Rightarrow>
          if sg_closed s then PutOk s
          else (case chan_send (sg_ice s) i of
                  Sent c \<Rightarrow> PutOk (s\<lparr>sg_ice := c\<rparr>)
                | SendBlocks \<Rightarrow> PutBlocks
                | SendPanics \<Rightarrow> PutPanics))"

text \<open>Writing to a client whose \<open>conn\<close> is still nil dereferences nil: \<open>None\<close>.\<close>

definition SendPacket ::
  "(nat \<Rightarrow> Packet \<Rightarrow> go_error option) \<Rightarrow> WsSigClient \<Rightarrow> Packet \<Rightarrow> go_error option option" where
  "SendPacket writeJSON c p = (case wc_conn c of None \<Rightarrow> None | Some conn \<Rightarrow> Some (writeJSON conn p))"

definition RemoteSdp :: "string \<Rightarrow> WsSigClient \<Rightarrow> string \<Rightarrow> (SessionDescription gochan \<times> WsSigClient) option" where
  "RemoteSdp cid c sid = map_option (\<lambda>(s, c'). (sg_sdp s, c')) (GetSession cid c sid)"

definition RemoteIceCandidates :: "string \<Rightarrow> WsSigClient \<Rightarrow> string \<Rightarrow> (ICECandidate gochan \<times> WsSigClient) option" where
  "RemoteIceCandidates cid c sid = map_option (\<lambda>(s, c'). (sg_ice s, c')) (GetSession cid c sid)"

text \<open>
  The two deliveries of a packet into an open session: the session after both, the session after the
  first one when the goroutine hangs on a full channel, or a panic.
\<close>

datatype deliver_result = Delivered SigSession | DeliverHangs SigSession | DeliverPanics

definition deliver :: "SigSession \<Rightarrow> Packet \<Rightarrow> deliver_result" where
  "deliver sess packet =
     (case OnIceCandidate sess (pk_ice packet) of
        PutPanics \<Rightarrow> DeliverPanics
      | PutBlocks \<Rightarrow> DeliverHangs sess
      | PutOk s1 \<Rightarrow>
          (case OnSdp s1 (pk_sdp packet) of
             PutPanics \<Rightarrow> DeliverPanics
           | PutBlocks \<Rightarrow> DeliverHangs s1
           | PutOk s2 \<Rightarrow> Delivered s2))"

definition put_session :: "WsSigClient \<Rightarrow> string \<Rightarrow> SigSession \<Rightarrow> WsSigClient" where
  "put_session c sid s = c\<lparr>wc_sessions := gm_put sid s (wc_sessions c)\<rparr>"

text \<open>One round of the loop of \<open>Run\<close> for a packet that was read.\<close>

datatype run_round = RunNext WsSigClient | RunStuck WsSigClient | RunPanic

definition Run_packet :: "string \<Rightarrow> WsSigClient \<Rightarrow> Packet \<Rightarrow> run_round" where
  "Run_packet cid c packet =
     (let sid = pc_peerId (pk_to packet) in
      if sid = '''' then RunNext c
      else
        (case GetSession cid c sid of
           None \<Rightarrow> RunStuck c
         | Some (sess, c1) \<Rightarrow>
             if sg_closed sess then RunNext c1
             else
               (case deliver sess packet of
                  DeliverPanics \<Rightarrow> RunPanic
                | DeliverHangs s1 \<Rightarrow> RunStuck (put_session c1 sid s1)
                | Delivered s2 \<Rightarrow> RunNext (put_session c1 sid s2))))"

text \<open>
  The loop over what each round meets: a cancelled context, a read timeout, a read error, or a packet.
  The recovered panic returns no error.
\<close>

datatype run_event = EvDone | EvTimeout | EvError go_error | EvPacket Packet

datatype run_end = RunReturn "go_error option" | RunWaiting | RunHangs

fun Run_loop :: "string \<Rightarrow> WsSigClient \<Rightarrow> run_event list \<Rightarrow> WsSigClient \<times> run_end" where
  "Run_loop cid c [] = (c, RunWaiting)"
| "Run_loop cid c (EvDone # evs) = (c\<lparr>wc_isClose := True, wc_cancelled := True\<rparr>, RunReturn (Some Canceled))"
| "Run_loop cid c (EvTimeout # evs) = Run_loop cid c evs"
| "Run_loop cid c (EvError e # evs) = (c\<lparr>wc_isClose := True, wc_cancelled := True\<rparr>, RunReturn (Some e))"
| "Run_loop cid c (EvPacket p # evs) =
     (case Run_packet cid c p of
        RunNext c' \<Rightarrow> Run_loop cid c' evs
      | RunStuck c' \<Rightarrow> (c', RunHangs)
      | RunPanic \<Rightarrow> (c\<lparr>wc_isClose := True, wc_cancelled := True\<rparr>, RunReturn None))"

definition Run ::
  "string \<Rightarrow> WsSigClient \<Rightarrow> go_error + nat \<Rightarrow> (nat \<Rightarrow> WsHeader \<Rightarrow> go_error option) \<Rightarrow> run_event list
   \<Rightarrow> WsSigClient \<times> run_end" where
  "Run cid c dial writeHeader evs =
     (case dial of
        Inl e \<Rightarrow> (c, RunReturn (Some e))
      | Inr conn \<Rightarrow>
          (let c1 = c\<lparr>wc_conn := Some conn, wc_cancelled := False\<rparr>;
               header = \<lparr>wh_type = wc_type c1, wh_id = wc_id c1, wh_name = wc_cluster c1\<rparr>
           in case writeHeader conn header of
                Some e \<Rightarrow> (c1\<lparr>wc_isClose := True, wc_cancelled := True\<rparr>, RunReturn (Some e))
              | None \<Rightarrow> Run_loop cid (c1\<lparr>wc_isClose := False\<rparr>) evs))"

definition WsSigClient_Close :: "WsSigClient \<Rightarrow> WsSigClient" where
  "WsSigClient_Close c = (if wc_conn c \<noteq> None then c\<lparr>wc_cancelled := True\<rparr> else c)"

definition WsSigClient_IsClose :: "WsSigClient \<Rightarrow> bool" where
  "WsSigClient_IsClose c = wc_isClose c"

text \<open>The id of the client and the channel of new clients, which a frontend does not have.\<close>

definition WsSigClient_Id :: "WsSigClient \<Rightarrow> string" where
  "WsSigClient_Id c = wc_id c"

definition NewClient :: "WsSigClient \<Rightarrow> ClientPeer gochan option" where
  "NewClient c = wc_newClient c"

definition StatusIdle :: string where "StatusIdle = ''idle''"
definition StatusFetch :: string where "StatusFetch = ''fetch''"
definition StatusKeepalive :: string where "StatusKeepalive = ''kl''"

subsection \<open>The invariant of the sessions\<close>

definition session_ok :: "string \<Rightarrow> SigSession \<Rightarrow> bool" where
  "session_ok sid s \<longleftrightarrow> sg_id s = sid \<and> ch_closed (sg_sdp s) = sg_closed s \<and> ch_closed (sg_ice s) = sg_closed s
     \<and> ch_cap (sg_sdp s) = 1 \<and> ch_cap (sg_ice s) = 5"

definition sig_inv :: "WsSigClient \<Rightarrow> bool" where
  "sig_inv c \<longleftrightarrow> (\<forall>sid s. gm_get (wc_sessions c) sid = Some s \<longrightarrow> session_ok sid s)"

lemma sig_inv_new [simp]:
  "sig_inv (NewWsSigClient i u n)" "sig_inv (NewWsBackendSigClient i u n)" "sig_inv (NewWsFrontendSigClient i u n)"
  by (simp_all add: sig_inv_def NewWsSigClient_def NewWsBackendSigClient_def NewWsFrontendSigClient_def)

lemma session_ok_new [simp]: "session_ok sid (NewSession sid)"
  by (simp add: session_ok_def NewSession_def)

lemma sig_inv_put [simp]: "sig_inv c \<Longrightarrow> session_ok sid s \<Longrightarrow> sig_inv (put_session c sid s)"
  by (simp add: sig_inv_def put_session_def)

lemma OnSession_sessions: "OnSession c sid cid = Some c' \<Longrightarrow> wc_sessions c' = wc_sessions c"
  by (auto simp: OnSession_def split: option.splits send_result.splits)

lemma GetSession_spec:
  assumes "GetSession cid c sid = Some (s, c')"
  shows "gm_get (wc_sessions c') sid = Some s"
    and "sid' \<noteq> sid \<Longrightarrow> gm_get (wc_sessions c') sid' = gm_get (wc_sessions c) sid'"
    and "gm_get (wc_sessions c) sid = Some s0 \<Longrightarrow> s = s0 \<and> c' = c"
    and "sig_inv c \<Longrightarrow> sig_inv c'"
  using assms
  by (auto simp: GetSession_def Let_def sig_inv_def split: option.splits if_splits dest!: OnSession_sessions)

lemma CloseSession_inv: "sig_inv c \<Longrightarrow> CloseSession c sid = Some c' \<Longrightarrow> sig_inv c'"
  by (auto simp: CloseSession_def Session_Close_def sig_inv_def session_ok_def chan_close_def
      split: option.splits if_splits)

lemma expire_inv: "sig_inv c \<Longrightarrow> sig_inv (expire_session c sid)"
  by (simp add: sig_inv_def expire_session_def)

text \<open>The payloads waiting in the session of a peer, and those a list of packets holds for it.\<close>

definition waiting_sdp :: "WsSigClient \<Rightarrow> string \<Rightarrow> SessionDescription list" where
  "waiting_sdp c sid = (case gm_get (wc_sessions c) sid of None \<Rightarrow> [] | Some s \<Rightarrow> ch_buf (sg_sdp s))"

definition waiting_ice :: "WsSigClient \<Rightarrow> string \<Rightarrow> ICECandidate list" where
  "waiting_ice c sid = (case gm_get (wc_sessions c) sid of None \<Rightarrow> [] | Some s \<Rightarrow> ch_buf (sg_ice s))"

definition open_for :: "WsSigClient \<Rightarrow> string \<Rightarrow> bool" where
  "open_for c sid = (case gm_get (wc_sessions c) sid of None \<Rightarrow> True | Some s \<Rightarrow> \<not> sg_closed s)"

definition opt_list :: "'a option \<Rightarrow> 'a list" where
  "opt_list x = (case x of None \<Rightarrow> [] | Some v \<Rightarrow> [v])"

definition sdps_for :: "string \<Rightarrow> Packet list \<Rightarrow> SessionDescription list" where
  "sdps_for sid ps = concat (map (\<lambda>p. if pc_peerId (pk_to p) = sid then opt_list (pk_sdp p) else []) ps)"

definition ices_for :: "string \<Rightarrow> Packet list \<Rightarrow> ICECandidate list" where
  "ices_for sid ps = concat (map (\<lambda>p. if pc_peerId (pk_to p) = sid then opt_list (pk_ice p) else []) ps)"

lemma OnIce_spec:
  assumes "session_ok sid s" "\<not> sg_closed s"
  shows "case OnIceCandidate s ice of
      PutOk s' \<Rightarrow> session_ok sid s' \<and> \<not> sg_closed s' \<and> ch_buf (sg_sdp s') = ch_buf (sg_sdp s)
        \<and> ch_buf (sg_ice s') = ch_buf (sg_ice s) @ opt_list ice
    | PutBlocks \<Rightarrow> True
    | PutPanics \<Rightarrow> False"
  using assms by (auto simp: OnIceCandidate_def chan_send_def session_ok_def opt_list_def split: option.splits)

lemma OnSdp_spec:
  assumes "session_ok sid s" "\<not> sg_closed s"
  shows "case OnSdp s sdp of
      PutOk s' \<Rightarrow> session_ok sid s' \<and> \<not> sg_closed s' \<and> ch_buf (sg_ice s') = ch_buf (sg_ice s)
        \<and> ch_buf (sg_sdp s') = ch_buf (sg_sdp s) @ opt_list sdp
    | PutBlocks \<Rightarrow> True
    | PutPanics \<Rightarrow> False"
  using assms by (auto simp: OnSdp_def chan_send_def session_ok_def opt_list_def split: option.splits)

lemma deliver_spec:
  assumes "session_ok sid s" "\<not> sg_closed s"
  shows "case deliver s p of
      Delivered s' \<Rightarrow> session_ok sid s' \<and> \<not> sg_closed s' \<and> ch_buf (sg_ice s') = ch_buf (sg_ice s) @ opt_list (pk_ice p)
        \<and> ch_buf (sg_sdp s') = ch_buf (sg_sdp s) @ opt_list (pk_sdp p)
    | DeliverHangs s' \<Rightarrow> session_ok sid s'
    | DeliverPanics \<Rightarrow> False"
proof (cases "OnIceCandidate s (pk_ice p)")
  case (PutOk s1)
  then show ?thesis
    using OnIce_spec [OF assms, of "pk_ice p"] OnSdp_spec [of sid s1 "pk_sdp p"]
    by (cases "OnSdp s1 (pk_sdp p)") (auto simp: deliver_def)
qed (use OnIce_spec [OF assms, of "pk_ice p"] assms in \<open>auto simp: deliver_def\<close>)

text \<open>The session that \<open>Run\<close> looks up for a packet: the one stored, or a new one.\<close>

definition session_for :: "WsSigClient \<Rightarrow> string \<Rightarrow> SigSession" where
  "session_for c sid = (case gm_get (wc_sessions c) sid of None \<Rightarrow> NewSession sid | Some s \<Rightarrow> s)"

lemma session_for_facts:
  "waiting_sdp c sid = ch_buf (sg_sdp (session_for c sid))"
  "waiting_ice c sid = ch_buf (sg_ice (session_for c sid))"
  "open_for c sid \<longleftrightarrow> \<not> sg_closed (session_for c sid)"
  "sig_inv c \<Longrightarrow> session_ok sid (session_for c sid)"
  by (auto simp: session_for_def waiting_sdp_def waiting_ice_def open_for_def NewSession_def sig_inv_def
      session_ok_def split: option.split)

lemma GetSession_for:
  assumes "GetSession cid c sid = Some (s, c')"
  shows "s = session_for c sid" "session_for c' sid = s"
  using GetSession_spec(1,3) [OF assms] assms
  by (auto simp: session_for_def GetSession_def Let_def split: option.splits)

lemma Run_packet_no_panic: "sig_inv c \<Longrightarrow> Run_packet cid c p \<noteq> RunPanic"
  using deliver_spec [OF session_for_facts(4), of c "pc_peerId (pk_to p)" p]
  by (auto simp: Run_packet_def Let_def split: option.splits deliver_result.splits dest!: GetSession_for(1))

text \<open>A round that continues: nothing changes, or the addressed session takes the payloads.\<close>

lemma Run_packet_next_cases:
  assumes "sig_inv c" "Run_packet cid c p = RunNext c'" "pc_peerId (pk_to p) = sid"
  obtains (Ignored) "sid = ''''" "c' = c"
  | (Closed) "sid \<noteq> ''''" "\<not> open_for c sid" "GetSession cid c sid = Some (session_for c sid, c')"
  | (Delivered) c1 s2 where "sid \<noteq> ''''" "open_for c sid" "GetSession cid c sid = Some (session_for c sid, c1)"
      "deliver (session_for c sid) p = Delivered s2" "c' = put_session c1 sid s2"
  using assms(2,3) that
  by (auto simp: Run_packet_def Let_def session_for_facts(3)
      split: if_splits option.splits deliver_result.splits dest: GetSession_for(1))

lemma Run_packet_next:
  assumes inv: "sig_inv c" and run: "Run_packet cid c p = RunNext c'" and sid: "pc_peerId (pk_to p) = sid"
  shows "sig_inv c' \<and> (\<forall>k. k \<noteq> sid \<or> k = '''' \<longrightarrow> gm_get (wc_sessions c') k = gm_get (wc_sessions c) k) \<and>
    (sid \<noteq> '''' \<and> open_for c sid \<longrightarrow> open_for c' sid \<and>
      waiting_sdp c' sid = waiting_sdp c sid @ opt_list (pk_sdp p) \<and>
      waiting_ice c' sid = waiting_ice c sid @ opt_list (pk_ice p))"
  using inv run sid
proof (cases rule: Run_packet_next_cases)
  case Ignored
  with inv show ?thesis by simp
next
  case Closed
  with inv show ?thesis using GetSession_spec(2,4) [OF Closed(3)] by auto
next
  case (Delivered c1 s2)
  have ok: "session_ok sid s2" "\<not> sg_closed s2"
    "ch_buf (sg_ice s2) = ch_buf (sg_ice (session_for c sid)) @ opt_list (pk_ice p)"
    "ch_buf (sg_sdp s2) = ch_buf (sg_sdp (session_for c sid)) @ opt_list (pk_sdp p)"
    using deliver_spec [OF session_for_facts(4) [OF inv], of sid p] Delivered(2,4)
    by (simp_all add: session_for_facts(3))
  have "session_for c' sid = s2" by (simp add: session_for_def Delivered(5) put_session_def)
  with ok Delivered inv show ?thesis
    using GetSession_spec(2,4) [OF Delivered(3)]
    by (auto simp: session_for_facts put_session_def sig_inv_def)
qed

lemma Run_packet_other:
  assumes "Run_packet cid c p = RunNext c' \<or> Run_packet cid c p = RunStuck c'"
    and "k \<noteq> pc_peerId (pk_to p) \<or> k = ''''"
  shows "gm_get (wc_sessions c') k = gm_get (wc_sessions c) k"
  using assms GetSession_spec(2) [of cid c "pc_peerId (pk_to p)" _ _ k]
  by (auto simp: Run_packet_def Let_def put_session_def
      split: if_splits option.splits deliver_result.splits)

definition packets_of :: "run_event list \<Rightarrow> Packet list" where
  "packets_of evs = concat (map (\<lambda>e. case e of EvPacket p \<Rightarrow> [p] | _ \<Rightarrow> []) evs)"

lemma Run_loop_waiting:
  assumes "sig_inv c" "Run_loop cid c evs = (c', RunWaiting)" "sid \<noteq> ''''" "open_for c sid"
  shows "sig_inv c' \<and> open_for c' sid \<and>
    waiting_sdp c' sid = waiting_sdp c sid @ sdps_for sid (packets_of evs) \<and>
    waiting_ice c' sid = waiting_ice c sid @ ices_for sid (packets_of evs)"
  using assms
proof (induction cid c evs rule: Run_loop.induct)
  case (5 cid c p evs)
  obtain c1 where run: "Run_packet cid c p = RunNext c1" "Run_loop cid c1 evs = (c', RunWaiting)"
    using "5.prems"(2) by (auto split: run_round.splits)
  note next_facts = Run_packet_next [OF "5.prems"(1) run(1) refl]
  have "open_for c1 sid \<and>
      waiting_sdp c1 sid = waiting_sdp c sid @ (if pc_peerId (pk_to p) = sid then opt_list (pk_sdp p) else []) \<and>
      waiting_ice c1 sid = waiting_ice c sid @ (if pc_peerId (pk_to p) = sid then opt_list (pk_ice p) else [])"
    using next_facts "5.prems"(3,4)
    by (cases "pc_peerId (pk_to p) = sid") (auto simp: open_for_def waiting_sdp_def waiting_ice_def)
  with "5.IH" [OF run(1) _ run(2) "5.prems"(3)] next_facts show ?case
    by (simp add: packets_of_def sdps_for_def ices_for_def)
qed (simp_all add: packets_of_def sdps_for_def ices_for_def)

lemma Run_loop_empty_id:
  "gm_get (wc_sessions (fst (Run_loop cid c evs))) '''' = gm_get (wc_sessions c) ''''"
proof (induction cid c evs rule: Run_loop.induct)
  case (5 cid c p evs)
  then show ?case
    using Run_packet_other [of cid c p _ "''''"] by (auto split: run_round.splits)
qed simp_all

text \<open>Whatever the loop reads, \<open>Run\<close> leaves the session stored under the empty id as it was.\<close>

lemma Run_empty_id:
  "gm_get (wc_sessions (fst (Run cid c dial writeHeader evs))) '''' = gm_get (wc_sessions c) ''''"
proof (cases dial)
  case (Inr conn)
  then show ?thesis
    using Run_loop_empty_id [of cid "c\<lparr>wc_conn := Some conn, wc_cancelled := False, wc_isClose := False\<rparr>" evs]
    by (auto simp: Run_def Let_def split: option.split)
qed (simp add: Run_def)

subsection \<open>Properties\<close>

text \<open>
  C13: as long as the read loop keeps going, every session receives exactly the payloads addressed to
  its peer id, in the order of arrival and after what was already waiting: the session descriptions on
  its \<open>sdp\<close> channel and the candidates on its \<open>ice\<close> channel; payloads of other peers never reach it.
\<close>

theorem payloads_are_sorted_by_peer:
  assumes "sig_inv c" "Run_loop cid c evs = (c', RunWaiting)" "sid \<noteq> ''''" "open_for c sid"
  shows "waiting_sdp c' sid = waiting_sdp c sid @ sdps_for sid (packets_of evs) \<and>
    waiting_ice c' sid = waiting_ice c sid @ ices_for sid (packets_of evs)"
  using Run_loop_waiting [OF assms] by blast

theorem payloads_are_sorted_by_peer_witness:
  "\<exists>c'. Run_loop [] (NewWsFrontendSigClient ''c'' ''ws'' ''open'')
      [EvTimeout, EvPacket \<lparr>pk_from = \<lparr>pc_clientId = [], pc_peerId = []\<rparr>,
         pk_to = \<lparr>pc_clientId = [], pc_peerId = ''p''\<rparr>, pk_sdp = None, pk_ice = Some ''i''\<rparr>] = (c', RunWaiting)
    \<and> waiting_ice c' ''p'' = [''i'']"
proof -
  let ?c = "NewWsFrontendSigClient ''c'' ''ws'' ''open''"
  let ?p = "\<lparr>pk_from = \<lparr>pc_clientId = [], pc_peerId = []\<rparr>,
         pk_to = \<lparr>pc_clientId = [], pc_peerId = ''p''\<rparr>, pk_sdp = None, pk_ice = Some ''i''\<rparr>"
  obtain c' where run: "Run_loop [] ?c [EvTimeout, EvPacket ?p] = (c', RunWaiting)"
    by (simp add: Run_packet_def GetSession_def OnSession_def NewWsFrontendSigClient_def NewWsSigClient_def
        NewSession_def deliver_def OnIceCandidate_def OnSdp_def chan_send_def Let_def)
  have "open_for ?c ''p''" "waiting_ice ?c ''p'' = []"
    by (simp_all add: open_for_def waiting_ice_def NewWsFrontendSigClient_def NewWsSigClient_def)
  with payloads_are_sorted_by_peer [OF _ run, of "''p''"]
  have "waiting_ice c' ''p'' = [''i'']"
    by (simp add: ices_for_def packets_of_def opt_list_def)
  with run show ?thesis by blast
qed

text \<open>
  No packet that the server can send makes the read loop panic: starting from a client whose
  sessions are in their invariant, a round continues or hangs on a full channel, and the channels of a
  closed session are never sent to.
\<close>

theorem read_loop_never_panics:
  assumes "sig_inv c"
  shows "Run_packet cid c p \<noteq> RunPanic \<and> (\<forall>c'. Run_packet cid c p = RunNext c' \<longrightarrow> sig_inv c')"
  using Run_packet_no_panic [OF assms] Run_packet_next [OF assms _ refl] by blast

theorem read_loop_never_panics_witness:
  "sig_inv (NewWsBackendSigClient ''c'' ''ws'' ''open'') \<and>
   Run_packet [] (NewWsBackendSigClient ''c'' ''ws'' ''open'')
      \<lparr>pk_from = \<lparr>pc_clientId = [], pc_peerId = []\<rparr>, pk_to = \<lparr>pc_clientId = [], pc_peerId = ''p''\<rparr>,
       pk_sdp = None, pk_ice = Some ''i''\<rparr> \<noteq> RunPanic"
  using read_loop_never_panics [OF sig_inv_new(2)] by simp

text \<open>
  Closing a session twice within the five seconds before it is removed panics: the first
  \<open>CloseSession\<close> of an open session succeeds and closes both channels, the second one closes a closed
  channel.
\<close>

theorem closing_a_session_twice_panics:
  assumes "sig_inv c" "gm_get (wc_sessions c) sid = Some s" "\<not> sg_closed s"
  shows "\<exists>c' s'. CloseSession c sid = Some c' \<and> sig_inv c' \<and> gm_get (wc_sessions c') sid = Some s' \<and>
    sg_closed s' \<and> ch_closed (sg_sdp s') \<and> ch_closed (sg_ice s') \<and> CloseSession c' sid = None \<and>
    CloseSession (expire_session c' sid) sid = Some (expire_session c' sid)"
proof -
  have "session_ok sid s" using assms(1,2) by (simp add: sig_inv_def)
  then obtain s' where s': "Session_Close s = Some s'" "sg_closed s'" "ch_closed (sg_sdp s')" "ch_closed (sg_ice s')"
    using assms(3) by (simp add: Session_Close_def chan_close_def session_ok_def)
  let ?c = "c\<lparr>wc_sessions := gm_put sid s' (wc_sessions c)\<rparr>"
  have close: "CloseSession c sid = Some ?c" using s'(1) assms(2) by (simp add: CloseSession_def)
  have "Session_Close s' = None" using s'(4) by (simp add: Session_Close_def chan_close_def)
  then show ?thesis
    using close s' CloseSession_inv [OF assms(1) close]
    by (intro exI [of _ ?c] exI [of _ s']) (simp add: CloseSession_def expire_session_def)
qed

theorem closing_a_session_twice_panics_witness:
  "\<exists>c'. CloseSession (put_session (NewWsSigClient ''c'' ''ws'' ''open'') ''p'' (NewSession ''p'')) ''p'' = Some c' \<and>
     CloseSession c' ''p'' = None"
proof -
  let ?c = "put_session (NewWsSigClient ''c'' ''ws'' ''open'') ''p'' (NewSession ''p'')"
  have "sig_inv ?c" by simp
  moreover have "gm_get (wc_sessions ?c) ''p'' = Some (NewSession ''p'')" by (simp add: put_session_def)
  moreover have "\<not> sg_closed (NewSession ''p'')" by (simp add: NewSession_def)
  ultimately show ?thesis using closing_a_session_twice_panics by blast
qed

end
