(* ===== verification/Sig_Conc.thy ===== *)
theory Sig_Conc
  imports Ws_Sig Locks
begin

section \<open>The signalling client under concurrent callers (\<open>net/conn/ws-sig.go\<close>)\<close>

text \<open>
  \<open>Ws_Sig\<close> gives each operation of \<open>WsSigClient\<close> as one step.  Here the goroutines that share a client run
  interleaved: \<open>Run\<close>, which looks up a session for each packet and delivers into it, the peers, which look
  theirs up with \<open>RemoteSdp\<close> and \<open>RemoteIceCandidates\<close> and receive from its channels, and the loop of the
  listener, which receives the announcements.  \<open>GetSession\<close> is cut at its lock, between the lookup, the call
  of \<open>OnSession\<close> and the insertion; the deliveries and receives run outside the lock.  Nothing in the sources
  calls \<open>CloseSession\<close>, so no session is closed or deleted here and a session is known by its id.
\<close>

text \<open>What a goroutine does with the session that \<open>GetSession\<close> returns.\<close>

datatype sig_use = UseDeliver Packet "Packet list" | UseSdp | UseIce

text \<open>
  The program points.  \<open>RpNext\<close> is the head of the loop of \<open>Run\<close> with the packets that will be read, the
  \<open>Sp\<close> points are in \<open>GetSession\<close>, \<open>RpClosed\<close>, \<open>RpIce\<close> and \<open>RpSdp\<close> the rest of the round, \<open>DpSdp\<close> and
  \<open>DpIce\<close> the receives of \<open>WaitAnswer\<close> and \<open>PollOffer\<close>, \<open>LpNewPeer\<close> the receive of the listener's loop.
\<close>

datatype sig_pc =
    RpNext "Packet list"
  | SpLock string sig_use
  | SpFind string sig_use
  | SpAnnounce string sig_use
  | SpStore string sig_use
  | SpUnlock string sig_use
  | RpClosed Packet "Packet list"
  | RpIce Packet "Packet list"
  | RpSdp Packet "Packet list"
  | RpPanicked
  | DpSdp string
  | DpIce string
  | DpGotSdp "SessionDescription option"
  | DpGotIce "ICECandidate option"
  | LpNewPeer
  | LpEnded

record sig_conc =
  sk_client :: WsSigClient
  sk_lock :: rwlock
  sk_pc :: "nat \<Rightarrow> sig_pc"

definition sk_goto :: "nat \<Rightarrow> sig_pc \<Rightarrow> sig_conc \<Rightarrow> sig_conc" where
  "sk_goto g pc s = s\<lparr>sk_pc := (sk_pc s)(g := pc)\<rparr>"

lemma sk_goto_simps [simp]:
  "sk_client (sk_goto g pc s) = sk_client s"
  "sk_lock (sk_goto g pc s) = sk_lock s"
  "sk_pc (sk_goto g pc s) = (sk_pc s)(g := pc)"
  "sk_goto g pc (sk_goto g pc' s) = sk_goto g pc s"
  "(sk_goto g pc s)\<lparr>sk_client := c\<rparr> = sk_goto g pc (s\<lparr>sk_client := c\<rparr>)"
  "(sk_goto g pc s)\<lparr>sk_lock := l\<rparr> = sk_goto g pc (s\<lparr>sk_lock := l\<rparr>)"
  by (simp_all add: sk_goto_def)

definition peer_of :: "Packet \<Rightarrow> string" where
  "peer_of p = pc_peerId (pk_to p)"

primrec after_get :: "string \<Rightarrow> sig_use \<Rightarrow> sig_pc" where
  "after_get sid (UseDeliver p ps) = RpClosed p ps"
| "after_get sid UseSdp = DpSdp sid"
| "after_get sid UseIce = DpIce sid"

text \<open>\<open>None\<close>: the goroutine cannot go on, because it waits or has ended.\<close>

definition sig_micro :: "string \<Rightarrow> sig_conc \<Rightarrow> nat \<Rightarrow> sig_conc option" where
  "sig_micro cid s g =
     (let c = sk_client s in
      case sk_pc s g of
        RpNext [] \<Rightarrow> None
      | RpNext (p # ps) \<Rightarrow>
          Some (sk_goto g (if peer_of p = '''' then RpNext ps else SpLock (peer_of p) (UseDeliver p ps)) s)
      | SpLock sid k \<Rightarrow> (case WLock g (sk_lock s) of None \<Rightarrow> None | Some l \<Rightarrow> Some (sk_goto g (SpFind sid k) (s\<lparr>sk_lock := l\<rparr>)))
      | SpFind sid k \<Rightarrow>
          Some (sk_goto g (case gm_get (wc_sessions c) sid of Some sess \<Rightarrow> SpUnlock sid k | None \<Rightarrow> SpAnnounce sid k) s)
      | SpAnnounce sid k \<Rightarrow>
          (case OnSession c sid cid of None \<Rightarrow> None | Some c1 \<Rightarrow> Some (sk_goto g (SpStore sid k) (s\<lparr>sk_client := c1\<rparr>)))
      | SpStore sid k \<Rightarrow> Some (sk_goto g (SpUnlock sid k) (s\<lparr>sk_client := put_session c sid (NewSession sid)\<rparr>))
      | SpUnlock sid k \<Rightarrow> Some (sk_goto g (after_get sid k) (s\<lparr>sk_lock := WUnlock (sk_lock s)\<rparr>))
      | RpClosed p ps \<Rightarrow>
          Some (sk_goto g (if Session_IsClose (gm_get (wc_sessions c) (peer_of p)) then RpNext ps else RpIce p ps) s)
      | RpIce p ps \<Rightarrow>
          (case gm_get (wc_sessions c) (peer_of p) of
             None \<Rightarrow> None
           | Some sess \<Rightarrow>
               (case OnIceCandidate sess (pk_ice p) of
                  PutOk sess' \<Rightarrow> Some (sk_goto g (RpSdp p ps) (s\<lparr>sk_client := put_session c (peer_of p) sess'\<rparr>))
                | PutBlocks \<Rightarrow> None
                | PutPanics \<Rightarrow> Some (sk_goto g RpPanicked s)))
      | RpSdp p ps \<Rightarrow>
          (case gm_get (wc_sessions c) (peer_of p) of
             None \<Rightarrow> None
           | Some sess \<Rightarrow>
               (case OnSdp sess (pk_sdp p) of
                  PutOk sess' \<Rightarrow> Some (sk_goto g (RpNext ps) (s\<lparr>sk_client := put_session c (peer_of p) sess'\<rparr>))
                | PutBlocks \<Rightarrow> None
                | PutPanics \<Rightarrow> Some (sk_goto g RpPanicked s)))
      | RpPanicked \<Rightarrow> None
      | DpSdp sid \<Rightarrow>
          (case gm_get (wc_sessions c) sid of
             None \<Rightarrow> None
           | Some sess \<Rightarrow>
               (case chan_recv (sg_sdp sess) of
                  Received d ch \<Rightarrow>
                    Some (sk_goto g (DpGotSdp (Some d)) (s\<lparr>sk_client := put_session c sid (sess\<lparr>sg_sdp := ch\<rparr>)\<rparr>))
                | RecvClosed \<Rightarrow> Some (sk_goto g (DpGotSdp None) s)
                | RecvBlocks \<Rightarrow> None))
      | DpIce sid \<Rightarrow>
          (case gm_get (wc_sessions c) sid of
             None \<Rightarrow> None
           | Some sess \<Rightarrow>
               (case chan_recv (sg_ice sess) of
                  Received i ch \<Rightarrow>
                    Some (sk_goto g (DpGotIce (Some i)) (s\<lparr>sk_client := put_session c sid (sess\<lparr>sg_ice := ch\<rparr>)\<rparr>))
                | RecvClosed \<Rightarrow> Some (sk_goto g (DpGotIce None) s)
                | RecvBlocks \<Rightarrow> None))
      | DpGotSdp d \<Rightarrow> None
      | DpGotIce i \<Rightarrow> None
      | LpNewPeer \<Rightarrow>
          (case wc_newClient c of
             None \<Rightarrow> None
           | Some ch \<Rightarrow>
               (case chan_recv ch of
                  Received v ch' \<Rightarrow> Some (s\<lparr>sk_client := c\<lparr>wc_newClient := Some ch'\<rparr>\<rparr>)
                | _ \<Rightarrow> None))
      | LpEnded \<Rightarrow> None)"

text \<open>
  Where a run may start: the lock is free, every goroutine is at the beginning of a call or at the head of its
  loop.
\<close>

definition sig_conc_start :: "WsSigClient \<Rightarrow> (nat \<Rightarrow> sig_pc) \<Rightarrow> sig_conc" where
  "sig_conc_start c pc = \<lparr>sk_client = c, sk_lock = free_lock, sk_pc = pc\<rparr>"

definition sig_starts :: "sig_pc \<Rightarrow> bool" where
  "sig_starts pc \<longleftrightarrow> (\<exists>ps. pc = RpNext ps) \<or> (\<exists>sid. pc = SpLock sid UseSdp \<or> pc = SpLock sid UseIce)
     \<or> pc = LpNewPeer \<or> pc = LpEnded"

definition sig_step :: "string \<Rightarrow> sig_conc \<Rightarrow> nat \<Rightarrow> sig_conc \<Rightarrow> bool" where
  "sig_step cid s g t \<longleftrightarrow> sig_micro cid s g = Some t"

subsection \<open>The lock discipline\<close>

definition sig_place :: "sig_conc \<Rightarrow> nat \<Rightarrow> place" where
  "sig_place s g =
     (case sk_pc s g of
        SpFind sid k \<Rightarrow> Writing | SpAnnounce sid k \<Rightarrow> Writing | SpStore sid k \<Rightarrow> Writing | SpUnlock sid k \<Rightarrow> Writing
      | _ \<Rightarrow> Outside)"

lemma sig_place_updates [simp]:
  "sig_place (s\<lparr>sk_lock := l\<rparr>) = sig_place s" "sig_place (s\<lparr>sk_client := c\<rparr>) = sig_place s"
  by (simp_all add: sig_place_def fun_eq_iff)

lemma sig_place_goto:
  "sig_place (sk_goto g pc s) = (sig_place s)(g := sig_place (sk_goto g pc s) g)"
  by (auto simp: sig_place_def fun_eq_iff)

lemma sig_micro_moves:
  assumes "sig_micro cid s g = Some t"
  shows "lock_move g (sk_lock s) (sig_place s) (sk_lock t) (sig_place t)"
proof -
  have stay: "lock_move g l (sig_place s) l (sig_place (sk_goto g pc u))"
    if "sig_place u = sig_place s" "sig_place (sk_goto g pc u) g = sig_place s g" for l pc u
    using lm_stay [of g l "sig_place s"] sig_place_goto [of g pc u] that by simp
  show ?thesis
  proof (cases "sk_pc s g")
    case (SpLock sid k)
    then obtain l where l: "WLock g (sk_lock s) = Some l" "t = sk_goto g (SpFind sid k) (s\<lparr>sk_lock := l\<rparr>)"
      using assms by (auto simp: sig_micro_def Let_def split: option.splits)
    have "sig_place t = (sig_place s)(g := Writing)"
      unfolding l(2) by (subst sig_place_goto) (simp add: sig_place_def)
    with l lm_wlock [of "sig_place s" g "sk_lock s"] SpLock show ?thesis by (simp add: sig_place_def)
  next
    case (SpUnlock sid k)
    then have t: "t = sk_goto g (after_get sid k) (s\<lparr>sk_lock := WUnlock (sk_lock s)\<rparr>)"
      using assms by (simp add: sig_micro_def Let_def)
    have "sig_place t = (sig_place s)(g := Outside)"
      unfolding t by (subst sig_place_goto) (cases k; simp add: sig_place_def)
    with t lm_wunlock [of "sig_place s" g "sk_lock s"] SpUnlock show ?thesis by (simp add: sig_place_def)
  qed (use assms lm_stay [of g "sk_lock s" "sig_place s"] in
      \<open>auto simp: sig_micro_def Let_def sig_place_def [of s g] sig_place_def [of "sk_goto _ _ _" g] intro!: stay
        split: option.splits list.splits put_result.splits recv_result.splits\<close>)
qed

interpretation sig_locks: locked "sig_step cid" sk_lock sig_place for cid
  by unfold_locales (simp add: sig_step_def sig_micro_moves)

lemma sig_start_agrees:
  assumes "\<forall>g. sig_starts (pc g)"
  shows "lock_agrees (sk_lock (sig_conc_start c pc)) (sig_place (sig_conc_start c pc))"
proof -
  have "sig_place (sig_conc_start c pc) g = Outside" for g
    using spec [OF assms, of g] by (auto simp: sig_place_def sig_conc_start_def sig_starts_def)
  then have "lock_agrees free_lock (sig_place (sig_conc_start c pc))" by (rule lock_agrees_free)
  then show ?thesis by (simp add: sig_conc_start_def)
qed

lemma sig_micro_other: "sig_micro cid s g' = Some t \<Longrightarrow> g \<noteq> g' \<Longrightarrow> sk_pc t g = sk_pc s g"
  by (cases "sk_pc s g'")
    (auto simp: sig_micro_def Let_def split: option.splits list.splits put_result.splits recv_result.splits)


subsection \<open>The invariant\<close>

primrec use_ok :: "string \<Rightarrow> sig_use \<Rightarrow> bool" where
  "use_ok sid (UseDeliver p ps) \<longleftrightarrow> sid = peer_of p"
| "use_ok sid UseSdp \<longleftrightarrow> True"
| "use_ok sid UseIce \<longleftrightarrow> True"

text \<open>
  Between the failed lookup and the insertion the session does not exist, which is what the lock is for; whoever
  has left \<open>GetSession\<close> has a session to work on; nobody has panicked.
\<close>

fun sig_pc_ok :: "(string, SigSession) gomap \<Rightarrow> sig_pc \<Rightarrow> bool" where
  "sig_pc_ok m (SpLock sid k) \<longleftrightarrow> use_ok sid k"
| "sig_pc_ok m (SpFind sid k) \<longleftrightarrow> use_ok sid k"
| "sig_pc_ok m (SpAnnounce sid k) \<longleftrightarrow> use_ok sid k \<and> gm_get m sid = None"
| "sig_pc_ok m (SpStore sid k) \<longleftrightarrow> use_ok sid k \<and> gm_get m sid = None"
| "sig_pc_ok m (SpUnlock sid k) \<longleftrightarrow> use_ok sid k \<and> gm_get m sid \<noteq> None"
| "sig_pc_ok m (RpClosed p ps) \<longleftrightarrow> gm_get m (peer_of p) \<noteq> None"
| "sig_pc_ok m (RpIce p ps) \<longleftrightarrow> gm_get m (peer_of p) \<noteq> None"
| "sig_pc_ok m (RpSdp p ps) \<longleftrightarrow> gm_get m (peer_of p) \<noteq> None"
| "sig_pc_ok m (DpSdp sid) \<longleftrightarrow> gm_get m sid \<noteq> None"
| "sig_pc_ok m (DpIce sid) \<longleftrightarrow> gm_get m sid \<noteq> None"
| "sig_pc_ok m RpPanicked \<longleftrightarrow> False"
| "sig_pc_ok m pc \<longleftrightarrow> True"

definition sessions_open :: "WsSigClient \<Rightarrow> bool" where
  "sessions_open c \<longleftrightarrow> (\<forall>sid s. gm_get (wc_sessions c) sid = Some s \<longrightarrow> session_ok sid s \<and> \<not> sg_closed s)"

definition sig_conc_inv :: "sig_conc \<Rightarrow> bool" where
  "sig_conc_inv s \<longleftrightarrow> lock_agrees (sk_lock s) (sig_place s) \<and> sessions_open (sk_client s)
     \<and> (\<forall>g. sig_pc_ok (wc_sessions (sk_client s)) (sk_pc s g))"

lemma sessions_open_put:
  "sessions_open c \<Longrightarrow> session_ok sid s \<Longrightarrow> \<not> sg_closed s \<Longrightarrow> sessions_open (put_session c sid s)"
  by (simp add: sessions_open_def put_session_def)

lemma new_session_open: "\<not> sg_closed (NewSession sid)"
  by (simp add: NewSession_def)

lemma sig_pc_ok_mono:
  assumes "sig_pc_ok m pc" "\<And>sid. gm_get m sid \<noteq> None \<Longrightarrow> gm_get m' sid \<noteq> None"
    and "\<And>sid k. pc = SpAnnounce sid k \<or> pc = SpStore sid k \<Longrightarrow> gm_get m' sid = gm_get m sid"
  shows "sig_pc_ok m' pc"
  using assms by (cases pc) auto

lemma sig_conc_start_inv:
  assumes "\<forall>g. sig_starts (pc g)" "sessions_open c"
  shows "sig_conc_inv (sig_conc_start c pc)"
proof -
  have "sig_pc_ok (wc_sessions c) (pc g)" for g
    using spec [OF assms(1), of g] by (auto simp: sig_starts_def)
  with sig_start_agrees [OF assms(1)] assms(2) show ?thesis by (simp add: sig_conc_inv_def sig_conc_start_def)
qed

text \<open>The goroutine that moves: where it arrives, and what it does to the sessions.\<close>

definition sig_effect :: "sig_conc \<Rightarrow> nat \<Rightarrow> sig_conc \<Rightarrow> bool" where
  "sig_effect s g t \<longleftrightarrow> sessions_open (sk_client t) \<and> sig_pc_ok (wc_sessions (sk_client t)) (sk_pc t g)
     \<and> ((\<forall>sid. gm_get (wc_sessions (sk_client t)) sid = None \<longleftrightarrow> gm_get (wc_sessions (sk_client s)) sid = None)
        \<or> sig_place s g = Writing
          \<and> (\<forall>sid. gm_get (wc_sessions (sk_client s)) sid \<noteq> None \<longrightarrow> gm_get (wc_sessions (sk_client t)) sid \<noteq> None))"

lemma sig_effect_put:
  assumes "sessions_open (sk_client s)" "gm_get (wc_sessions (sk_client s)) sid = Some sess"
    and "session_ok sid sess'" "\<not> sg_closed sess'"
    and "sk_client t = put_session (sk_client s) sid sess'" "sig_pc_ok (wc_sessions (sk_client t)) (sk_pc t g)"
  shows "sig_effect s g t"
  using assms sessions_open_put [OF assms(1,3,4)] by (auto simp: sig_effect_def put_session_def)

lemma sig_micro_effect:
  assumes "sig_micro cid s g = Some t" "sessions_open (sk_client s)" "sig_pc_ok (wc_sessions (sk_client s)) (sk_pc s g)"
  shows "sig_effect s g t"
proof (cases "sk_pc s g")
  case (RpNext ps)
  then show ?thesis using assms by (cases ps) (auto simp: sig_micro_def Let_def sig_effect_def)
next
  case (SpAnnounce sid k)
  then show ?thesis using assms
    by (auto simp: sig_micro_def Let_def sig_effect_def sessions_open_def OnSession_sessions split: option.splits)
next
  case (SpStore sid k)
  then have t: "t = sk_goto g (SpUnlock sid k) (s\<lparr>sk_client := put_session (sk_client s) sid (NewSession sid)\<rparr>)"
    using assms(1) by (simp add: sig_micro_def Let_def)
  have "sessions_open (sk_client t)"
    unfolding t by (simp add: sessions_open_put [OF assms(2) session_ok_new new_session_open])
  with SpStore t assms(3) show ?thesis by (simp add: sig_effect_def put_session_def sig_place_def)
next
  case (SpUnlock sid k)
  then show ?thesis using assms by (cases k) (auto simp: sig_micro_def Let_def sig_effect_def)
next
  case (RpIce p ps)
  then obtain sess where sess: "gm_get (wc_sessions (sk_client s)) (peer_of p) = Some sess" using assms(3) by auto
  then have ok: "session_ok (peer_of p) sess" "\<not> sg_closed sess" using assms(2) by (auto simp: sessions_open_def)
  obtain sess' where put: "OnIceCandidate sess (pk_ice p) = PutOk sess'"
    "t = sk_goto g (RpSdp p ps) (s\<lparr>sk_client := put_session (sk_client s) (peer_of p) sess'\<rparr>)"
    using assms(1) RpIce sess OnIce_spec [OF ok, of "pk_ice p"] by (auto simp: sig_micro_def Let_def split: put_result.splits)
  then have "session_ok (peer_of p) sess'" "\<not> sg_closed sess'" using OnIce_spec [OF ok, of "pk_ice p"] by simp_all
  from sig_effect_put [OF assms(2) sess this] put(2) show ?thesis by (simp add: put_session_def)
next
  case (RpSdp p ps)
  then obtain sess where sess: "gm_get (wc_sessions (sk_client s)) (peer_of p) = Some sess" using assms(3) by auto
  then have ok: "session_ok (peer_of p) sess" "\<not> sg_closed sess" using assms(2) by (auto simp: sessions_open_def)
  obtain sess' where put: "OnSdp sess (pk_sdp p) = PutOk sess'"
    "t = sk_goto g (RpNext ps) (s\<lparr>sk_client := put_session (sk_client s) (peer_of p) sess'\<rparr>)"
    using assms(1) RpSdp sess OnSdp_spec [OF ok, of "pk_sdp p"] by (auto simp: sig_micro_def Let_def split: put_result.splits)
  then have "session_ok (peer_of p) sess'" "\<not> sg_closed sess'" using OnSdp_spec [OF ok, of "pk_sdp p"] by simp_all
  from sig_effect_put [OF assms(2) sess this] put(2) show ?thesis by (simp add: put_session_def)
next
  case (DpSdp sid)
  then obtain sess where sess: "gm_get (wc_sessions (sk_client s)) sid = Some sess" using assms(3) by auto
  then have ok: "session_ok sid sess" "\<not> sg_closed sess" using assms(2) by (auto simp: sessions_open_def)
  obtain d ds where recv: "ch_buf (sg_sdp sess) = d # ds"
    "t = sk_goto g (DpGotSdp (Some d)) (s\<lparr>sk_client := put_session (sk_client s) sid (sess\<lparr>sg_sdp := (sg_sdp sess)\<lparr>ch_buf := ds\<rparr>\<rparr>)\<rparr>)"
    using assms(1) DpSdp sess ok by (cases "sg_sdp sess" rule: chan_recv_cases) (auto simp: sig_micro_def Let_def session_ok_def)
  show ?thesis
    by (rule sig_effect_put [OF assms(2) sess, of "sess\<lparr>sg_sdp := (sg_sdp sess)\<lparr>ch_buf := ds\<rparr>\<rparr>"])
      (use ok recv(2) in \<open>simp_all add: session_ok_def\<close>)
next
  case (DpIce sid)
  then obtain sess where sess: "gm_get (wc_sessions (sk_client s)) sid = Some sess" using assms(3) by auto
  then have ok: "session_ok sid sess" "\<not> sg_closed sess" using assms(2) by (auto simp: sessions_open_def)
  obtain d ds where recv: "ch_buf (sg_ice sess) = d # ds"
    "t = sk_goto g (DpGotIce (Some d)) (s\<lparr>sk_client := put_session (sk_client s) sid (sess\<lparr>sg_ice := (sg_ice sess)\<lparr>ch_buf := ds\<rparr>\<rparr>)\<rparr>)"
    using assms(1) DpIce sess ok by (cases "sg_ice sess" rule: chan_recv_cases) (auto simp: sig_micro_def Let_def session_ok_def)
  show ?thesis
    by (rule sig_effect_put [OF assms(2) sess, of "sess\<lparr>sg_ice := (sg_ice sess)\<lparr>ch_buf := ds\<rparr>\<rparr>"])
      (use ok recv(2) in \<open>simp_all add: session_ok_def\<close>)
qed (use assms in \<open>auto simp: sig_micro_def Let_def sig_effect_def sessions_open_def split: option.splits recv_result.splits\<close>)

lemma sig_step_inv:
  assumes "sig_conc_inv s" "sig_step cid s g t"
  shows "sig_conc_inv t"
proof -
  have micro: "sig_micro cid s g = Some t" using assms(2) by (simp add: sig_step_def)
  have inv: "lock_agrees (sk_lock s) (sig_place s)" "sessions_open (sk_client s)"
    "\<And>g. sig_pc_ok (wc_sessions (sk_client s)) (sk_pc s g)" using assms(1) by (simp_all add: sig_conc_inv_def)
  have eff: "sig_effect s g t" by (rule sig_micro_effect [OF micro inv(2,3)])
  have "sig_pc_ok (wc_sessions (sk_client t)) (sk_pc t g')" for g'
  proof (cases "g' = g")
    case False
    have keep: "sk_pc t g' = sk_pc s g'" by (rule sig_micro_other [OF micro False])
    show ?thesis unfolding keep
    proof (rule sig_pc_ok_mono [OF inv(3)])
      fix sid k assume "sk_pc s g' = SpAnnounce sid k \<or> sk_pc s g' = SpStore sid k"
      then have "sig_place s g' = Writing" "gm_get (wc_sessions (sk_client s)) sid = None"
        using inv(3) [of g'] by (auto simp: sig_place_def)
      then have "sig_place s g \<noteq> Writing" using sig_locks.writer_alone [OF inv(1), of g' g] False by auto
      then show "gm_get (wc_sessions (sk_client t)) sid = gm_get (wc_sessions (sk_client s)) sid"
        using eff \<open>gm_get (wc_sessions (sk_client s)) sid = None\<close> by (auto simp: sig_effect_def)
    next
      show "\<And>sid. gm_get (wc_sessions (sk_client s)) sid \<noteq> None \<Longrightarrow> gm_get (wc_sessions (sk_client t)) sid \<noteq> None"
        using eff unfolding sig_effect_def by metis
    qed
  qed (use eff in \<open>simp add: sig_effect_def\<close>)
  with eff sig_locks.agrees_step [OF assms(2) inv(1)] show ?thesis by (simp add: sig_conc_inv_def sig_effect_def)
qed


subsection \<open>The sessions as queues\<close>

text \<open>
  What the client promises to its callers: a queue of one session description and a queue of five candidates for
  every peer id.  A put waits while the queue is full, a receive takes the oldest value.
\<close>

datatype queue_event =
    PutSdp string SessionDescription
  | PutIce string ICECandidate
  | GotSdp string SessionDescription
  | GotIce string ICECandidate

type_synonym queues = "(string \<Rightarrow> SessionDescription list) \<times> (string \<Rightarrow> ICECandidate list)"

fun queue_apply :: "queues \<Rightarrow> queue_event \<Rightarrow> queues option" where
  "queue_apply (ds, is) (PutSdp sid d) = (if length (ds sid) < 1 then Some (ds(sid := ds sid @ [d]), is) else None)"
| "queue_apply (ds, is) (PutIce sid i) = (if length (is sid) < 5 then Some (ds, is(sid := is sid @ [i])) else None)"
| "queue_apply (ds, is) (GotSdp sid d) =
     (case ds sid of x # xs \<Rightarrow> if x = d then Some (ds(sid := xs), is) else None | [] \<Rightarrow> None)"
| "queue_apply (ds, is) (GotIce sid i) =
     (case is sid of x # xs \<Rightarrow> if x = i then Some (ds, is(sid := xs)) else None | [] \<Rightarrow> None)"

definition queue_step :: "queues \<Rightarrow> queue_event \<Rightarrow> queues \<Rightarrow> bool" where
  "queue_step q ev q' \<longleftrightarrow> queue_apply q ev = Some q'"

definition put_sdps :: "string \<Rightarrow> queue_event list \<Rightarrow> SessionDescription list" where
  "put_sdps sid evs = concat (map (\<lambda>ev. case ev of PutSdp k d \<Rightarrow> (if k = sid then [d] else []) | _ \<Rightarrow> []) evs)"

definition got_sdps :: "string \<Rightarrow> queue_event list \<Rightarrow> SessionDescription list" where
  "got_sdps sid evs = concat (map (\<lambda>ev. case ev of GotSdp k d \<Rightarrow> (if k = sid then [d] else []) | _ \<Rightarrow> []) evs)"

definition put_ices :: "string \<Rightarrow> queue_event list \<Rightarrow> ICECandidate list" where
  "put_ices sid evs = concat (map (\<lambda>ev. case ev of PutIce k i \<Rightarrow> (if k = sid then [i] else []) | _ \<Rightarrow> []) evs)"

definition got_ices :: "string \<Rightarrow> queue_event list \<Rightarrow> ICECandidate list" where
  "got_ices sid evs = concat (map (\<lambda>ev. case ev of GotIce k i \<Rightarrow> (if k = sid then [i] else []) | _ \<Rightarrow> []) evs)"

lemmas queue_lists = put_sdps_def got_sdps_def put_ices_def got_ices_def

lemma queue_run_fifo:
  "lrun queue_step q evs q' \<Longrightarrow>
     got_sdps sid evs @ fst q' sid = fst q sid @ put_sdps sid evs \<and> got_ices sid evs @ snd q' sid = snd q sid @ put_ices sid evs"
proof (induction rule: lrun.induct)
  case (lrun_next s ls t l u)
  obtain ds "is" where t: "t = (ds, is)" by (cases t)
  show ?case
    using lrun_next(2,3) unfolding t
    by (cases l) (auto simp: queue_step_def queue_lists split: if_splits list.splits)
qed (simp add: queue_lists)

text \<open>The step of a goroutine as an event of the specification.\<close>

definition sig_event :: "sig_conc \<Rightarrow> nat \<Rightarrow> queue_event option" where
  "sig_event s g =
     (case sk_pc s g of
        RpIce p ps \<Rightarrow> map_option (PutIce (peer_of p)) (pk_ice p)
      | RpSdp p ps \<Rightarrow> map_option (PutSdp (peer_of p)) (pk_sdp p)
      | DpSdp sid \<Rightarrow> (case waiting_sdp (sk_client s) sid of d # ds \<Rightarrow> Some (GotSdp sid d) | [] \<Rightarrow> None)
      | DpIce sid \<Rightarrow> (case waiting_ice (sk_client s) sid of i # is \<Rightarrow> Some (GotIce sid i) | [] \<Rightarrow> None)
      | _ \<Rightarrow> None)"

definition sig_lstep :: "string \<Rightarrow> sig_conc \<Rightarrow> nat \<times> queue_event option \<Rightarrow> sig_conc \<Rightarrow> bool" where
  "sig_lstep cid s l t \<longleftrightarrow> sig_step cid s (fst l) t \<and> snd l = sig_event s (fst l)"

definition sig_queues :: "sig_conc \<Rightarrow> queues" where
  "sig_queues s = (waiting_sdp (sk_client s), waiting_ice (sk_client s))"

lemma waiting_put:
  "waiting_sdp (put_session c sid sess) = (waiting_sdp c)(sid := ch_buf (sg_sdp sess))"
  "waiting_ice (put_session c sid sess) = (waiting_ice c)(sid := ch_buf (sg_ice sess))"
  by (simp_all add: waiting_sdp_def waiting_ice_def put_session_def fun_eq_iff)

lemma sig_queues_goto [simp]: "sig_queues (sk_goto g pc s) = sig_queues s" "sig_queues (s\<lparr>sk_lock := l\<rparr>) = sig_queues s"
  by (simp_all add: sig_queues_def)

lemma sig_queues_put:
  assumes "gm_get (wc_sessions (sk_client s)) sid = Some sess"
  shows "sig_queues (s\<lparr>sk_client := put_session (sk_client s) sid sess'\<rparr>) =
      ((fst (sig_queues s))(sid := ch_buf (sg_sdp sess')), (snd (sig_queues s))(sid := ch_buf (sg_ice sess')))"
    and "fst (sig_queues s) sid = ch_buf (sg_sdp sess)" "snd (sig_queues s) sid = ch_buf (sg_ice sess)"
  using assms by (simp_all add: sig_queues_def waiting_put) (simp_all add: waiting_sdp_def waiting_ice_def)

lemma OnIce_open:
  assumes "OnIceCandidate sess ice = PutOk sess'" "session_ok sid sess" "\<not> sg_closed sess"
  shows "ch_buf (sg_sdp sess') = ch_buf (sg_sdp sess)"
    "ch_buf (sg_ice sess') = ch_buf (sg_ice sess) @ opt_list ice" "ice \<noteq> None \<Longrightarrow> length (ch_buf (sg_ice sess)) < 5"
  using assms by (auto simp: OnIceCandidate_def session_ok_def opt_list_def chan_send_def split: option.splits if_splits)

lemma OnSdp_open:
  assumes "OnSdp sess sdp = PutOk sess'" "session_ok sid sess" "\<not> sg_closed sess"
  shows "ch_buf (sg_ice sess') = ch_buf (sg_ice sess)"
    "ch_buf (sg_sdp sess') = ch_buf (sg_sdp sess) @ opt_list sdp" "sdp \<noteq> None \<Longrightarrow> length (ch_buf (sg_sdp sess)) < 1"
  using assms by (auto simp: OnSdp_def session_ok_def opt_list_def chan_send_def split: option.splits if_splits)

lemma sig_micro_queues:
  assumes "sig_micro cid s g = Some t" "sessions_open (sk_client s)" "sig_pc_ok (wc_sessions (sk_client s)) (sk_pc s g)"
  shows "case sig_event s g of
      None \<Rightarrow> sig_queues t = sig_queues s
    | Some ev \<Rightarrow> queue_apply (sig_queues s) ev = Some (sig_queues t)"
proof -
  obtain ds "is" where q: "sig_queues s = (ds, is)" by (cases "sig_queues s")
  show ?thesis
  proof (cases "sk_pc s g")
    case (RpNext ps)
    then show ?thesis using assms(1) by (cases ps) (auto simp: sig_micro_def Let_def sig_event_def)
  next
    case (SpAnnounce sid k)
    then show ?thesis using assms
      by (auto simp: sig_micro_def Let_def sig_event_def sig_queues_def waiting_sdp_def waiting_ice_def fun_eq_iff
          OnSession_sessions split: option.splits)
  next
    case (SpStore sid k)
    then show ?thesis using assms(1,3)
      by (auto simp: sig_micro_def Let_def sig_event_def sig_queues_def waiting_put fun_eq_iff NewSession_def)
        (simp_all add: waiting_sdp_def waiting_ice_def)
  next
    case (RpIce p ps)
    then obtain sess where sess: "gm_get (wc_sessions (sk_client s)) (peer_of p) = Some sess" using assms(3) by auto
    then have ok: "session_ok (peer_of p) sess" "\<not> sg_closed sess" using assms(2) by (auto simp: sessions_open_def)
    then obtain sess' where put: "OnIceCandidate sess (pk_ice p) = PutOk sess'"
      "t = sk_goto g (RpSdp p ps) (s\<lparr>sk_client := put_session (sk_client s) (peer_of p) sess'\<rparr>)"
      using assms(1) RpIce sess OnIce_spec [OF ok, of "pk_ice p"] by (auto simp: sig_micro_def Let_def split: put_result.splits)
    show ?thesis
      using OnIce_open [OF put(1) ok] sig_queues_put [OF sess] RpIce
      by (cases "pk_ice p") (auto simp: put(2) sig_event_def q opt_list_def)
  next
    case (RpSdp p ps)
    then obtain sess where sess: "gm_get (wc_sessions (sk_client s)) (peer_of p) = Some sess" using assms(3) by auto
    then have ok: "session_ok (peer_of p) sess" "\<not> sg_closed sess" using assms(2) by (auto simp: sessions_open_def)
    then obtain sess' where put: "OnSdp sess (pk_sdp p) = PutOk sess'"
      "t = sk_goto g (RpNext ps) (s\<lparr>sk_client := put_session (sk_client s) (peer_of p) sess'\<rparr>)"
      using assms(1) RpSdp sess OnSdp_spec [OF ok, of "pk_sdp p"] by (auto simp: sig_micro_def Let_def split: put_result.splits)
    show ?thesis
      using OnSdp_open [OF put(1) ok] sig_queues_put [OF sess] RpSdp
      by (cases "pk_sdp p") (auto simp: put(2) sig_event_def q opt_list_def)
  next
    case (DpSdp sid)
    then obtain sess where sess: "gm_get (wc_sessions (sk_client s)) sid = Some sess" using assms(3) by auto
    then have ok: "session_ok sid sess" "\<not> sg_closed sess" using assms(2) by (auto simp: sessions_open_def)
    then show ?thesis
      using assms(1) DpSdp sess sig_queues_put [OF sess] q
      by (cases "sg_sdp sess" rule: chan_recv_cases)
        (auto simp: sig_micro_def Let_def sig_event_def waiting_sdp_def session_ok_def fun_upd_idem)
  next
    case (DpIce sid)
    then obtain sess where sess: "gm_get (wc_sessions (sk_client s)) sid = Some sess" using assms(3) by auto
    then have ok: "session_ok sid sess" "\<not> sg_closed sess" using assms(2) by (auto simp: sessions_open_def)
    then show ?thesis
      using assms(1) DpIce sess sig_queues_put [OF sess] q
      by (cases "sg_ice sess" rule: chan_recv_cases)
        (auto simp: sig_micro_def Let_def sig_event_def waiting_ice_def session_ok_def fun_upd_idem)
  next
    case LpNewPeer
    then show ?thesis using assms(1)
      by (auto simp: sig_micro_def Let_def sig_event_def sig_queues_def waiting_sdp_def waiting_ice_def fun_eq_iff
          split: option.splits recv_result.splits)
  qed (use assms in \<open>auto simp: sig_micro_def Let_def sig_event_def split: option.splits\<close>)
qed

interpretation sig_sim: simulation "sig_lstep cid" sig_conc_inv queue_step sig_queues snd for cid
proof unfold_locales
  fix s l t assume s: "sig_conc_inv s" and step: "sig_lstep cid s l t"
  then show "sig_conc_inv t" using sig_step_inv by (auto simp: sig_lstep_def)
  have sim: "case snd l of None \<Rightarrow> sig_queues t = sig_queues s | Some ev \<Rightarrow> queue_apply (sig_queues s) ev = Some (sig_queues t)"
    using s step sig_micro_queues [of cid s "fst l" t] by (simp add: sig_lstep_def sig_step_def sig_conc_inv_def)
  then show "snd l = None \<Longrightarrow> sig_queues t = sig_queues s" by simp
  show "queue_step (sig_queues s) m (sig_queues t)" if "snd l = Some m" for m
    using sim that by (simp add: queue_step_def)
qed


text \<open>What a goroutine has still to deliver to a peer id.\<close>

primrec use_packets :: "sig_use \<Rightarrow> Packet list" where
  "use_packets (UseDeliver p ps) = p # ps"
| "use_packets UseSdp = []"
| "use_packets UseIce = []"

definition pending_sdps :: "string \<Rightarrow> sig_pc \<Rightarrow> SessionDescription list" where
  "pending_sdps sid pc =
     (case pc of
        RpNext ps \<Rightarrow> sdps_for sid ps
      | SpLock _ k \<Rightarrow> sdps_for sid (use_packets k) | SpFind _ k \<Rightarrow> sdps_for sid (use_packets k)
      | SpAnnounce _ k \<Rightarrow> sdps_for sid (use_packets k) | SpStore _ k \<Rightarrow> sdps_for sid (use_packets k)
      | SpUnlock _ k \<Rightarrow> sdps_for sid (use_packets k)
      | RpClosed p ps \<Rightarrow> sdps_for sid (p # ps) | RpIce p ps \<Rightarrow> sdps_for sid (p # ps)
      | RpSdp p ps \<Rightarrow> sdps_for sid (p # ps)
      | _ \<Rightarrow> [])"

definition pending_ices :: "string \<Rightarrow> sig_pc \<Rightarrow> ICECandidate list" where
  "pending_ices sid pc =
     (case pc of
        RpNext ps \<Rightarrow> ices_for sid ps
      | SpLock _ k \<Rightarrow> ices_for sid (use_packets k) | SpFind _ k \<Rightarrow> ices_for sid (use_packets k)
      | SpAnnounce _ k \<Rightarrow> ices_for sid (use_packets k) | SpStore _ k \<Rightarrow> ices_for sid (use_packets k)
      | SpUnlock _ k \<Rightarrow> ices_for sid (use_packets k)
      | RpClosed p ps \<Rightarrow> ices_for sid (p # ps) | RpIce p ps \<Rightarrow> ices_for sid (p # ps)
      | RpSdp p ps \<Rightarrow> ices_for sid ps
      | _ \<Rightarrow> [])"

lemmas pending_defs = pending_sdps_def pending_ices_def sdps_for_def ices_for_def opt_list_def

lemma pending_step:
  assumes "sig_micro cid s g = Some t" "sessions_open (sk_client s)" "sig_pc_ok (wc_sessions (sk_client s)) (sk_pc s g)"
    and "sid \<noteq> ''''"
  shows "put_sdps sid (opt_list (sig_event s g)) @ pending_sdps sid (sk_pc t g) = pending_sdps sid (sk_pc s g)
    \<and> put_ices sid (opt_list (sig_event s g)) @ pending_ices sid (sk_pc t g) = pending_ices sid (sk_pc s g)"
proof (cases "sk_pc s g")
  case (RpNext ps)
  then show ?thesis using assms(1,4)
    by (cases ps) (auto simp: sig_micro_def Let_def sig_event_def pending_defs queue_lists peer_of_def)
next
  case (SpUnlock sid' k)
  then show ?thesis using assms(1,3)
    by (cases k) (auto simp: sig_micro_def Let_def sig_event_def pending_defs queue_lists)
next
  case (RpClosed p ps)
  then show ?thesis using assms(1-3)
    by (auto simp: sig_micro_def Let_def sig_event_def pending_defs queue_lists sessions_open_def Session_IsClose_def)
next
  case (RpIce p ps)
  then obtain sess where sess: "gm_get (wc_sessions (sk_client s)) (peer_of p) = Some sess" using assms(3) by auto
  then have ok: "session_ok (peer_of p) sess" "\<not> sg_closed sess" using assms(2) by (auto simp: sessions_open_def)
  then have "sk_pc t g = RpSdp p ps"
    using assms(1) RpIce sess OnIce_spec [OF ok, of "pk_ice p"] by (auto simp: sig_micro_def Let_def split: put_result.splits)
  with RpIce show ?thesis
    by (auto simp: sig_event_def pending_defs queue_lists peer_of_def split: option.splits)
next
  case (RpSdp p ps)
  then obtain sess where sess: "gm_get (wc_sessions (sk_client s)) (peer_of p) = Some sess" using assms(3) by auto
  then have ok: "session_ok (peer_of p) sess" "\<not> sg_closed sess" using assms(2) by (auto simp: sessions_open_def)
  then have "sk_pc t g = RpNext ps"
    using assms(1) RpSdp sess OnSdp_spec [OF ok, of "pk_sdp p"] by (auto simp: sig_micro_def Let_def split: put_result.splits)
  with RpSdp show ?thesis
    by (auto simp: sig_event_def pending_defs queue_lists peer_of_def split: option.splits)
qed (use assms(1) in \<open>auto simp: sig_micro_def Let_def sig_event_def pending_defs queue_lists
      split: option.splits recv_result.splits list.splits\<close>)

lemma map_filter_snoc: "List.map_filter f (xs @ [x]) = List.map_filter f xs @ opt_list (f x)"
  by (simp add: List.map_filter_def opt_list_def split: option.split)

lemma pending_run:
  assumes "lrun (sig_lstep cid) s ls t" "sig_conc_inv s" "sid \<noteq> ''''"
    and "\<forall>g. g \<noteq> r \<longrightarrow> pending_sdps sid (sk_pc s g) = [] \<and> pending_ices sid (sk_pc s g) = []"
  shows "(\<forall>g. g \<noteq> r \<longrightarrow> pending_sdps sid (sk_pc t g) = [] \<and> pending_ices sid (sk_pc t g) = [])
    \<and> put_sdps sid (List.map_filter snd ls) @ pending_sdps sid (sk_pc t r) = pending_sdps sid (sk_pc s r)
    \<and> put_ices sid (List.map_filter snd ls) @ pending_ices sid (sk_pc t r) = pending_ices sid (sk_pc s r)"
  using assms
proof (induction rule: lrun.induct)
  case (lrun_start s)
  then show ?case by (simp add: List.map_filter_simps queue_lists)
next
  case (lrun_next s ls t l u)
  obtain g ev where l: "l = (g, ev)" by (cases l)
  have t: "sig_conc_inv t" by (rule sig_sim.inv_run [OF lrun_next(1) lrun_next.prems(1)])
  have micro: "sig_micro cid t g = Some u" "ev = sig_event t g"
    using lrun_next(2) l by (simp_all add: sig_lstep_def sig_step_def)
  note IH = lrun_next.IH [OF lrun_next.prems]
  have step: "put_sdps sid (opt_list ev) @ pending_sdps sid (sk_pc u g) = pending_sdps sid (sk_pc t g)"
    "put_ices sid (opt_list ev) @ pending_ices sid (sk_pc u g) = pending_ices sid (sk_pc t g)"
    using pending_step [OF micro(1) _ _ lrun_next.prems(2)] t micro(2) by (simp_all add: sig_conc_inv_def)
  have keep: "sk_pc u g' = sk_pc t g'" if "g' \<noteq> g" for g' by (rule sig_micro_other [OF micro(1) that])
  have app: "put_sdps sid (List.map_filter snd (ls @ [l])) = put_sdps sid (List.map_filter snd ls) @ put_sdps sid (opt_list ev)"
    "put_ices sid (List.map_filter snd (ls @ [l])) = put_ices sid (List.map_filter snd ls) @ put_ices sid (opt_list ev)"
    by (simp_all add: map_filter_snoc l queue_lists)
  show ?case
  proof (cases "g = r")
    case True
    then show ?thesis using IH step keep unfolding app by auto
  next
    case False
    then have "put_sdps sid (opt_list ev) = []" "put_ices sid (opt_list ev) = []"
      "pending_sdps sid (sk_pc u g) = []" "pending_ices sid (sk_pc u g) = []" using IH step by auto
    then show ?thesis using IH keep False unfolding app by (metis append_Nil2)
  qed
qed


subsection \<open>A round alone\<close>

lemma alone_sig:
  "sig_micro cid s g = Some t \<Longrightarrow> alone (sig_step cid) g t u \<Longrightarrow> alone (sig_step cid) g s u"
  by (rule alone_step) (simp add: sig_step_def)

lemma sk_client_same [simp]: "s\<lparr>sk_client := sk_client s\<rparr> = s" "sk_lock s = l \<Longrightarrow> s\<lparr>sk_lock := l\<rparr> = s"
  by (cases s; simp)+

lemma own_lock: "WLock g free_lock = Some (free_lock\<lparr>lk_writer := Some g\<rparr>)" "WUnlock (free_lock\<lparr>lk_writer := Some g\<rparr>) = free_lock"
  by (simp_all add: lock_defs)

lemma put_put_session [simp]: "put_session (put_session c sid s1) sid s2 = put_session c sid s2"
  by (simp add: put_session_def gm_put_def gm_del_def)

lemma found_put: "gm_get (wc_sessions (put_session c sid sess)) sid = Some sess"
  by (simp add: put_session_def)

text \<open>The uncontended \<open>GetSession\<close>.\<close>

lemma get_session_alone:
  assumes "sk_pc s g = SpLock sid k" "sk_lock s = free_lock" "GetSession cid (sk_client s) sid = Some (sess, c1)"
    and "alone (sig_step cid) g (sk_goto g (after_get sid k) (s\<lparr>sk_client := c1\<rparr>)) u"
  shows "alone (sig_step cid) g s u"
proof -
  let ?l = "free_lock\<lparr>lk_writer := Some g\<rparr>"
  have unlocked: "alone (sig_step cid) g (sk_goto g (SpUnlock sid k) (s\<lparr>sk_lock := ?l, sk_client := c1\<rparr>)) u"
  proof (rule alone_sig [OF _ assms(4)])
    have "s\<lparr>sk_lock := ?l, sk_client := c1, sk_lock := free_lock\<rparr> = s\<lparr>sk_client := c1\<rparr>" using assms(2) by (cases s) simp
    then show "sig_micro cid (sk_goto g (SpUnlock sid k) (s\<lparr>sk_lock := ?l, sk_client := c1\<rparr>)) g =
        Some (sk_goto g (after_get sid k) (s\<lparr>sk_client := c1\<rparr>))"
      by (simp add: sig_micro_def Let_def own_lock)
  qed
  have "alone (sig_step cid) g (sk_goto g (SpFind sid k) (s\<lparr>sk_lock := ?l\<rparr>)) u"
  proof (cases "gm_get (wc_sessions (sk_client s)) sid")
    case None
    then obtain c0 where c0: "OnSession (sk_client s) sid cid = Some c0" "c1 = put_session c0 sid (NewSession sid)"
      using assms(3) by (auto simp: GetSession_def Let_def put_session_def split: option.splits)
    have "alone (sig_step cid) g (sk_goto g (SpStore sid k) (s\<lparr>sk_lock := ?l, sk_client := c0\<rparr>)) u"
      by (rule alone_sig [OF _ unlocked]) (simp add: sig_micro_def Let_def c0(2))
    then have "alone (sig_step cid) g (sk_goto g (SpAnnounce sid k) (s\<lparr>sk_lock := ?l\<rparr>)) u"
      by (rule alone_sig [rotated]) (simp add: sig_micro_def Let_def c0(1))
    then show ?thesis
      by (rule alone_sig [rotated]) (simp add: sig_micro_def Let_def None)
  next
    case (Some sess0)
    then have "c1 = sk_client s" using assms(3) by (simp add: GetSession_def)
    then have "s\<lparr>sk_lock := ?l, sk_client := c1\<rparr> = s\<lparr>sk_lock := ?l\<rparr>" by (cases s) simp
    then show ?thesis
      by (intro alone_sig [OF _ unlocked]) (simp add: sig_micro_def Let_def Some)
  qed
  then show ?thesis
    by (rule alone_sig [rotated]) (simp add: sig_micro_def Let_def assms(1,2) own_lock)
qed

lemma deliver_alone:
  assumes "sk_pc s g = RpIce p ps" "gm_get (wc_sessions (sk_client s)) (peer_of p) = Some sess" "deliver sess p = Delivered sess'"
  shows "alone (sig_step cid) g s (sk_goto g (RpNext ps) (s\<lparr>sk_client := put_session (sk_client s) (peer_of p) sess'\<rparr>))"
proof -
  obtain s1 where s1: "OnIceCandidate sess (pk_ice p) = PutOk s1" "OnSdp s1 (pk_sdp p) = PutOk sess'"
    using assms(3) by (auto simp: deliver_def split: put_result.splits)
  let ?s = "sk_goto g (RpSdp p ps) (s\<lparr>sk_client := put_session (sk_client s) (peer_of p) s1\<rparr>)"
  have "sig_micro cid s g = Some ?s" using assms(1,2) s1(1) by (simp add: sig_micro_def Let_def)
  moreover have "sig_micro cid ?s g = Some (sk_goto g (RpNext ps) (s\<lparr>sk_client := put_session (sk_client s) (peer_of p) sess'\<rparr>))"
    using s1(2) found_put [of "sk_client s" "peer_of p" s1] by (simp add: sig_micro_def Let_def)
  ultimately show ?thesis by (blast intro: alone_sig alone_refl)
qed

subsection \<open>Properties\<close>



definition sig_demo_packet :: "string \<Rightarrow> Packet" where
  "sig_demo_packet sid =
     \<lparr>pk_from = \<lparr>pc_clientId = ''f'', pc_peerId = ''p''\<rparr>, pk_to = \<lparr>pc_clientId = ''b'', pc_peerId = sid\<rparr>,
      pk_sdp = None, pk_ice = Some sid\<rparr>"

definition sig_demo_pc :: "nat \<Rightarrow> sig_pc" where
  "sig_demo_pc g =
     (if g = 0 then RpNext [sig_demo_packet ''x'', sig_demo_packet ''y'']
      else if g = 1 then SpLock ''x'' UseIce else LpEnded)"

definition sig_demo :: sig_conc where
  "sig_demo = sig_conc_start (NewWsBackendSigClient ''b'' ''u'' ''c'') sig_demo_pc"


text \<open>
  C3: the sessions are reliable queues whatever the interleaving of the read loop with the peers and the listener.
  Every run of the client's goroutines is a run of the specification, a bounded queue per peer id for the
  descriptions and one for the candidates; and for every peer id, what the receivers got, what waits in its
  session and what the read loop has still to deliver are together, in order, what waited at the beginning and what
  the packets hold for it: no payload is lost, duplicated, reordered or given to another peer.
\<close>

theorem sessions_are_queues_under_concurrency:
  assumes start: "\<forall>g. sig_starts (pc g)" "sessions_open c"
    and reader: "pc r = RpNext ps" "\<forall>g qs. g \<noteq> r \<longrightarrow> pc g \<noteq> RpNext qs"
    and run: "lrun (sig_lstep cid) (sig_conc_start c pc) ls s" and sid: "sid \<noteq> ''''"
  shows "lrun queue_step (waiting_sdp c, waiting_ice c) (List.map_filter snd ls) (waiting_sdp (sk_client s), waiting_ice (sk_client s))
    \<and> got_sdps sid (List.map_filter snd ls) @ waiting_sdp (sk_client s) sid @ pending_sdps sid (sk_pc s r)
        = waiting_sdp c sid @ sdps_for sid ps
    \<and> got_ices sid (List.map_filter snd ls) @ waiting_ice (sk_client s) sid @ pending_ices sid (sk_pc s r)
        = waiting_ice c sid @ ices_for sid ps"
proof -
  let ?s = "sig_conc_start c pc"
  have inv: "sig_conc_inv ?s" by (rule sig_conc_start_inv [OF start])
  have queues: "lrun queue_step (sig_queues ?s) (List.map_filter snd ls) (sig_queues s)"
    by (rule sig_sim.refines [OF run inv])
  have "pending_sdps sid (sk_pc ?s g) = [] \<and> pending_ices sid (sk_pc ?s g) = []" if "g \<noteq> r" for g
    using spec [OF start(1), of g] reader(2) that
    by (auto simp: sig_starts_def sig_conc_start_def pending_defs)
  then have "put_sdps sid (List.map_filter snd ls) @ pending_sdps sid (sk_pc s r) = sdps_for sid ps"
    "put_ices sid (List.map_filter snd ls) @ pending_ices sid (sk_pc s r) = ices_for sid ps"
    using pending_run [OF run inv sid, of r] reader(1)
    by (simp_all add: sig_conc_start_def pending_sdps_def pending_ices_def)
  with queues queue_run_fifo [OF queues, of sid] show ?thesis
    by (simp add: sig_queues_def sig_conc_start_def) (metis append.assoc)
qed


primrec sig_schedule :: "string \<Rightarrow> sig_conc \<Rightarrow> nat list \<Rightarrow> sig_conc option" where
  "sig_schedule cid s [] = Some s"
| "sig_schedule cid s (g # gs) = (case sig_micro cid s g of None \<Rightarrow> None | Some t \<Rightarrow> sig_schedule cid t gs)"

lemma sig_schedule_run: "sig_schedule cid s gs = Some t \<Longrightarrow> lrun (sig_step cid) s gs t"
  by (induction gs arbitrary: s) (auto simp: sig_step_def intro: lrun_Cons split: option.splits)

lemma lrun_labelled: "lrun (sig_step cid) s gs t \<Longrightarrow> \<exists>ls. lrun (sig_lstep cid) s ls t"
proof (induction rule: lrun.induct)
  case (lrun_start s)
  show ?case by (rule exI [of _ "[]"]) (rule lrun.lrun_start)
next
  case (lrun_next s ls t l u)
  from lrun_next(3) obtain ks where ks: "lrun (sig_lstep cid) s ks t" by (rule exE)
  have "sig_lstep cid t (l, sig_event t l) u" using lrun_next(2) by (simp add: sig_lstep_def)
  with ks have "lrun (sig_lstep cid) s (ks @ [(l, sig_event t l)]) u" by (rule lrun.lrun_next)
  then show ?case by (rule exI)
qed

lemma sig_demo_starts: "\<forall>g. sig_starts (sig_demo_pc g)"
  by (simp add: sig_starts_def sig_demo_pc_def)

lemmas sig_demo_defs = sig_demo_def sig_demo_pc_def sig_conc_start_def sig_demo_packet_def NewWsBackendSigClient_def NewWsSigClient_def

text \<open>The read loop delivers a candidate into the session that the peer, which came first, has had created.\<close>

lemma sig_demo_run:
  "\<exists>s. sig_schedule ''k'' sig_demo [1, 0, 1, 1, 1, 1, 0, 0, 0, 0, 0, 1] = Some s
     \<and> waiting_ice (sk_client s) ''x'' = [] \<and> sk_pc s 0 = RpSdp (sig_demo_packet ''x'') [sig_demo_packet ''y'']
     \<and> sk_pc s 1 = DpGotIce (Some ''x'')"
  by (simp add: sig_demo_defs sig_micro_def Let_def lock_defs peer_of_def OnSession_def chan_send_def put_session_def NewSession_def
      OnIceCandidate_def chan_recv_def Session_IsClose_def waiting_ice_def)

theorem sessions_are_queues_under_concurrency_witness:
  "\<exists>ls s. lrun (sig_lstep ''k'') sig_demo ls s \<and> got_ices ''x'' (List.map_filter snd ls) = [''x'']"
proof -
  let ?ps = "[sig_demo_packet ''x'', sig_demo_packet ''y'']"
  let ?c = "NewWsBackendSigClient ''b'' ''u'' ''c''"
  obtain s where s: "sig_schedule ''k'' sig_demo [1, 0, 1, 1, 1, 1, 0, 0, 0, 0, 0, 1] = Some s"
    "waiting_ice (sk_client s) ''x'' = []" "sk_pc s 0 = RpSdp (sig_demo_packet ''x'') [sig_demo_packet ''y'']"
    using sig_demo_run by blast
  obtain ls where ls: "lrun (sig_lstep ''k'') sig_demo ls s" using lrun_labelled [OF sig_schedule_run [OF s(1)]] by blast
  have new: "sessions_open ?c" by (simp add: sessions_open_def NewWsBackendSigClient_def NewWsSigClient_def)
  have reader: "sig_demo_pc 0 = RpNext ?ps" "\<forall>g qs. g \<noteq> 0 \<longrightarrow> sig_demo_pc g \<noteq> RpNext qs" by (simp_all add: sig_demo_pc_def)
  have "got_ices ''x'' (List.map_filter snd ls) @ waiting_ice (sk_client s) ''x'' @ pending_ices ''x'' (sk_pc s 0) =
      waiting_ice ?c ''x'' @ ices_for ''x'' ?ps"
    using sessions_are_queues_under_concurrency [OF sig_demo_starts new reader ls [unfolded sig_demo_def], of "''x''"] by simp
  then have "got_ices ''x'' (List.map_filter snd ls) = [''x'']"
    using s(2,3)
    by (simp add: pending_defs sig_demo_packet_def waiting_ice_def NewWsBackendSigClient_def NewWsSigClient_def)
  with ls show ?thesis by blast
qed


text \<open>
  Steps of the others while one goroutine holds the lock and its announcement cannot be sent: nobody enters
  \<open>GetSession\<close>, nobody receives the announcement.
\<close>

definition announcement_stuck :: "sig_conc \<Rightarrow> nat \<Rightarrow> bool" where
  "announcement_stuck s g \<longleftrightarrow> (\<exists>sid k ch. sk_pc s g = SpAnnounce sid k \<and> wc_newClient (sk_client s) = Some ch
     \<and> ch_cap ch \<le> length (ch_buf ch)) \<and> (\<forall>g'. sk_pc s g' \<noteq> LpNewPeer)"

lemma announcement_stuck_stays:
  assumes "sig_micro cid s g' = Some t" "lock_agrees (sk_lock s) (sig_place s)" "announcement_stuck s g"
  shows "announcement_stuck t g \<and> sk_pc t g = sk_pc s g \<and> g' \<noteq> g
    \<and> (\<forall>g''. (\<exists>sid k. sk_pc s g'' = SpLock sid k) \<longrightarrow> sk_pc t g'' = sk_pc s g'')"
proof -
  obtain sid k ch where stuck: "sk_pc s g = SpAnnounce sid k" "wc_newClient (sk_client s) = Some ch"
    "ch_cap ch \<le> length (ch_buf ch)" "\<And>g'. sk_pc s g' \<noteq> LpNewPeer"
    using assms(3) unfolding announcement_stuck_def by blast
  have "OnSession (sk_client s) sid cid = None"
    using stuck(2,3) by (auto simp: OnSession_def chan_send_def)
  then have "sig_micro cid s g = None" using stuck(1) by (simp add: sig_micro_def Let_def)
  then have other: "g' \<noteq> g" using assms(1) by auto
  have place: "sig_place s g = Writing" using stuck(1) by (simp add: sig_place_def)
  have out: "sig_place s g' = Outside" using sig_locks.writer_alone [OF assms(2) place, of g'] other by auto
  have held: "lk_writer (sk_lock s) = Some g" using lock_agreesD(2) [OF assms(2)] place by blast
  have lock: "sk_pc s g' \<noteq> SpLock sid' k'" for sid' k'
    using assms(1) held by (auto simp: sig_micro_def Let_def WLock_def)
  have new: "wc_newClient (sk_client t) = wc_newClient (sk_client s) \<and> sk_pc t g' \<noteq> LpNewPeer"
    using assms(1) out lock stuck(4) [of g']
    by (cases "sk_pc s g'")
      (auto simp: sig_micro_def Let_def sig_place_def put_session_def
        split: option.splits list.splits put_result.splits recv_result.splits if_splits)
  have keep: "g'' \<noteq> g' \<Longrightarrow> sk_pc t g'' = sk_pc s g''" for g'' by (rule sig_micro_other [OF assms(1)])
  have "sk_pc t g'' \<noteq> LpNewPeer" for g'' using new keep stuck(4) by (cases "g'' = g'") auto
  then show ?thesis
    using stuck new keep other lock unfolding announcement_stuck_def by metis
qed

text \<open>
  C14: an announcement that nobody receives blocks the client for good.  \<open>GetSession\<close> calls \<open>OnSession\<close> with the
  client's lock held, and \<open>OnSession\<close> sends on a channel that holds one announcement.  Once the listener's
  loop has ended (\<open>Close\<close>, or an error of \<open>NewAnswerPeer\<close>) and one announcement waits, the next unknown peer
  leaves its goroutine in the send with the lock: in every later interleaving it is still there, and no call of
  \<open>GetSession\<close>, \<open>RemoteSdp\<close> or \<open>RemoteIceCandidates\<close>, for whatever peer, known or not, gets past its lock.
\<close>

theorem unreceived_announcement_blocks_the_client:
  assumes start: "\<forall>g. sig_starts (pc g)" and run: "lrun (sig_step cid) (sig_conc_start c pc) gs s"
    and stuck: "sk_pc s g = SpAnnounce sid k" "wc_newClient (sk_client s) = Some ch" "ch_cap ch \<le> length (ch_buf ch)"
    and ended: "\<forall>g'. sk_pc s g' \<noteq> LpNewPeer" and later: "lrun (sig_step cid) s gs' t"
  shows "sk_pc t g = SpAnnounce sid k \<and> sig_micro cid t g = None
    \<and> (\<forall>g' sid' k'. (sk_pc s g' = SpLock sid' k' \<longrightarrow> sk_pc t g' = SpLock sid' k')
         \<and> (sk_pc t g' = SpLock sid' k' \<longrightarrow> sig_micro cid t g' = None))"
proof -
  have agrees: "lock_agrees (sk_lock s) (sig_place s)"
    by (rule sig_locks.agrees_run [OF run sig_start_agrees [OF start]])
  have "announcement_stuck s g" using stuck ended unfolding announcement_stuck_def by blast
  with later agrees have t: "announcement_stuck t g \<and> lock_agrees (sk_lock t) (sig_place t) \<and> sk_pc t g = sk_pc s g
      \<and> (\<forall>g'. (\<exists>sid k. sk_pc s g' = SpLock sid k) \<longrightarrow> sk_pc t g' = sk_pc s g')"
  proof (induction rule: lrun.induct)
    case (lrun_next s ls t l u)
    then have micro: "sig_micro cid t l = Some u" by (simp add: sig_step_def)
    note IH = lrun_next.IH [OF lrun_next.prems]
    from announcement_stuck_stays [OF micro] IH have u: "announcement_stuck u g" "sk_pc u g = sk_pc t g"
      "\<And>g'. \<exists>sid k. sk_pc t g' = SpLock sid k \<Longrightarrow> sk_pc u g' = sk_pc t g'" by blast+
    moreover have "lock_agrees (sk_lock u) (sig_place u)" using sig_locks.agrees_step [OF lrun_next(2)] IH by blast
    ultimately show ?case using IH by metis
  qed simp
  have here: "sk_pc t g = SpAnnounce sid k" using t stuck(1) by simp
  then have held: "lk_writer (sk_lock t) = Some g" using lock_agreesD(2) [of "sk_lock t" "sig_place t" g] t by (simp add: sig_place_def)
  obtain ch' where "wc_newClient (sk_client t) = Some ch'" "ch_cap ch' \<le> length (ch_buf ch')"
    using t unfolding announcement_stuck_def by blast
  then have "OnSession (sk_client t) sid cid = None" by (auto simp: OnSession_def chan_send_def)
  then have "sig_micro cid t g = None" using here by (simp add: sig_micro_def Let_def)
  moreover have "sk_pc t g' = SpLock sid' k'" if "sk_pc s g' = SpLock sid' k'" for g' sid' k' using t that by simp
  moreover have "sig_micro cid t g' = None" if "sk_pc t g' = SpLock sid' k'" for g' sid' k'
    using held that by (simp add: sig_micro_def Let_def WLock_def)
  ultimately show ?thesis using here by blast
qed


text \<open>The listener's loop has ended; the first caller is announced, the second one blocks the read loop.\<close>

lemma sig_demo_stuck:
  "\<exists>s ch. sig_schedule ''k'' sig_demo [0, 0, 0, 0, 0, 0, 0, 0, 0, 0, 0, 0] = Some s
     \<and> sk_pc s 0 = SpAnnounce ''y'' (UseDeliver (sig_demo_packet ''y'') []) \<and> sk_pc s 1 = SpLock ''x'' UseIce
     \<and> wc_newClient (sk_client s) = Some ch \<and> ch_cap ch \<le> length (ch_buf ch) \<and> (\<forall>g. sk_pc s g \<noteq> LpNewPeer)"
  by (simp add: sig_demo_defs sig_micro_def Let_def lock_defs peer_of_def OnSession_def chan_send_def put_session_def NewSession_def
      OnIceCandidate_def OnSdp_def Session_IsClose_def)

theorem unreceived_announcement_blocks_the_client_witness:
  "\<exists>s. lrun (sig_step ''k'') sig_demo [0, 0, 0, 0, 0, 0, 0, 0, 0, 0, 0, 0] s
     \<and> (\<forall>gs t. lrun (sig_step ''k'') s gs t \<longrightarrow> sk_pc t 1 = SpLock ''x'' UseIce \<and> sig_micro ''k'' t 1 = None)"
proof -
  obtain s ch where s: "sig_schedule ''k'' sig_demo [0, 0, 0, 0, 0, 0, 0, 0, 0, 0, 0, 0] = Some s"
    and stuck: "sk_pc s 0 = SpAnnounce ''y'' (UseDeliver (sig_demo_packet ''y'') [])" "wc_newClient (sk_client s) = Some ch"
      "ch_cap ch \<le> length (ch_buf ch)" "\<forall>g. sk_pc s g \<noteq> LpNewPeer"
    and waiting: "sk_pc s 1 = SpLock ''x'' UseIce"
    using sig_demo_stuck by blast
  note run = sig_schedule_run [OF s]
  have "sk_pc t 1 = SpLock ''x'' UseIce \<and> sig_micro ''k'' t 1 = None" if later: "lrun (sig_step ''k'') s gs t" for gs t
    using unreceived_announcement_blocks_the_client [OF sig_demo_starts run [unfolded sig_demo_def] stuck later] waiting by blast
  with run show ?thesis by blast
qed

end
