(* ===== verification/Relay.thy ===== *)
theory Relay
  imports Stderr
begin

section \<open>Goroutines and copying (\<open>net/conn/go.go\<close>)\<close>

text \<open>
  \<open>GoFunc\<close> starts a goroutine and \<open>GoCopy\<close> copies between two connections in both directions.  The
  standard library's \<open>io.Copy\<close>, on which the copying and the file transfers rest, is modelled over the
  results that successive reads return: the reads past the end of the list have not happened yet.
\<close>

datatype 's copy_result = CopyDone nat "go_error option" 's | CopyWaits nat 's

text \<open>The error values that \<open>io.Copy\<close> itself creates.\<close>

definition ErrShortWrite :: go_error where
  "ErrShortWrite = ErrorString ''short write''"

definition errInvalidWrite :: go_error where
  "errInvalidWrite = ErrorString ''invalid write result''"

fun io_Copy ::
  "('s \<Rightarrow> bytes \<Rightarrow> nat \<times> go_error option \<times> 's) \<Rightarrow> nat \<Rightarrow> 's \<Rightarrow> (bytes \<times> go_error option) list \<Rightarrow> 's copy_result" where
  "io_Copy write written dst [] = CopyWaits written dst"
| "io_Copy write written dst ((bs, er) # reads) =
     (let (nw, ew, dst') = (if bs = [] then (0, None, dst) else write dst bs);
          bad = (length bs < nw);
          nw' = (if bad then 0 else nw);
          ew' = (if bad \<and> ew = None then Some errInvalidWrite else ew)
      in if ew' \<noteq> None then CopyDone (written + nw') ew' dst'
         else if nw' \<noteq> length bs then CopyDone (written + nw') (Some ErrShortWrite) dst'
         else (case er of
                 Some e \<Rightarrow> CopyDone (written + nw') (if e = EOF then None else Some e) dst'
               | None \<Rightarrow> io_Copy write (written + nw') dst' reads))"

text \<open>
  What a started function can do: return, with its error logged, or panic.  The deferred recovery of
  \<open>GoFunc\<close> belongs to the goroutine that starts the function, not to the function's own.
\<close>

datatype go_outcome = GfReturns "go_error option" | GfPanics

datatype go_effect = GeNothing | GeLogged go_error | GeProcessDies

definition GoFunc :: "go_outcome \<Rightarrow> go_effect" where
  "GoFunc f =
     (case f of
        GfReturns None \<Rightarrow> GeNothing
      | GfReturns (Some e) \<Rightarrow> GeLogged e
      | GfPanics \<Rightarrow> GeProcessDies)"

text \<open>
  The two copies of \<open>GoCopy\<close> end one after the other with the errors of their \<open>io.Copy\<close>; each sends a
  real error to a channel with one place.  \<open>GoCopy\<close> waits for a value on that channel, and closes both
  ends when it returns.
\<close>

datatype copy_side = SrcToDst | DstToSrc

record go_copy =
  gc_chan :: "go_error gochan"
  gc_result :: "go_error option"
  gc_srcClosed :: bool
  gc_dstClosed :: bool

definition go_copy_start :: go_copy where
  "go_copy_start = \<lparr>gc_chan = make_chan 1, gc_result = None, gc_srcClosed = False, gc_dstClosed = False\<rparr>"

definition copy_ended :: "go_error option \<Rightarrow> go_copy \<Rightarrow> go_copy" where
  "copy_ended err s =
     (if errors_Is err EOF then s
      else case err of
             None \<Rightarrow> s
           | Some e \<Rightarrow> (case chan_send (gc_chan s) e of Sent c \<Rightarrow> s\<lparr>gc_chan := c\<rparr> | _ \<Rightarrow> s))"

definition go_copy_wait :: "go_copy \<Rightarrow> go_copy" where
  "go_copy_wait s =
     (if gc_result s \<noteq> None then s
      else case chan_recv (gc_chan s) of
             Received e c \<Rightarrow> s\<lparr>gc_chan := c, gc_result := Some e, gc_srcClosed := True, gc_dstClosed := True\<rparr>
           | _ \<Rightarrow> s)"

text \<open>\<open>GoCopy\<close> after the copies in the list have ended, in this order.\<close>

fun GoCopy :: "go_copy \<Rightarrow> (copy_side \<times> go_error option) list \<Rightarrow> go_copy" where
  "GoCopy s [] = go_copy_wait s"
| "GoCopy s ((side, err) # rest) = GoCopy (go_copy_wait (copy_ended err s)) rest"

subsection \<open>Lemmas\<close>

text \<open>The bytes that reads deliver up to and including the first one that reports an error.\<close>

fun delivered :: "(bytes \<times> go_error option) list \<Rightarrow> bytes" where
  "delivered [] = []"
| "delivered ((bs, er) # reads) = (case er of Some e \<Rightarrow> bs | None \<Rightarrow> bs @ delivered reads)"

fun read_error :: "(bytes \<times> go_error option) list \<Rightarrow> go_error option" where
  "read_error [] = None"
| "read_error ((bs, er) # reads) = (case er of Some e \<Rightarrow> Some e | None \<Rightarrow> read_error reads)"

text \<open>Into a writer that takes everything, \<open>io.Copy\<close> writes exactly the bytes delivered.\<close>

definition append_all :: "bytes \<Rightarrow> bytes \<Rightarrow> nat \<times> go_error option \<times> bytes" where
  "append_all dst bs = (length bs, None, dst @ bs)"

lemma io_Copy_append_all:
  "io_Copy append_all n dst reads =
     (case read_error reads of
        None \<Rightarrow> CopyWaits (n + length (delivered reads)) (dst @ delivered reads)
      | Some e \<Rightarrow> CopyDone (n + length (delivered reads)) (if e = EOF then None else Some e) (dst @ delivered reads))"
proof (induction reads arbitrary: n dst)
  case (Cons r reads)
  obtain bs er where r: "r = (bs, er)" by fastforce
  show ?case
    using Cons.IH [of "n + length bs" "dst @ bs"] Cons.IH [of n dst] r
    by (cases "bs = []"; cases er) (auto simp: append_all_def split: option.splits)
qed simp

definition real_error :: "go_error option \<Rightarrow> bool" where
  "real_error err \<longleftrightarrow> err \<noteq> None \<and> err \<noteq> Some EOF"

text \<open>Before and after the first real error.\<close>

lemma GoCopy_quiet:
  assumes "\<forall>(side, err) \<in> set ends. \<not> real_error err" "gc_chan s = make_chan 1" "gc_result s = None"
  shows "GoCopy s ends = s"
  using assms
proof (induction ends arbitrary: s)
  case Nil
  then show ?case by (simp add: go_copy_wait_def chan_recv_def)
next
  case (Cons x ends)
  obtain side err where x: "x = (side, err)" by fastforce
  have "copy_ended err s = s" using Cons.prems(1) x by (auto simp: copy_ended_def errors_Is_def real_error_def)
  moreover have "go_copy_wait s = s" using Cons.prems by (simp add: go_copy_wait_def chan_recv_def)
  ultimately show ?case using Cons x by simp
qed

lemma GoCopy_result_stable:
  "gc_result s = Some e \<Longrightarrow> gc_srcClosed s \<Longrightarrow> gc_dstClosed s \<Longrightarrow>
     gc_result (GoCopy s ends) = Some e \<and> gc_srcClosed (GoCopy s ends) \<and> gc_dstClosed (GoCopy s ends)"
proof (induction ends arbitrary: s)
  case (Cons x ends)
  obtain side err where x: "x = (side, err)" by fastforce
  have "gc_result (copy_ended err s) = Some e \<and> gc_srcClosed (copy_ended err s) \<and> gc_dstClosed (copy_ended err s)"
    using Cons.prems by (simp add: copy_ended_def split: option.split send_result.split)
  with Cons.IH [of "copy_ended err s"] x show ?case by (simp add: go_copy_wait_def)
qed (simp add: go_copy_wait_def)

lemma GoCopy_append: "GoCopy s (xs @ [(side, Some e)] @ ys) =
    GoCopy (go_copy_wait (copy_ended (Some e) (foldl (\<lambda>s x. go_copy_wait (copy_ended (snd x) s)) s xs))) ys"
  by (induction xs arbitrary: s) auto

lemma quiet_foldl:
  assumes "\<forall>(side, err) \<in> set ends. \<not> real_error err" "gc_chan s = make_chan 1" "gc_result s = None"
  shows "foldl (\<lambda>s x. go_copy_wait (copy_ended (snd x) s)) s ends = s"
  using assms
proof (induction ends arbitrary: s)
  case (Cons x ends)
  have "copy_ended (snd x) s = s"
    using Cons.prems(1) by (auto simp: copy_ended_def errors_Is_def real_error_def split: prod.splits)
  moreover have "go_copy_wait s = s" using Cons.prems by (simp add: go_copy_wait_def chan_recv_def)
  ultimately show ?case using Cons by simp
qed simp

subsection \<open>Property\<close>

text \<open>
  \<open>GoCopy\<close> returns exactly when a direction fails: it returns the first real error, with both ends
  closed.  When both directions end cleanly (end of stream, the normal end of a forwarded connection) it
  waits for ever and closes neither end.
\<close>

theorem go_copy_ends_only_on_failure:
  assumes "\<forall>(side, err) \<in> set before. \<not> real_error err" "real_error (Some e)"
  shows "GoCopy go_copy_start before = go_copy_start \<and>
    gc_result (GoCopy go_copy_start (before @ [(side, Some e)] @ after)) = Some e \<and>
    gc_srcClosed (GoCopy go_copy_start (before @ [(side, Some e)] @ after)) \<and>
    gc_dstClosed (GoCopy go_copy_start (before @ [(side, Some e)] @ after))"
proof -
  have start: "gc_chan go_copy_start = make_chan 1" "gc_result go_copy_start = None"
    by (simp_all add: go_copy_start_def)
  let ?s = "go_copy_wait (copy_ended (Some e) go_copy_start)"
  have s: "gc_result ?s = Some e" "gc_srcClosed ?s" "gc_dstClosed ?s"
    using assms(2) by (simp_all add: go_copy_start_def copy_ended_def go_copy_wait_def errors_Is_def
        real_error_def go_simps)
  have "GoCopy go_copy_start (before @ [(side, Some e)] @ after) = GoCopy ?s after"
    by (simp only: GoCopy_append quiet_foldl [OF assms(1) start])
  with GoCopy_quiet [OF assms(1) start] GoCopy_result_stable [OF s, of after] show ?thesis by simp
qed

theorem go_copy_ends_only_on_failure_witness:
  "gc_result (GoCopy go_copy_start [(SrcToDst, None), (DstToSrc, Some EOF)]) = None \<and>
   gc_result (GoCopy go_copy_start [(SrcToDst, None), (DstToSrc, Some NetErrClosed)]) = Some NetErrClosed"
proof
  show "gc_result (GoCopy go_copy_start [(SrcToDst, None), (DstToSrc, Some EOF)]) = None"
    using go_copy_ends_only_on_failure [of "[(SrcToDst, None), (DstToSrc, Some EOF)]" NetErrClosed]
    by (simp add: real_error_def go_copy_start_def)
  show "gc_result (GoCopy go_copy_start [(SrcToDst, None), (DstToSrc, Some NetErrClosed)]) = Some NetErrClosed"
    using go_copy_ends_only_on_failure [of "[(SrcToDst, None)]" NetErrClosed DstToSrc "[]"]
    by (simp add: real_error_def)
qed

end
