(* ===== verification/Registry.thy ===== *)
theory Registry
  imports Puup_Prelude
begin

section \<open>The contract of a keyed registry\<close>

text \<open>
  The signalling server keeps its backends, the listener its peers and the signalling client its
  sessions in mutable maps behind a lock.  Their common contract: a lookup sees the last registration
  or removal of its key, and nothing else.  \<open>mk\<close> is the entry that a registration of a value creates.
\<close>

datatype ('k, 'c) reg_op = RegIns 'k 'c | RegDel 'k

fun reg_key :: "('k, 'c) reg_op \<Rightarrow> 'k" where
  "reg_key (RegIns k c) = k"
| "reg_key (RegDel k) = k"

text \<open>The specification: what a history of operations leaves under a key.\<close>

fun reg_spec :: "('k \<Rightarrow> 'c \<Rightarrow> 'v) \<Rightarrow> ('k, 'c) reg_op list \<Rightarrow> 'k \<Rightarrow> 'v option \<Rightarrow> 'v option" where
  "reg_spec mk [] k v = v"
| "reg_spec mk (RegIns k' c # ops) k v = reg_spec mk ops k (if k = k' then Some (mk k' c) else v)"
| "reg_spec mk (RegDel k' # ops) k v = reg_spec mk ops k (if k = k' then None else v)"

fun reg_run :: "('k \<Rightarrow> 'c \<Rightarrow> 's \<Rightarrow> 's) \<Rightarrow> ('k \<Rightarrow> 's \<Rightarrow> 's) \<Rightarrow> ('k, 'c) reg_op list \<Rightarrow> 's \<Rightarrow> 's" where
  "reg_run ins del [] s = s"
| "reg_run ins del (RegIns k c # ops) s = reg_run ins del ops (ins k c s)"
| "reg_run ins del (RegDel k # ops) s = reg_run ins del ops (del k s)"

locale registry =
  fixes look :: "'s \<Rightarrow> 'k \<Rightarrow> 'v option"
    and ins :: "'k \<Rightarrow> 'c \<Rightarrow> 's \<Rightarrow> 's"
    and del :: "'k \<Rightarrow> 's \<Rightarrow> 's"
    and mk :: "'k \<Rightarrow> 'c \<Rightarrow> 'v"
    and inv :: "'s \<Rightarrow> bool"
  assumes look_ins: "inv s \<Longrightarrow> look (ins k c s) k' = (if k' = k then Some (mk k c) else look s k')"
    and look_del: "inv s \<Longrightarrow> look (del k s) k' = (if k' = k then None else look s k')"
    and inv_ins: "inv s \<Longrightarrow> inv (ins k c s)"
    and inv_del: "inv s \<Longrightarrow> inv (del k s)"
begin

lemma look_run: "inv s \<Longrightarrow> look (reg_run ins del ops s) k = reg_spec mk ops k (look s k)"
proof (induction ops arbitrary: s)
  case (Cons op ops)
  then show ?case by (cases op) (simp_all add: look_ins look_del inv_ins inv_del)
qed simp

lemma inv_run: "inv s \<Longrightarrow> inv (reg_run ins del ops s)"
proof (induction ops arbitrary: s)
  case (Cons op ops)
  then show ?case by (cases op) (simp_all add: inv_ins inv_del)
qed simp

lemma look_run_other:
  "inv s \<Longrightarrow> k \<notin> reg_key ` set ops \<Longrightarrow> look (reg_run ins del ops s) k = look s k"
proof (induction ops arbitrary: s)
  case (Cons op ops)
  then show ?case by (cases op) (auto simp: look_ins look_del inv_ins inv_del)
qed simp

end

end
