(* ===== verification/Server.thy ===== *)
theory Server
  imports Proto Registry "HOL-Library.Multiset"
begin

section \<open>The signalling server (\<open>server/\<close>)\<close>

text \<open>
  The server keeps one \<open>Session\<close> per cluster with the connected backends and frontends, and forwards
  packets between them.  A websocket connection is a pointer, a number here; \<open>conn.WriteJSON\<close> is library
  code and the argument \<open>writeJSON\<close>.  \<open>HandleWs\<close>, the handler of one connection, is split at its calls
  into the shared state: registering after the header, one round of the packet loop, and the deferred
  unregistering; \<open>HandleWs\<close> composes them for a connection that is not interleaved with others, and the
  transition system below interleaves them.
\<close>

definition NoCluster :: string where
  "NoCluster = ''nc''"

text \<open>What the HTTP signalling kept of a client.\<close>

record ClientInfo =
  ci_candidates :: "(string, ICECandidate) gomap"
  ci_sdp :: bytes

definition NewClientInfo :: ClientInfo where
  "NewClientInfo = \<lparr>ci_candidates = [], ci_sdp = []\<rparr>"

record SdpPair =
  sp_back :: "ClientInfo option"
  sp_front :: "ClientInfo option"

record Client =
  cl_id :: string
  cl_peers :: "(string, string) gomap"
  cl_conn :: "nat option"

definition Client_Close :: "Client option \<Rightarrow> nat option" where
  "Client_Close c = (case c of None \<Rightarrow> None | Some cl \<Rightarrow> cl_conn cl)"

definition Client_Send ::
  "(nat \<Rightarrow> Packet \<Rightarrow> go_error option) \<Rightarrow> Client \<Rightarrow> Packet option \<Rightarrow> go_error option" where
  "Client_Send writeJSON c v =
     (case (cl_conn c, v) of
        (Some conn, Some pkt) \<Rightarrow> writeJSON conn pkt
      | _ \<Rightarrow> Some NetErrClosed)"

record Session =
  ss_cluster :: string
  ss_backends :: "(string, Client) gomap"
  ss_frontends :: "(string, Client) gomap"

record Server =
  sv_sessions :: "(string, Session) gomap"

definition NewServer :: Server where
  "NewServer = \<lparr>sv_sessions = []\<rparr>"

definition new_client :: "string \<Rightarrow> nat \<Rightarrow> Client" where
  "new_client cid conn = \<lparr>cl_id = cid, cl_peers = [], cl_conn = Some conn\<rparr>"

definition AddBackend :: "string \<Rightarrow> string \<Rightarrow> nat \<Rightarrow> Server \<Rightarrow> Server" where
  "AddBackend name cid conn s =
     (let sess = (case gm_get (sv_sessions s) name of
                    Some sess \<Rightarrow> sess
                  | None \<Rightarrow> \<lparr>ss_cluster = name, ss_backends = [], ss_frontends = []\<rparr>)
      in s\<lparr>sv_sessions := gm_put name
             (sess\<lparr>ss_backends := gm_put cid (new_client cid conn) (ss_backends sess)\<rparr>) (sv_sessions s)\<rparr>)"

text \<open>\<open>ord\<close> is the order in which \<open>range\<close> visits the keys of the map.\<close>

definition GetBackends :: "(string list \<Rightarrow> string list) \<Rightarrow> string \<Rightarrow> Server \<Rightarrow> string list" where
  "GetBackends ord name s =
     (case gm_get (sv_sessions s) name of
        None \<Rightarrow> []
      | Some sess \<Rightarrow> replicate (length (ss_backends sess)) '''' @ ord (gm_keys (ss_backends sess)))"

definition GetBackend :: "string \<Rightarrow> string \<Rightarrow> Server \<Rightarrow> Client option" where
  "GetBackend name cid s =
     (case gm_get (sv_sessions s) name of None \<Rightarrow> None | Some sess \<Rightarrow> gm_get (ss_backends sess) cid)"

definition DelBackend :: "string \<Rightarrow> string \<Rightarrow> Server \<Rightarrow> Server" where
  "DelBackend name cid s =
     (case gm_get (sv_sessions s) name of
        None \<Rightarrow> s
      | Some sess \<Rightarrow>
          (let bs = gm_del cid (ss_backends sess) in
           if bs = [] then s\<lparr>sv_sessions := gm_del name (sv_sessions s)\<rparr>
           else s\<lparr>sv_sessions := gm_put name (sess\<lparr>ss_backends := bs\<rparr>) (sv_sessions s)\<rparr>))"

definition AddFrontend :: "string \<Rightarrow> string \<Rightarrow> nat \<Rightarrow> Server \<Rightarrow> bool \<times> Server" where
  "AddFrontend name cid conn s =
     (case gm_get (sv_sessions s) name of
        None \<Rightarrow> (False, s)
      | Some sess \<Rightarrow>
          (True, s\<lparr>sv_sessions := gm_put name
             (sess\<lparr>ss_frontends := gm_put cid (new_client cid conn) (ss_frontends sess)\<rparr>) (sv_sessions s)\<rparr>))"

definition GetFrontend :: "string \<Rightarrow> string \<Rightarrow> Server \<Rightarrow> Client option" where
  "GetFrontend name cid s =
     (case gm_get (sv_sessions s) name of None \<Rightarrow> None | Some sess \<Rightarrow> gm_get (ss_frontends sess) cid)"

definition DelFrontend :: "string \<Rightarrow> string \<Rightarrow> Server \<Rightarrow> Server" where
  "DelFrontend name cid s =
     (case gm_get (sv_sessions s) name of
        None \<Rightarrow> s
      | Some sess \<Rightarrow>
          s\<lparr>sv_sessions := gm_put name
             (sess\<lparr>ss_frontends := gm_del cid (ss_frontends sess)\<rparr>) (sv_sessions s)\<rparr>)"

text \<open>The \<open>/api/cluster\<close> handler: the ids of its JSON answer for the query parameter \<open>name\<close>.\<close>

definition Cluster :: "(string list \<Rightarrow> string list) \<Rightarrow> string \<Rightarrow> Server \<Rightarrow> string list" where
  "Cluster ord name s = (if name \<noteq> '''' then GetBackends ord name s else [])"

subsection \<open>The websocket handler (\<open>server/ws.go\<close>)\<close>

text \<open>\<open>tstr\<close> is the library's \<open>SDPType.String\<close>, used in an error text.\<close>

definition HandleWs_open ::
  "(SDPType \<Rightarrow> string) \<Rightarrow> Server \<Rightarrow> WsHeader \<Rightarrow> nat \<Rightarrow> Server \<times> go_error option" where
  "HandleWs_open tstr s h conn =
     (case wh_type h of
        SDPTypeAnswer \<Rightarrow> (AddBackend (wh_name h) (wh_id h) conn s, None)
      | SDPTypeOffer \<Rightarrow>
          (case AddFrontend (wh_name h) (wh_id h) conn s of
             (True, s') \<Rightarrow> (s', None)
           | (False, s') \<Rightarrow> (s', Some (ErrorString ''cluster has no backend'')))
      | SDPTypeOther _ \<Rightarrow> (s, Some (ErrorString (''unknown header type '' @ tstr (wh_type h)))))"

definition HandleWs_exit :: "Server \<Rightarrow> WsHeader \<Rightarrow> Server" where
  "HandleWs_exit s h =
     (case wh_type h of
        SDPTypeAnswer \<Rightarrow> DelBackend (wh_name h) (wh_id h) s
      | SDPTypeOffer \<Rightarrow> DelFrontend (wh_name h) (wh_id h) s
      | SDPTypeOther _ \<Rightarrow> s)"

datatype ws_round = WsDropped | WsSent nat Packet | WsFailed go_error

definition HandleWs_packet ::
  "(nat \<Rightarrow> Packet \<Rightarrow> go_error option) \<Rightarrow> Server \<Rightarrow> WsHeader \<Rightarrow> Packet \<Rightarrow> ws_round" where
  "HandleWs_packet writeJSON s h packet =
     (let client = (case wh_type h of
                      SDPTypeAnswer \<Rightarrow> GetFrontend (wh_name h) (pc_clientId (pk_from packet)) s
                    | SDPTypeOffer \<Rightarrow> GetBackend (wh_name h) (pc_clientId (pk_from packet)) s
                    | SDPTypeOther _ \<Rightarrow> None)
      in case client of
           None \<Rightarrow> WsDropped
         | Some cl \<Rightarrow>
             (let pcid = (case gm_get (cl_peers cl) (pc_peerId (pk_from packet)) of None \<Rightarrow> '''' | Some x \<Rightarrow> x);
                  packet' = packet\<lparr>pk_to := (pk_to packet)\<lparr>pc_clientId := pcid\<rparr>\<rparr>
              in case Client_Send writeJSON cl (Some packet') of
                   Some e \<Rightarrow> WsFailed e
                 | None \<Rightarrow> (case cl_conn cl of None \<Rightarrow> WsFailed NetErrClosed | Some conn \<Rightarrow> WsSent conn packet')))"

text \<open>
  The loop over what the successive \<open>conn.ReadJSON\<close> calls return; the end of the list is a connection
  that waits for its next packet.
\<close>

datatype ws_end = WsReturn "go_error option" | WsWaiting

fun HandleWs_loop ::
  "(nat \<Rightarrow> Packet \<Rightarrow> go_error option) \<Rightarrow> Server \<Rightarrow> WsHeader \<Rightarrow> (go_error + Packet) list
   \<Rightarrow> ws_end \<times> (nat \<times> Packet) list" where
  "HandleWs_loop w s h [] = (WsWaiting, [])"
| "HandleWs_loop w s h (Inl e # reads) = (WsReturn (if e = EOF then None else Some e), [])"
| "HandleWs_loop w s h (Inr packet # reads) =
     (case HandleWs_packet w s h packet of
        WsDropped \<Rightarrow> HandleWs_loop w s h reads
      | WsFailed e \<Rightarrow> (WsReturn (Some e), [])
      | WsSent conn pkt \<Rightarrow>
          (case HandleWs_loop w s h reads of (en, out) \<Rightarrow> (en, (conn, pkt) # out)))"

text \<open>
  A failed upgrade leaves \<open>conn\<close> nil; reading from it panics, and the deferred function recovers.
\<close>

definition HandleWs ::
  "(SDPType \<Rightarrow> string) \<Rightarrow> (nat \<Rightarrow> Packet \<Rightarrow> go_error option) \<Rightarrow> Server \<Rightarrow> nat option \<Rightarrow> go_error + WsHeader \<Rightarrow>
   (go_error + Packet) list \<Rightarrow> Server \<times> ws_end \<times> (nat \<times> Packet) list" where
  "HandleWs tstr w s conn hdr reads =
     (case conn of
        None \<Rightarrow> (s, WsReturn None, [])
      | Some c \<Rightarrow>
          (case hdr of
             Inl e \<Rightarrow> (s, WsReturn (Some e), [])
           | Inr h \<Rightarrow>
               (case HandleWs_open tstr s h c of
                  (s1, Some e) \<Rightarrow> (HandleWs_exit s1 h, WsReturn (Some e), [])
                | (s1, None) \<Rightarrow>
                    (case HandleWs_loop w s1 h reads of
                       (WsWaiting, out) \<Rightarrow> (s1, WsWaiting, out)
                     | (WsReturn e, out) \<Rightarrow> (HandleWs_exit s1 h, WsReturn e, out)))))"

subsection \<open>All connections together\<close>

record srv_sys =
  sy_srv :: Server
  sy_live :: "(nat, WsHeader) gomap"

definition srv_init :: srv_sys where
  "srv_init = \<lparr>sy_srv = NewServer, sy_live = []\<rparr>"

inductive srv_step :: "(SDPType \<Rightarrow> string) \<Rightarrow> srv_sys \<Rightarrow> srv_sys \<Rightarrow> bool" for tstr where
  sy_connect: "gm_get (sy_live s) c = None \<Longrightarrow> HandleWs_open tstr (sy_srv s) h c = (srv, None) \<Longrightarrow>
     srv_step tstr s \<lparr>sy_srv = srv, sy_live = gm_put c h (sy_live s)\<rparr>"
| sy_reject: "gm_get (sy_live s) c = None \<Longrightarrow> HandleWs_open tstr (sy_srv s) h c = (srv, Some e) \<Longrightarrow>
     srv_step tstr s (s\<lparr>sy_srv := HandleWs_exit srv h\<rparr>)"
| sy_leave: "gm_get (sy_live s) c = Some h \<Longrightarrow>
     srv_step tstr s \<lparr>sy_srv = HandleWs_exit (sy_srv s) h, sy_live = gm_del c (sy_live s)\<rparr>"

inductive srv_reach :: "(SDPType \<Rightarrow> string) \<Rightarrow> srv_sys \<Rightarrow> bool" for tstr where
  sr_init: "srv_reach tstr srv_init"
| sr_step: "srv_reach tstr s \<Longrightarrow> srv_step tstr s t \<Longrightarrow> srv_reach tstr t"

subsection \<open>Lookups after each operation\<close>

lemma GetBackend_Add:
  "GetBackend n i (AddBackend name cid c s) =
     (if n = name \<and> i = cid then Some (new_client cid c) else GetBackend n i s)"
  by (auto simp: GetBackend_def AddBackend_def Let_def split: option.split)

lemma GetBackend_Del:
  "GetBackend n i (DelBackend name cid s) = (if n = name \<and> i = cid then None else GetBackend n i s)"
proof (cases "gm_get (sv_sessions s) name")
  case None
  then show ?thesis by (auto simp: GetBackend_def DelBackend_def)
next
  case (Some sess)
  have "gm_del cid (ss_backends sess) = [] \<Longrightarrow> i \<noteq> cid \<Longrightarrow> gm_get (ss_backends sess) i = None"
    using gm_get_del [of cid "ss_backends sess" i] by (metis map_of.simps(1))
  with Some show ?thesis
    by (auto simp: GetBackend_def DelBackend_def Let_def split: option.split)
qed

lemma GetFrontend_AddBackend [simp]: "GetFrontend n i (AddBackend name cid c s) = GetFrontend n i s"
  by (auto simp: GetFrontend_def AddBackend_def Let_def split: option.split)

lemma GetBackend_AddFrontend [simp]: "GetBackend n i (snd (AddFrontend name cid c s)) = GetBackend n i s"
  by (auto simp: GetBackend_def AddFrontend_def split: option.split)

lemma GetBackend_DelFrontend [simp]: "GetBackend n i (DelFrontend name cid s) = GetBackend n i s"
  by (auto simp: GetBackend_def DelFrontend_def split: option.split)

lemma GetFrontend_Add:
  "GetFrontend n i (snd (AddFrontend name cid c s)) =
     (if fst (AddFrontend name cid c s) \<and> n = name \<and> i = cid then Some (new_client cid c) else GetFrontend n i s)"
  by (auto simp: GetFrontend_def AddFrontend_def split: option.split)

lemma GetFrontend_Del:
  "GetFrontend n i (DelFrontend name cid s) = (if n = name \<and> i = cid then None else GetFrontend n i s)"
  by (auto simp: GetFrontend_def DelFrontend_def split: option.split)

lemma GetFrontend_DelBackend: "GetFrontend n i (DelBackend name cid s) = Some cl \<Longrightarrow> GetFrontend n i s = Some cl"
  by (auto simp: GetFrontend_def DelBackend_def Let_def split: option.splits if_splits)

text \<open>The backends of the server are a registry over pairs of cluster name and id.\<close>

interpretation backends: registry
  "\<lambda>s (n, i). GetBackend n i s" "\<lambda>(n, i) c s. AddBackend n i c s" "\<lambda>(n, i) s. DelBackend n i s"
  "\<lambda>(n, i) c. new_client i c" "\<lambda>_. True"
  by unfold_locales (auto simp: GetBackend_Add GetBackend_Del split: if_splits)

subsection \<open>The invariant of the server\<close>

text \<open>
  Every session belongs to its key and has a backend; every registered client carries its own id, has no
  peers, and is the live connection that announced itself with exactly this role, id and cluster.
\<close>

definition entry_ok :: "(nat, WsHeader) gomap \<Rightarrow> SDPType \<Rightarrow> string \<Rightarrow> string \<Rightarrow> Client \<Rightarrow> bool" where
  "entry_ok live t n i cl \<longleftrightarrow>
     (\<exists>c. cl = new_client i c \<and> gm_get live c = Some \<lparr>wh_type = t, wh_id = i, wh_name = n\<rparr>)"

definition sessions_ok :: "Server \<Rightarrow> bool" where
  "sessions_ok s \<longleftrightarrow> (\<forall>n sess. gm_get (sv_sessions s) n = Some sess \<longrightarrow>
     ss_cluster sess = n \<and> ss_backends sess \<noteq> [])"

definition srv_inv :: "srv_sys \<Rightarrow> bool" where
  "srv_inv s \<longleftrightarrow> sessions_ok (sy_srv s)
     \<and> (\<forall>n i cl. GetBackend n i (sy_srv s) = Some cl \<longrightarrow> entry_ok (sy_live s) SDPTypeAnswer n i cl)
     \<and> (\<forall>n i cl. GetFrontend n i (sy_srv s) = Some cl \<longrightarrow> entry_ok (sy_live s) SDPTypeOffer n i cl)"

lemma sessions_ok_ops [simp]:
  assumes "sessions_ok s"
  shows "sessions_ok (AddBackend n i c s)" "sessions_ok (DelBackend n i s)"
    "sessions_ok (snd (AddFrontend n i c s))" "sessions_ok (DelFrontend n i s)"
  using assms
  by (auto simp: sessions_ok_def AddBackend_def DelBackend_def AddFrontend_def DelFrontend_def Let_def
      split: option.splits if_splits)

lemma entry_ok_put: "entry_ok live t n i cl \<Longrightarrow> gm_get live c = None \<Longrightarrow> entry_ok (gm_put c h live) t n i cl"
  by (auto simp: entry_ok_def)

lemma entry_ok_new:
  "entry_ok (gm_put c h live) (wh_type h) (wh_name h) (wh_id h) (new_client (wh_id h) c)"
  unfolding entry_ok_def by (rule exI [of _ c]) simp

text \<open>An entry other than the one named by the header of \<open>c\<close> is not an entry of \<open>c\<close>.\<close>

lemma entry_ok_del:
  "entry_ok live t n i cl \<Longrightarrow> gm_get live c = Some h \<Longrightarrow> (t, n, i) \<noteq> (wh_type h, wh_name h, wh_id h) \<Longrightarrow>
     entry_ok (gm_del c live) t n i cl"
proof -
  assume e: "entry_ok live t n i cl" and c: "gm_get live c = Some h"
    and ne: "(t, n, i) \<noteq> (wh_type h, wh_name h, wh_id h)"
  obtain c' where c': "cl = new_client i c'" "gm_get live c' = Some \<lparr>wh_type = t, wh_id = i, wh_name = n\<rparr>"
    using e by (auto simp: entry_ok_def)
  then have "c' \<noteq> c" using c ne by auto
  with c' show ?thesis unfolding entry_ok_def by (intro exI [of _ c']) simp
qed

lemma srv_step_inv: "srv_step tstr s t \<Longrightarrow> srv_inv s \<Longrightarrow> srv_inv t"
proof (induction rule: srv_step.induct)
  case (sy_connect s c h srv)
  show ?case
  proof (cases "wh_type h")
    case SDPTypeOffer
    then have srv: "srv = snd (AddFrontend (wh_name h) (wh_id h) c (sy_srv s))"
      using sy_connect(2) by (auto simp: HandleWs_open_def split: prod.splits bool.splits)
    show ?thesis
      using sy_connect(1,3) SDPTypeOffer entry_ok_new [of c h "sy_live s"]
      by (auto simp: srv_inv_def srv GetFrontend_Add intro: entry_ok_put split: if_splits)
  next
    case SDPTypeAnswer
    then have srv: "srv = AddBackend (wh_name h) (wh_id h) c (sy_srv s)"
      using sy_connect(2) by (simp add: HandleWs_open_def)
    show ?thesis
      using sy_connect(1,3) SDPTypeAnswer entry_ok_new [of c h "sy_live s"]
      by (auto simp: srv_inv_def srv GetBackend_Add intro: entry_ok_put split: if_splits)
  qed (use sy_connect(2) in \<open>simp add: HandleWs_open_def\<close>)
next
  case (sy_reject s c h srv e)
  have "srv = sy_srv s \<and> (wh_type h = SDPTypeOffer \<longrightarrow> gm_get (sv_sessions (sy_srv s)) (wh_name h) = None)
     \<and> wh_type h \<noteq> SDPTypeAnswer"
    using sy_reject(2)
    by (auto simp: HandleWs_open_def AddFrontend_def split: SDPType.splits option.splits)
  then have "HandleWs_exit srv h = sy_srv s"
    by (auto simp: HandleWs_exit_def DelFrontend_def split: SDPType.split)
  with sy_reject show ?case by simp
next
  case (sy_leave s c h)
  then show ?case
    by (cases "wh_type h")
      (auto simp: srv_inv_def HandleWs_exit_def GetBackend_Del GetFrontend_Del
        dest!: GetFrontend_DelBackend intro: entry_ok_del split: if_splits)
qed

lemma srv_reach_inv: "srv_reach tstr s \<Longrightarrow> srv_inv s"
proof (induction rule: srv_reach.induct)
  case sr_init
  show ?case by (simp add: srv_inv_def srv_init_def NewServer_def sessions_ok_def GetBackend_def GetFrontend_def)
qed (rule srv_step_inv)

lemma Client_Send_new [simp]: "Client_Send w (new_client i c) (Some p) = w c p"
  by (simp add: Client_Send_def new_client_def)

lemma new_client_sel [simp]: "cl_peers (new_client i c) = []" "cl_conn (new_client i c) = Some c" "cl_id (new_client i c) = i"
  by (simp_all add: new_client_def)

subsection \<open>Properties\<close>

text \<open>
  C12: in every reachable state the registrations are those of live connections: a registered backend
  (frontend) is a connection whose handler is running and that announced itself as an answering
  (offering) client with exactly this id and cluster; and a cluster has a session if and only if it has
  a backend.
\<close>

theorem registrations_are_live:
  assumes "srv_reach tstr s"
  shows "(GetBackend n i (sy_srv s) = Some cl \<longrightarrow>
      (\<exists>c. cl_conn cl = Some c \<and> gm_get (sy_live s) c = Some \<lparr>wh_type = SDPTypeAnswer, wh_id = i, wh_name = n\<rparr>))
    \<and> (GetFrontend n i (sy_srv s) = Some cl \<longrightarrow>
      (\<exists>c. cl_conn cl = Some c \<and> gm_get (sy_live s) c = Some \<lparr>wh_type = SDPTypeOffer, wh_id = i, wh_name = n\<rparr>))
    \<and> (gm_get (sv_sessions (sy_srv s)) n \<noteq> None \<longleftrightarrow> (\<exists>j. GetBackend n j (sy_srv s) \<noteq> None))"
proof -
  have inv: "srv_inv s" using assms by (rule srv_reach_inv)
  have "ss_backends sess \<noteq> []" if "gm_get (sv_sessions (sy_srv s)) n = Some sess" for sess
    using inv that by (auto simp: srv_inv_def sessions_ok_def)
  then have "gm_get (sv_sessions (sy_srv s)) n \<noteq> None \<longleftrightarrow> (\<exists>j. GetBackend n j (sy_srv s) \<noteq> None)"
    using gm_get_Nil_iff by (fastforce simp: GetBackend_def split: option.splits)
  with inv show ?thesis by (fastforce simp: srv_inv_def entry_ok_def)
qed

definition hdr_b :: WsHeader where
  "hdr_b = \<lparr>wh_type = SDPTypeAnswer, wh_id = ''b'', wh_name = ''open''\<rparr>"

definition hdr_f :: WsHeader where
  "hdr_f = \<lparr>wh_type = SDPTypeOffer, wh_id = ''f'', wh_name = ''open''\<rparr>"

definition sys_bf :: srv_sys where
  "sys_bf = \<lparr>sy_srv = snd (AddFrontend ''open'' ''f'' 2 (AddBackend ''open'' ''b'' 1 NewServer)),
             sy_live = [(2, hdr_f), (1, hdr_b)]\<rparr>"

lemma sys_bf_reach: "srv_reach tstr sys_bf"
proof -
  let ?s1 = "\<lparr>sy_srv = AddBackend ''open'' ''b'' 1 NewServer, sy_live = [(1, hdr_b)]\<rparr>"
  have "srv_step tstr srv_init ?s1"
    using sy_connect [of srv_init 1 tstr hdr_b]
    by (simp add: srv_init_def HandleWs_open_def hdr_b_def gm_put_def gm_del_def)
  moreover have "srv_step tstr ?s1 sys_bf"
    using sy_connect [of ?s1 2 tstr hdr_f]
    by (simp add: sys_bf_def HandleWs_open_def hdr_f_def gm_put_def gm_del_def AddFrontend_def AddBackend_def
        NewServer_def Let_def)
  ultimately show ?thesis using srv_reach.intros by blast
qed

theorem registrations_are_live_witness:
  "GetBackend ''open'' ''b'' (sy_srv sys_bf) = Some (new_client ''b'' 1) \<and>
   gm_get (sy_live sys_bf) 1 = Some \<lparr>wh_type = SDPTypeAnswer, wh_id = ''b'', wh_name = ''open''\<rparr>"
proof -
  have g: "GetBackend ''open'' ''b'' (sy_srv sys_bf) = Some (new_client ''b'' 1)"
    by (simp add: sys_bf_def GetBackend_Add)
  with registrations_are_live [OF sys_bf_reach, of "''open''" "''b''" "new_client ''b'' 1"]
  show ?thesis by simp
qed

text \<open>
  C20: routing.  In a reachable state, a packet of a client is dropped or goes to the live connection of
  the other role in the same cluster that is registered under the packet's \<open>From.ClientId\<close> (the sender's
  field, not \<open>To.ClientId\<close>); it arrives unchanged except that \<open>To.ClientId\<close> is emptied, because no code
  ever fills a client's \<open>Peers\<close>.
\<close>

theorem packets_are_routed_by_from_id:
  assumes "srv_reach tstr s" "HandleWs_packet w (sy_srv s) h pkt = WsSent c pkt'"
  shows "pkt' = pkt\<lparr>pk_to := (pk_to pkt)\<lparr>pc_clientId := ''''\<rparr>\<rparr> \<and> w c pkt' = None \<and>
    (wh_type h = SDPTypeAnswer \<and>
       gm_get (sy_live s) c = Some \<lparr>wh_type = SDPTypeOffer, wh_id = pc_clientId (pk_from pkt), wh_name = wh_name h\<rparr> \<or>
     wh_type h = SDPTypeOffer \<and>
       gm_get (sy_live s) c = Some \<lparr>wh_type = SDPTypeAnswer, wh_id = pc_clientId (pk_from pkt), wh_name = wh_name h\<rparr>)"
proof -
  let ?i = "pc_clientId (pk_from pkt)"
  obtain t cl where t: "wh_type h = SDPTypeAnswer \<and> t = SDPTypeOffer \<or> wh_type h = SDPTypeOffer \<and> t = SDPTypeAnswer"
    and ok: "entry_ok (sy_live s) t (wh_name h) ?i cl"
    and sent: "(case w c (pkt\<lparr>pk_to := (pk_to pkt)\<lparr>pc_clientId := ''''\<rparr>\<rparr>) of None \<Rightarrow> True | _ \<Rightarrow> False)"
      "cl_conn cl = Some c" "pkt' = pkt\<lparr>pk_to := (pk_to pkt)\<lparr>pc_clientId := ''''\<rparr>\<rparr>"
    using srv_reach_inv [OF assms(1)] assms(2)
    by (fastforce simp: HandleWs_packet_def Let_def srv_inv_def entry_ok_def split: SDPType.splits option.splits)
  then show ?thesis by (auto simp: entry_ok_def split: option.splits)
qed

theorem packets_are_routed_by_from_id_witness:
  "HandleWs_packet (\<lambda>c p. None) (sy_srv sys_bf) hdr_f
     \<lparr>pk_from = \<lparr>pc_clientId = ''b'', pc_peerId = ''p''\<rparr>, pk_to = \<lparr>pc_clientId = ''x'', pc_peerId = ''q''\<rparr>,
      pk_sdp = None, pk_ice = None\<rparr> =
   WsSent 1 \<lparr>pk_from = \<lparr>pc_clientId = ''b'', pc_peerId = ''p''\<rparr>, pk_to = \<lparr>pc_clientId = '''', pc_peerId = ''q''\<rparr>,
      pk_sdp = None, pk_ice = None\<rparr> \<and> gm_get (sy_live sys_bf) 1 = Some hdr_b"
proof -
  let ?p = "\<lparr>pk_from = \<lparr>pc_clientId = ''b'', pc_peerId = ''p''\<rparr>, pk_to = \<lparr>pc_clientId = ''x'', pc_peerId = ''q''\<rparr>,
      pk_sdp = None, pk_ice = None\<rparr>"
  have h: "HandleWs_packet (\<lambda>c p. None) (sy_srv sys_bf) hdr_f ?p =
     WsSent 1 (?p\<lparr>pk_to := (pk_to ?p)\<lparr>pc_clientId := ''''\<rparr>\<rparr>)"
    by (simp add: HandleWs_packet_def hdr_f_def sys_bf_def GetBackend_Add)
  from packets_are_routed_by_from_id [OF sys_bf_reach h] h show ?thesis
    by (simp add: hdr_f_def hdr_b_def)
qed

text \<open>
  C36: the backend table is a map: after any history of registrations and removals on a fresh server, a
  lookup returns the client of the last registration of that cluster and id that no later removal
  followed, and nothing otherwise.
\<close>

theorem backend_table_is_a_map:
  "GetBackend n i (reg_run (\<lambda>(n, i) c s. AddBackend n i c s) (\<lambda>(n, i) s. DelBackend n i s) ops NewServer) =
     reg_spec (\<lambda>(n, i) c. new_client i c) ops (n, i) None"
  using backends.look_run [where s = NewServer and ops = ops and k = "(n, i)"]
  by (simp add: GetBackend_def NewServer_def)

text \<open>
  The cluster query of a non-empty name with a session answers with as many empty ids as there are
  backends, followed by the backends' ids in map order, so a client that tries the ids in order starts
  with empty ones; without a session it answers with nothing.
\<close>

theorem cluster_query_is_padded:
  assumes "name \<noteq> ''''" "gm_get (sv_sessions s) name = Some sess" "mset (ord (gm_keys (ss_backends sess))) = mset (gm_keys (ss_backends sess))"
  shows "\<exists>ids. Cluster ord name s = replicate (length ids) '''' @ ids \<and> mset ids = mset (gm_keys (ss_backends sess)) \<and>
     length (Cluster ord name s) = 2 * length (ss_backends sess) \<and>
     (\<forall>i. i \<in> set ids \<longleftrightarrow> GetBackend name i s \<noteq> None)"
proof -
  have len: "length (ord (gm_keys (ss_backends sess))) = length (ss_backends sess)"
    using mset_eq_length [OF assms(3)] by (simp add: gm_keys_def)
  have "i \<in> set (ord (gm_keys (ss_backends sess))) \<longleftrightarrow> gm_get (ss_backends sess) i \<noteq> None" for i
    using mset_eq_setD [OF assms(3)] by (simp add: gm_keys_iff)
  with len assms show ?thesis
    by (intro exI [of _ "ord (gm_keys (ss_backends sess))"]) (simp add: Cluster_def GetBackends_def GetBackend_def)
qed

theorem cluster_query_is_padded_witness:
  "\<exists>ids. Cluster (\<lambda>x. x) ''open'' (AddBackend ''open'' ''b'' 1 NewServer) = replicate (length ids) '''' @ ids \<and>
     length (Cluster (\<lambda>x. x) ''open'' (AddBackend ''open'' ''b'' 1 NewServer)) = 2"
proof -
  let ?s = "AddBackend ''open'' ''b'' 1 NewServer"
  have "gm_get (sv_sessions ?s) ''open'' =
      Some \<lparr>ss_cluster = ''open'', ss_backends = [(''b'', new_client ''b'' 1)], ss_frontends = []\<rparr>"
    by (simp add: AddBackend_def NewServer_def Let_def gm_put_def gm_del_def)
  from cluster_query_is_padded [OF _ this, of "\<lambda>x. x"] show ?thesis by auto
qed

text \<open>
  A reconnected backend can be unregistered by its own old connection: there is a reachable state in
  which a backend's connection is live but the server does not know it, because the handler of an earlier
  connection with the same id ended and deleted the entry of the new one.
\<close>

theorem stale_handler_unregisters_new_connection:
  "\<exists>s. srv_reach tstr s \<and> gm_get (sy_live s) 2 = Some hdr_b \<and> GetBackend (wh_name hdr_b) (wh_id hdr_b) (sy_srv s) = None"
proof -
  let ?s1 = "\<lparr>sy_srv = AddBackend ''open'' ''b'' 1 NewServer, sy_live = gm_put 1 hdr_b []\<rparr>"
  let ?s2 = "\<lparr>sy_srv = AddBackend ''open'' ''b'' 2 (sy_srv ?s1), sy_live = gm_put 2 hdr_b (sy_live ?s1)\<rparr>"
  let ?s3 = "\<lparr>sy_srv = DelBackend ''open'' ''b'' (sy_srv ?s2), sy_live = gm_del 1 (sy_live ?s2)\<rparr>"
  have "srv_step tstr srv_init ?s1"
    using sy_connect [of srv_init 1 tstr hdr_b] by (simp add: srv_init_def HandleWs_open_def hdr_b_def)
  moreover have "srv_step tstr ?s1 ?s2"
    using sy_connect [of ?s1 2 tstr hdr_b] by (simp add: HandleWs_open_def hdr_b_def)
  moreover have "srv_step tstr ?s2 ?s3"
    using sy_leave [of ?s2 1 hdr_b tstr] by (simp add: HandleWs_exit_def hdr_b_def)
  ultimately have "srv_reach tstr ?s3" using srv_reach.intros by blast
  then show ?thesis by (intro exI [of _ ?s3]) (simp add: hdr_b_def GetBackend_Del)
qed

end
