(* ===== verification/Peer.thy ===== *)
theory Peer
  imports Channel_Pool Ws_Sig
begin

section \<open>Peers (\<open>net/conn/peer.go\<close>, \<open>peer-sdp.go\<close>, \<open>keepalive.go\<close>)\<close>

text \<open>
  A peer owns a WebRTC peer connection and a channel pool.  The peer connection is library code: its
  state is the type parameter and its operations are the fields of \<open>pc_ops\<close>; its states are the
  library's enumerations, ordered as the library numbers them.  \<open>send\<close> is \<open>sig.SendPacket\<close>, and the events that the blocking
  loops meet are given as lists; the end of such a list is a loop that still waits.
\<close>

definition CmdConnect :: string where "CmdConnect = ''connnect''"
definition CmdDisConnect :: string where "CmdDisConnect = ''disconnect''"
definition CmdEOF :: string where "CmdEOF = ''EOF''"

record DataChannelCommand =
  dcc_cmd :: string
  dcc_label :: string

datatype PeerConnectionState = PCNew | PCConnecting | PCConnected | PCDisconnected | PCFailed | PCClosed

datatype ICEConnectionState =
  IceNew | IceChecking | IceConnected | IceCompleted | IceDisconnected | IceFailed | IceClosed

primrec pcs_number :: "PeerConnectionState \<Rightarrow> nat" where
  "pcs_number PCNew = 1"
| "pcs_number PCConnecting = 2"
| "pcs_number PCConnected = 3"
| "pcs_number PCDisconnected = 4"
| "pcs_number PCFailed = 5"
| "pcs_number PCClosed = 6"

primrec ice_number :: "ICEConnectionState \<Rightarrow> nat" where
  "ice_number IceNew = 1"
| "ice_number IceChecking = 2"
| "ice_number IceConnected = 3"
| "ice_number IceCompleted = 4"
| "ice_number IceDisconnected = 5"
| "ice_number IceFailed = 6"
| "ice_number IceClosed = 7"

instantiation PeerConnectionState :: linorder
begin

definition less_eq_PeerConnectionState :: "PeerConnectionState \<Rightarrow> PeerConnectionState \<Rightarrow> bool" where
  "less_eq_PeerConnectionState a b \<longleftrightarrow> pcs_number a \<le> pcs_number b"

definition less_PeerConnectionState :: "PeerConnectionState \<Rightarrow> PeerConnectionState \<Rightarrow> bool" where
  "less_PeerConnectionState a b \<longleftrightarrow> pcs_number a < pcs_number b"

instance
proof
  fix a b c :: PeerConnectionState
  show "a \<le> b \<Longrightarrow> b \<le> a \<Longrightarrow> a = b" by (cases a; cases b; simp add: less_eq_PeerConnectionState_def)
qed (auto simp: less_eq_PeerConnectionState_def less_PeerConnectionState_def)

end

instantiation ICEConnectionState :: linorder
begin

definition less_eq_ICEConnectionState :: "ICEConnectionState \<Rightarrow> ICEConnectionState \<Rightarrow> bool" where
  "less_eq_ICEConnectionState a b \<longleftrightarrow> ice_number a \<le> ice_number b"

definition less_ICEConnectionState :: "ICEConnectionState \<Rightarrow> ICEConnectionState \<Rightarrow> bool" where
  "less_ICEConnectionState a b \<longleftrightarrow> ice_number a < ice_number b"

instance
proof
  fix a b c :: ICEConnectionState
  show "a \<le> b \<Longrightarrow> b \<le> a \<Longrightarrow> a = b" by (cases a; cases b; simp add: less_eq_ICEConnectionState_def)
qed (auto simp: less_eq_ICEConnectionState_def less_ICEConnectionState_def)

end

lemma connecting_iff [simp]:
  "s < PCConnected \<longleftrightarrow> s = PCNew \<or> s = PCConnecting"
  "t < IceConnected \<longleftrightarrow> t = IceNew \<or> t = IceChecking"
  by (cases s; simp add: less_PeerConnectionState_def) (cases t; simp add: less_ICEConnectionState_def)

record 'p pc_ops =
  pco_createOffer :: "'p \<Rightarrow> go_error + SessionDescription"
  pco_createAnswer :: "'p \<Rightarrow> go_error + SessionDescription"
  pco_setLocal :: "'p \<Rightarrow> SessionDescription \<Rightarrow> 'p \<times> go_error option"
  pco_setRemote :: "'p \<Rightarrow> SessionDescription \<Rightarrow> 'p \<times> go_error option"
  pco_addIce :: "'p \<Rightarrow> ICECandidate \<Rightarrow> 'p \<times> go_error option"
  pco_state :: "'p \<Rightarrow> PeerConnectionState"
  pco_iceState :: "'p \<Rightarrow> ICEConnectionState"
  pco_close :: "'p \<Rightarrow> 'p \<times> go_error option"

record 'p Peer =
  pe_pool :: ChannelPool
  pe_pc :: 'p
  pe_cmdChan :: "DataChannelCommand gochan"
  pe_connected :: "unit gochan"
  pe_open :: "unit gochan"
  pe_close :: "unit gochan"

definition newPeer :: "string \<Rightarrow> 'p \<Rightarrow> string \<Rightarrow> string \<Rightarrow> SDPType \<Rightarrow> 'p Peer" where
  "newPeer uuid pc rid rcid pt =
     \<lparr>pe_pool = NewChannelPool uuid rid rcid pt, pe_pc = pc, pe_cmdChan = make_chan 1,
      pe_connected = make_chan 1, pe_open = make_chan 0, pe_close = make_chan 0\<rparr>"

text \<open>
  \<open>pcRes\<close> and \<open>dcRes\<close> are the results of \<open>webrtc.NewPeerConnection\<close> and of creating the keepalive channel.
\<close>

definition NewOfferPeer ::
  "string \<Rightarrow> string \<Rightarrow> go_error + 'p \<Rightarrow> go_error option \<Rightarrow> string \<Rightarrow> go_error + 'p Peer" where
  "NewOfferPeer st uuid pcRes dcErr remoteClientId =
     (case pcRes of
        Inl e \<Rightarrow> Inl (wrap_err st e)
      | Inr pc \<Rightarrow>
          (case dcErr of
             Some e \<Rightarrow> Inl e
           | None \<Rightarrow> Inr (newPeer uuid pc '''' remoteClientId SDPTypeOffer)))"

definition NewAnswerPeer ::
  "string \<Rightarrow> string \<Rightarrow> go_error + 'p \<Rightarrow> string \<Rightarrow> string \<Rightarrow> go_error + 'p Peer" where
  "NewAnswerPeer st uuid pcRes remoteClientId remoteId =
     (case pcRes of
        Inl e \<Rightarrow> Inl (wrap_err st e)
      | Inr pc \<Rightarrow>
          (let p = newPeer uuid pc remoteId remoteClientId SDPTypeAnswer
           in Inr (p\<lparr>pe_pool := (pe_pool p)\<lparr>cp_accept := True\<rparr>\<rparr>)))"

text \<open>One command taken from \<open>cmdChan\<close> by \<open>loop\<close>; \<open>None\<close> is a panic of the release.\<close>

definition Peer_loop_cmd :: "'p Peer \<Rightarrow> 'd heap \<Rightarrow> DataChannelCommand \<Rightarrow> 'd heap option" where
  "Peer_loop_cmd p h cmd =
     (if dcc_cmd cmd = CmdConnect then Some h
      else if dcc_cmd cmd = CmdDisConnect then OnRelease (pe_pool p) h (dcc_label cmd)
      else Some h)"

text \<open>
  \<open>loop\<close> over what its \<open>select\<close> finds: the heap it leaves and whether it has returned.
\<close>

datatype peer_event = PeClosed | PeCmd DataChannelCommand

fun Peer_loop :: "'p Peer \<Rightarrow> 'd heap \<Rightarrow> peer_event list \<Rightarrow> ('d heap \<times> bool) option" where
  "Peer_loop p h [] = Some (h, False)"
| "Peer_loop p h (PeClosed # evs) = Some (h, True)"
| "Peer_loop p h (PeCmd cmd # evs) =
     (case Peer_loop_cmd p h cmd of None \<Rightarrow> None | Some h' \<Rightarrow> Peer_loop p h' evs)"

text \<open>What \<open>handleChannel\<close> does with a remote data channel: start a service loop, or ask the pool.\<close>

datatype 'd handled = HKeepalive | HCommand | HPool "go_error option" ChannelPool "'d heap"

definition handleChannel :: "string \<Rightarrow> 'p Peer \<Rightarrow> 'd heap \<Rightarrow> string \<Rightarrow> 'd \<Rightarrow> 'd handled" where
  "handleChannel st p h dcLabel dc =
     (if dcLabel = Keepalive then HKeepalive
      else if dcLabel = Cmd then HCommand
      else (case OnChannelOpen st (pe_pool p) h dcLabel dc of (e, pool, h') \<Rightarrow> HPool e pool h'))"

definition Peer_IsClose :: "'p Peer \<Rightarrow> bool" where
  "Peer_IsClose p = chan_ready (pe_close p)"

definition Peer_Close :: "'p pc_ops \<Rightarrow> 'p Peer \<Rightarrow> ('p Peer \<times> go_error option) option" where
  "Peer_Close ops p =
     (if Peer_IsClose p then Some (p, None)
      else case chan_close (pe_close p) of
             None \<Rightarrow> None
           | Some cl \<Rightarrow> (case pco_close ops (pe_pc p) of (pc, e) \<Rightarrow> Some (p\<lparr>pe_close := cl, pe_pc := pc\<rparr>, e)))"

datatype 'p state_change = ScDone "'p Peer" | ScBlocks | ScPanics

definition OnConnectionStateChange :: "'p pc_ops \<Rightarrow> 'p Peer \<Rightarrow> PeerConnectionState \<Rightarrow> 'p state_change" where
  "OnConnectionStateChange ops p pcs =
     (case pcs of
        PCConnected \<Rightarrow>
          (case chan_send (pe_connected p) () of
             Sent c \<Rightarrow> ScDone (p\<lparr>pe_connected := c\<rparr>)
           | SendBlocks \<Rightarrow> ScBlocks
           | SendPanics \<Rightarrow> ScPanics)
      | PCFailed \<Rightarrow> (case Peer_Close ops p of None \<Rightarrow> ScPanics | Some (p', e) \<Rightarrow> ScDone p')
      | PCDisconnected \<Rightarrow> (case Peer_Close ops p of None \<Rightarrow> ScPanics | Some (p', e) \<Rightarrow> ScDone p')
      | PCClosed \<Rightarrow> (case Peer_Close ops p of None \<Rightarrow> ScPanics | Some (p', e) \<Rightarrow> ScDone p')
      | _ \<Rightarrow> ScDone p)"

subsection \<open>Exchange of descriptions (\<open>peer-sdp.go\<close>)\<close>

definition sdp_packet :: "string \<Rightarrow> 'p Peer \<Rightarrow> SessionDescription \<Rightarrow> Packet" where
  "sdp_packet sigId p sdp =
     \<lparr>pk_from = \<lparr>pc_clientId = sigId, pc_peerId = cp_id (pe_pool p)\<rparr>,
      pk_to = \<lparr>pc_clientId = cp_remoteClientId (pe_pool p), pc_peerId = cp_remoteId (pe_pool p)\<rparr>,
      pk_sdp = Some sdp, pk_ice = None\<rparr>"

definition SendOffer ::
  "string \<Rightarrow> 'p pc_ops \<Rightarrow> string \<Rightarrow> (Packet \<Rightarrow> go_error option) \<Rightarrow> 'p Peer
   \<Rightarrow> 'p Peer \<times> go_error option \<times> Packet list" where
  "SendOffer st ops sigId send p =
     (case pco_createOffer ops (pe_pc p) of
        Inl e \<Rightarrow> (p, Some (wrap_err st e), [])
      | Inr offer \<Rightarrow>
          (case pco_setLocal ops (pe_pc p) offer of
             (pc, Some e) \<Rightarrow> (p\<lparr>pe_pc := pc\<rparr>, Some (wrap_err st e), [])
           | (pc, None) \<Rightarrow>
               (let p1 = p\<lparr>pe_pc := pc\<rparr>; packet = sdp_packet sigId p1 offer
                in case send packet of
                     Some e \<Rightarrow> (p1, Some (wrap_err st e), [packet])
                   | None \<Rightarrow> (p1, None, [packet]))))"

definition SendAnswer ::
  "string \<Rightarrow> 'p pc_ops \<Rightarrow> string \<Rightarrow> (Packet \<Rightarrow> go_error option) \<Rightarrow> 'p Peer
   \<Rightarrow> 'p Peer \<times> go_error option \<times> Packet list" where
  "SendAnswer st ops sigId send p =
     (case pco_createAnswer ops (pe_pc p) of
        Inl e \<Rightarrow> (p, Some e, [])
      | Inr answer \<Rightarrow>
          (case pco_setLocal ops (pe_pc p) answer of
             (pc, Some e) \<Rightarrow> (p\<lparr>pe_pc := pc\<rparr>, Some (wrap_err st e), [])
           | (pc, None) \<Rightarrow>
               (let p1 = p\<lparr>pe_pc := pc\<rparr>; packet = sdp_packet sigId p1 answer
                in case send packet of
                     Some e \<Rightarrow> (p1, Some (wrap_err st e), [packet])
                   | None \<Rightarrow> (p1, None, [packet]))))"

text \<open>
  What a round of \<open>WaitAnswer\<close> and \<open>PollOffer\<close> can meet.  A closed session delivers \<open>ok = false\<close> on the
  description channel (\<open>WeSdp None\<close>) and a nil candidate (\<open>WeIce None\<close>), which \<open>ToJSON\<close> dereferences.
\<close>

datatype wait_event =
    WeDone go_error
  | WeConnected
  | WeSdp "SessionDescription option"
  | WeIce "ICECandidate option"

datatype wait_end = WtReturn "go_error option" | WtWaiting | WtPanics

definition wait_ice ::
  "string \<Rightarrow> 'p pc_ops \<Rightarrow> 'p Peer \<Rightarrow> ICECandidate option \<Rightarrow> 'p Peer \<times> wait_end option" where
  "wait_ice st ops p ice =
     (if pco_iceState ops (pe_pc p) < IceConnected then
        (case ice of
           None \<Rightarrow> (p, Some WtPanics)
         | Some i \<Rightarrow>
             (case pco_addIce ops (pe_pc p) i of
                (pc, Some e) \<Rightarrow> (p\<lparr>pe_pc := pc\<rparr>, Some (WtReturn (Some (wrap_err st e))))
              | (pc, None) \<Rightarrow> (p\<lparr>pe_pc := pc\<rparr>, None)))
      else (p, None))"

fun WaitAnswer :: "string \<Rightarrow> 'p pc_ops \<Rightarrow> 'p Peer \<Rightarrow> wait_event list \<Rightarrow> 'p Peer \<times> wait_end" where
  "WaitAnswer st ops p [] = (p, WtWaiting)"
| "WaitAnswer st ops p (WeDone e # evs) = (p, WtReturn (Some e))"
| "WaitAnswer st ops p (WeConnected # evs) = (p, WtReturn None)"
| "WaitAnswer st ops p (WeSdp None # evs) = (p, WtReturn None)"
| "WaitAnswer st ops p (WeSdp (Some sdp) # evs) =
     (if pco_state ops (pe_pc p) < PCConnected then
        (case pco_setRemote ops (pe_pc p) sdp of
           (pc, Some e) \<Rightarrow> (p\<lparr>pe_pc := pc\<rparr>, WtReturn (Some (wrap_err st e)))
         | (pc, None) \<Rightarrow> WaitAnswer st ops (p\<lparr>pe_pc := pc\<rparr>) evs)
      else WaitAnswer st ops p evs)"
| "WaitAnswer st ops p (WeIce ice # evs) =
     (case wait_ice st ops p ice of
        (p', Some r) \<Rightarrow> (p', r)
      | (p', None) \<Rightarrow> WaitAnswer st ops p' evs)"

fun PollOffer ::
  "string \<Rightarrow> 'p pc_ops \<Rightarrow> string \<Rightarrow> (Packet \<Rightarrow> go_error option) \<Rightarrow> 'p Peer \<Rightarrow> wait_event list
   \<Rightarrow> 'p Peer \<times> wait_end \<times> Packet list" where
  "PollOffer st ops sigId send p [] = (p, WtWaiting, [])"
| "PollOffer st ops sigId send p (WeDone e # evs) = (p, WtReturn (Some e), [])"
| "PollOffer st ops sigId send p (WeConnected # evs) = (p, WtReturn None, [])"
| "PollOffer st ops sigId send p (WeSdp None # evs) = (p, WtReturn None, [])"
| "PollOffer st ops sigId send p (WeSdp (Some sdp) # evs) =
     (if pco_state ops (pe_pc p) < PCConnected then
        (case pco_setRemote ops (pe_pc p) sdp of
           (pc, Some e) \<Rightarrow> (p\<lparr>pe_pc := pc\<rparr>, WtReturn (Some (wrap_err st e)), [])
         | (pc, None) \<Rightarrow>
             (case SendAnswer st ops sigId send (p\<lparr>pe_pc := pc\<rparr>) of
                (p1, Some e, out) \<Rightarrow> (p1, WtReturn (Some e), out)
              | (p1, None, out) \<Rightarrow>
                  (case PollOffer st ops sigId send p1 evs of (p2, r, out') \<Rightarrow> (p2, r, out @ out'))))
      else PollOffer st ops sigId send p evs)"
| "PollOffer st ops sigId send p (WeIce ice # evs) =
     (case wait_ice st ops p ice of
        (p', Some r) \<Rightarrow> (p', r, [])
      | (p', None) \<Rightarrow> PollOffer st ops sigId send p' evs)"

definition Peer_Connect ::
  "string \<Rightarrow> 'p pc_ops \<Rightarrow> string \<Rightarrow> (Packet \<Rightarrow> go_error option) \<Rightarrow> 'p Peer \<Rightarrow> wait_event list
   \<Rightarrow> 'p Peer \<times> wait_end \<times> Packet list" where
  "Peer_Connect st ops sigId send p evs =
     (case SendOffer st ops sigId send p of
        (p1, Some e, out) \<Rightarrow> (p1, WtReturn (Some e), out)
      | (p1, None, out) \<Rightarrow> (case WaitAnswer st ops p1 evs of (p2, r) \<Rightarrow> (p2, r, out)))"

text \<open>The packet that the candidate callback registered by \<open>Listen\<close> sends, if the candidate is not nil.\<close>

definition Listen_onICECandidate :: "string \<Rightarrow> 'p Peer \<Rightarrow> ICECandidate option \<Rightarrow> Packet option" where
  "Listen_onICECandidate sigId p c =
     (case c of
        None \<Rightarrow> None
      | Some i \<Rightarrow> Some
          \<lparr>pk_from = \<lparr>pc_clientId = sigId, pc_peerId = cp_id (pe_pool p)\<rparr>,
           pk_to = \<lparr>pc_clientId = cp_remoteClientId (pe_pool p), pc_peerId = cp_remoteId (pe_pool p)\<rparr>,
           pk_sdp = None, pk_ice = Some i\<rparr>)"

definition Peer_Listen ::
  "string \<Rightarrow> 'p pc_ops \<Rightarrow> string \<Rightarrow> (Packet \<Rightarrow> go_error option) \<Rightarrow> 'p Peer \<Rightarrow> wait_event list
   \<Rightarrow> 'p Peer \<times> wait_end \<times> Packet list" where
  "Peer_Listen st ops sigId send p evs = PollOffer st ops sigId send p evs"

subsection \<open>The service channels (\<open>keepalive.go\<close>)\<close>

datatype keep_event = KeDone go_error | KePeerClosed | KeTick

fun keepalive_loop :: "keep_event list \<Rightarrow> wait_end \<times> bytes list" where
  "keepalive_loop [] = (WtWaiting, [])"
| "keepalive_loop (KeDone e # evs) = (WtReturn (Some e), [])"
| "keepalive_loop (KePeerClosed # evs) = (WtReturn None, [])"
| "keepalive_loop (KeTick # evs) = (case keepalive_loop evs of (r, out) \<Rightarrow> (r, [58, 58] # out))"

text \<open>
  \<open>opened\<close>: whether the channel opened before the minute passed (\<open>None\<close>: neither has happened yet).
\<close>

definition loopKeepalive :: "string \<Rightarrow> bool \<Rightarrow> bool option \<Rightarrow> keep_event list \<Rightarrow> wait_end \<times> bytes list" where
  "loopKeepalive st dcNil opened evs =
     (if dcNil then (WtReturn (Some (wrap_err st (ErrorString ''data channel is nil ''))), [])
      else case opened of
             None \<Rightarrow> (WtWaiting, [])
           | Some False \<Rightarrow> (WtReturn (Some (wrap_err st DeadlineExceeded)), [])
           | Some True \<Rightarrow> keepalive_loop evs)"

text \<open>
  The callback of the command channel for a message decoded to \<open>cmd\<close> with error \<open>err\<close>.  \<open>waiting\<close> says
  that \<open>loopCommand\<close> still waits for the first error; afterwards its error channel is closed, and \<open>pick\<close>
  resolves the select between the panicking send and the receive.
\<close>

datatype 'p cmd_result = CmdQueued "'p Peer" bool | CmdBlocks bool | CmdPanics

definition loopCommand_onMessage ::
  "bool \<Rightarrow> bool \<Rightarrow> 'p Peer \<Rightarrow> go_error option \<Rightarrow> DataChannelCommand \<Rightarrow> 'p cmd_result" where
  "loopCommand_onMessage pick waiting p err cmd =
     (if err \<noteq> None \<and> \<not> waiting \<and> pick then CmdPanics
      else
        (let waiting' = (waiting \<and> err = None)
         in case chan_send (pe_cmdChan p) cmd of
              Sent c \<Rightarrow> CmdQueued (p\<lparr>pe_cmdChan := c\<rparr>) waiting'
            | SendBlocks \<Rightarrow> CmdBlocks waiting'
            | SendPanics \<Rightarrow> CmdPanics))"

text \<open>
  \<open>loopCommand\<close> over the messages that arrive, each with the choice of the select, the error of its decoding and
  the command: it returns the first error, after which the callback has still queued the (empty) command; a
  callback that finds \<open>cmdChan\<close> full blocks, and the messages behind it wait.
\<close>

datatype command_end = CmWaiting | CmReturned go_error | CmBlocked | CmPanicked

fun loopCommand ::
  "'p Peer \<Rightarrow> (bool \<times> go_error option \<times> DataChannelCommand) list \<Rightarrow> 'p Peer \<times> command_end" where
  "loopCommand p [] = (p, CmWaiting)"
| "loopCommand p ((pick, err, cmd) # ms) =
     (case loopCommand_onMessage pick True p err cmd of
        CmdQueued p' waiting \<Rightarrow> (case err of None \<Rightarrow> loopCommand p' ms | Some e \<Rightarrow> (p', CmReturned e))
      | CmdBlocks waiting \<Rightarrow> (case err of None \<Rightarrow> (p, CmBlocked) | Some e \<Rightarrow> (p, CmReturned e))
      | CmdPanics \<Rightarrow> (p, CmPanicked))"

text \<open>The configuration that every peer connection is made with (\<open>ice/config.go\<close>): the URLs of its servers.\<close>

definition ice_Config :: "string list list" where
  "ice_Config = [[''stun:114.115.218.1:3478'']]"

subsection \<open>Lemmas\<close>

lemma SendAnswer_spec:
  assumes "SendAnswer st ops sigId send p = (p', e, out)"
  shows "pe_pool p' = pe_pool p \<and> length out \<le> 1 \<and> (\<forall>pkt \<in> set out. \<exists>sdp. pkt = sdp_packet sigId p sdp)"
  using assms
  by (auto simp: SendAnswer_def Let_def sdp_packet_def split: sum.splits prod.splits option.splits)

lemma sdp_packet_pool: "pe_pool p' = pe_pool p \<Longrightarrow> sdp_packet sigId p' sdp = sdp_packet sigId p sdp"
  by (simp add: sdp_packet_def)

lemma wait_ice_pool: "wait_ice st ops p ice = (p', r) \<Longrightarrow> pe_pool p' = pe_pool p"
  by (auto simp: wait_ice_def split: if_splits option.splits prod.splits)

definition sdp_count :: "wait_event list \<Rightarrow> nat" where
  "sdp_count evs = length (filter (\<lambda>e. case e of WeSdp (Some _) \<Rightarrow> True | _ \<Rightarrow> False) evs)"

lemma PollOffer_spec:
  assumes "PollOffer st ops sigId send p evs = (p', r, out)"
  shows "pe_pool p' = pe_pool p \<and> length out \<le> sdp_count evs \<and>
    (\<forall>pkt \<in> set out. \<exists>sdp. pkt = sdp_packet sigId p sdp)"
  using assms
proof (induction st ops sigId send p evs arbitrary: p' r out rule: PollOffer.induct)
  case (5 st ops sigId send p sdp evs)
  show ?case
  proof (cases "pco_state ops (pe_pc p) < PCConnected")
    case False
    with "5.IH"(2) [OF False] "5.prems" show ?thesis by (simp add: sdp_count_def)
  next
    case True
    obtain pc e where sr: "pco_setRemote ops (pe_pc p) sdp = (pc, e)" by fastforce
    obtain p1 e1 out1 where sa: "SendAnswer st ops sigId send (p\<lparr>pe_pc := pc\<rparr>) = (p1, e1, out1)"
      using prod_cases3 by blast
    obtain p2 r2 out2 where po: "PollOffer st ops sigId send p1 evs = (p2, r2, out2)"
      using prod_cases3 by blast
    note sa' = SendAnswer_spec [OF sa]
    have "e = None \<Longrightarrow> e1 = None \<Longrightarrow> pe_pool p2 = pe_pool p1 \<and> length out2 \<le> sdp_count evs \<and>
        (\<forall>pkt \<in> set out2. \<exists>sdp. pkt = sdp_packet sigId p1 sdp)"
      using "5.IH"(1) [OF True sr [symmetric] _ sa [symmetric] _ _ po] by auto
    with "5.prems" True sr sa po sa' show ?thesis
      by (auto simp: sdp_count_def sdp_packet_def split: option.splits)
  qed
next
  case (6 st ops sigId send p ice evs)
  obtain p1 r1 where wi: "wait_ice st ops p ice = (p1, r1)" by fastforce
  have pool: "pe_pool p1 = pe_pool p" using wi by (rule wait_ice_pool)
  show ?case
  proof (cases r1)
    case None
    with "6.prems" wi have "PollOffer st ops sigId send p1 evs = (p', r, out)" by simp
    from "6.IH" [OF wi [symmetric] None this] pool show ?thesis
      by (simp add: sdp_count_def sdp_packet_pool [OF pool])
  qed (use "6.prems" wi pool in \<open>simp add: sdp_count_def\<close>)
qed (simp_all add: sdp_count_def)

lemma Peer_Close_spec:
  "Peer_Close ops p =
     Some (if Peer_IsClose p then (p, None)
           else (p\<lparr>pe_close := (pe_close p)\<lparr>ch_closed := True\<rparr>, pe_pc := fst (pco_close ops (pe_pc p))\<rparr>,
                 snd (pco_close ops (pe_pc p))))"
  by (simp add: Peer_Close_def Peer_IsClose_def chan_close_def chan_ready_def split: prod.split)

text \<open>The callbacks of a sequence of state changes, one after the other.\<close>

fun state_changes :: "'p pc_ops \<Rightarrow> 'p Peer \<Rightarrow> PeerConnectionState list \<Rightarrow> 'p state_change" where
  "state_changes ops p [] = ScDone p"
| "state_changes ops p (s # ss) =
     (case OnConnectionStateChange ops p s of ScDone p' \<Rightarrow> state_changes ops p' ss | r \<Rightarrow> r)"

definition terminal_state :: "PeerConnectionState \<Rightarrow> bool" where
  "terminal_state s \<longleftrightarrow> s = PCFailed \<or> s = PCDisconnected \<or> s = PCClosed"

lemma OnConnectionStateChange_spec:
  assumes "OnConnectionStateChange ops p s = ScDone p'"
  shows "Peer_IsClose p' = (Peer_IsClose p \<or> terminal_state s) \<and>
    pe_pc p' = (if terminal_state s \<and> \<not> Peer_IsClose p then fst (pco_close ops (pe_pc p)) else pe_pc p)"
  using assms
  by (cases s)
    (auto simp: OnConnectionStateChange_def terminal_state_def Peer_Close_spec Peer_IsClose_def
      split: send_result.splits if_splits)

lemma state_changes_spec:
  "state_changes ops p ss = ScDone p' \<Longrightarrow>
     Peer_IsClose p' = (Peer_IsClose p \<or> (\<exists>s \<in> set ss. terminal_state s)) \<and>
     pe_pc p' = (if (\<exists>s \<in> set ss. terminal_state s) \<and> \<not> Peer_IsClose p
                 then fst (pco_close ops (pe_pc p)) else pe_pc p)"
proof (induction ss arbitrary: p)
  case (Cons s ss)
  then obtain p1 where p1: "OnConnectionStateChange ops p s = ScDone p1" "state_changes ops p1 ss = ScDone p'"
    by (auto split: state_change.splits)
  from Cons.IH [OF p1(2)] OnConnectionStateChange_spec [OF p1(1)] show ?case by auto
qed simp

subsection \<open>Properties\<close>

text \<open>
  C34: while it polls for offers, an answering peer sends at most one packet per description it receives,
  and each is an answer from this peer (its signalling id and its own peer id) to exactly the remote peer
  it was created for, carrying a description and no candidate; the pool is not touched.
\<close>

theorem answers_go_to_the_caller:
  assumes "PollOffer st ops sigId send p evs = (p', r, out)"
  shows "pe_pool p' = pe_pool p \<and> length out \<le> sdp_count evs \<and>
    (\<forall>pkt \<in> set out. pk_from pkt = \<lparr>pc_clientId = sigId, pc_peerId = cp_id (pe_pool p)\<rparr> \<and>
       pk_to pkt = \<lparr>pc_clientId = cp_remoteClientId (pe_pool p), pc_peerId = cp_remoteId (pe_pool p)\<rparr> \<and>
       pk_sdp pkt \<noteq> None \<and> pk_ice pkt = None)"
  using PollOffer_spec [OF assms] by (fastforce simp: sdp_packet_def)

definition demo_ops :: "unit pc_ops" where
  "demo_ops =
     \<lparr>pco_createOffer = (\<lambda>_. Inr \<lparr>sd_type = SDPTypeOffer, sd_sdp = ''o''\<rparr>),
      pco_createAnswer = (\<lambda>_. Inr \<lparr>sd_type = SDPTypeAnswer, sd_sdp = ''a''\<rparr>),
      pco_setLocal = (\<lambda>p _. (p, None)), pco_setRemote = (\<lambda>p _. (p, None)), pco_addIce = (\<lambda>p _. (p, None)),
      pco_state = (\<lambda>_. PCNew), pco_iceState = (\<lambda>_. IceNew), pco_close = (\<lambda>p. (p, None))\<rparr>"

theorem answers_go_to_the_caller_witness:
  "\<exists>p' r pkt. PollOffer [] demo_ops ''b'' (\<lambda>_. None) (newPeer ''u'' () ''r'' ''c'' SDPTypeAnswer)
      [WeSdp (Some \<lparr>sd_type = SDPTypeOffer, sd_sdp = ''o''\<rparr>)] = (p', r, [pkt]) \<and>
    pk_to pkt = \<lparr>pc_clientId = ''c'', pc_peerId = ''r''\<rparr>"
proof -
  let ?p = "newPeer ''u'' () ''r'' ''c'' SDPTypeAnswer"
  obtain p' r pkt where po: "PollOffer [] demo_ops ''b'' (\<lambda>_. None) ?p
      [WeSdp (Some \<lparr>sd_type = SDPTypeOffer, sd_sdp = ''o''\<rparr>)] = (p', r, [pkt])"
    by (simp add: demo_ops_def SendAnswer_def Let_def)
  from answers_go_to_the_caller [OF po] have "pk_to pkt = \<lparr>pc_clientId = ''c'', pc_peerId = ''r''\<rparr>"
    by (simp add: newPeer_def NewChannelPool_def)
  with po show ?thesis by blast
qed

text \<open>
  However the connection state changes, the peer connection is closed at most once, and exactly when
  a failed, disconnected or closed state was reported to a peer that was not closed before; closing the
  peer never panics.
\<close>

theorem peer_connection_closed_once:
  assumes "state_changes ops p ss = ScDone p'"
  shows "Peer_Close ops p' \<noteq> None \<and>
    Peer_IsClose p' = (Peer_IsClose p \<or> (\<exists>s \<in> set ss. terminal_state s)) \<and>
    pe_pc p' = (if (\<exists>s \<in> set ss. terminal_state s) \<and> \<not> Peer_IsClose p
                then fst (pco_close ops (pe_pc p)) else pe_pc p)"
  using state_changes_spec [OF assms] by (simp add: Peer_Close_spec)

theorem peer_connection_closed_once_witness:
  "\<exists>p'. state_changes (demo_ops\<lparr>pco_close := (\<lambda>p. (p, None))\<rparr>) (newPeer ''u'' () ''r'' ''c'' SDPTypeAnswer)
      [PCConnecting, PCConnected, PCFailed, PCClosed] = ScDone p' \<and> Peer_IsClose p'"
proof -
  let ?ops = "demo_ops\<lparr>pco_close := (\<lambda>p. (p, None))\<rparr>"
  obtain p' where sc: "state_changes ?ops (newPeer ''u'' () ''r'' ''c'' SDPTypeAnswer)
      [PCConnecting, PCConnected, PCFailed, PCClosed] = ScDone p'"
    by (simp add: OnConnectionStateChange_def newPeer_def Peer_Close_def Peer_IsClose_def go_simps)
  from peer_connection_closed_once [OF sc] sc show ?thesis by (auto simp: terminal_state_def)
qed

text \<open>
  Announcing a remote data channel is idempotent and safe: the keepalive and command channels never
  enter the pool; any other channel that \<open>handleChannel\<close> accepts is in one of the pool's maps afterwards,
  the pool's invariant is kept, and a second announcement of the same label changes nothing.
\<close>

theorem announcing_a_channel_is_idempotent:
  assumes "pool_inv (pe_pool p) h" "handleChannel st p h l dc = HPool None pool h'"
  shows "l \<noteq> Keepalive \<and> l \<noteq> Cmd \<and> pool_inv pool h' \<and>
    (gm_get (cp_actives pool) l \<noteq> None \<or> gm_get (cp_idles pool) l \<noteq> None) \<and>
    handleChannel st (p\<lparr>pe_pool := pool\<rparr>) h' l dc' = HPool None pool h'"
proof -
  have l: "l \<noteq> Keepalive" "l \<noteq> Cmd"
    and oc: "OnChannelOpen st (pe_pool p) h l dc = (None, pool, h')"
    using assms(2) by (auto simp: handleChannel_def split: if_splits prod.splits)
  then obtain lb where lb: "parseLabel st l = Inr lb"
    by (auto simp: OnChannelOpen_def split: sum.splits)
  have entry: "gm_get (cp_actives pool) l \<noteq> None \<or> gm_get (cp_idles pool) l \<noteq> None"
    using oc lb by (auto simp: OnChannelOpen_def split: if_splits)
  then have "OnChannelOpen st pool h' l dc' = (None, pool, h')"
    using lb by (auto simp: OnChannelOpen_def)
  with l entry OnChannelOpen_inv [OF assms(1) oc] show ?thesis by (simp add: handleChannel_def)
qed

theorem announcing_a_channel_is_idempotent_witness:
  "\<exists>pool h'. handleChannel [] (newPeer ''u'' () ''r'' ''c'' SDPTypeAnswer) [] ''web:7'' () = HPool None pool h' \<and>
     gm_get (cp_idles pool) ''web:7'' = Some 0 \<and>
     handleChannel [] ((newPeer ''u'' () ''r'' ''c'' SDPTypeAnswer)\<lparr>pe_pool := pool\<rparr>) h' ''web:7'' () = HPool None pool h'"
proof -
  let ?p = "newPeer ''u'' () ''r'' ''c'' SDPTypeAnswer"
  have inv: "pool_inv (pe_pool ?p) ([] :: unit heap)"
    by (simp add: newPeer_def NewChannelPool_def pool_inv_def)
  have lab: "parseLabel [] ''web:7'' = Inr (NewLabel Web 7)"
    by (simp add: parseLabel_def Atoi_def ParseUint_def is_digit_def digit_val_def NewLabel_def Web_def)
  obtain pool h' where hc: "handleChannel [] ?p [] ''web:7'' () = HPool None pool h'"
    and g: "gm_get (cp_idles pool) ''web:7'' = Some 0"
    using lab by (simp add: handleChannel_def OnChannelOpen_def newPeer_def NewChannelPool_def Keepalive_def Cmd_def)
  from announcing_a_channel_is_idempotent [OF inv hc, of "()"] hc g show ?thesis by blast
qed

lemma Peer_loop_cmd_inv:
  assumes "pool_inv (pe_pool p) h"
  shows "\<exists>h'. Peer_loop_cmd p h cmd = Some h' \<and> pool_inv (pe_pool p) h'"
  using assms OnRelease_inv [OF assms, of "dcc_label cmd"] by (auto simp: Peer_loop_cmd_def)

text \<open>No sequence of commands makes the loop panic, and it returns exactly when the peer was closed.\<close>

lemma Peer_loop_inv:
  assumes "pool_inv (pe_pool p) h"
  shows "\<exists>h'. Peer_loop p h evs = Some (h', PeClosed \<in> set evs) \<and> pool_inv (pe_pool p) h'"
  using assms
proof (induction evs arbitrary: h)
  case (Cons ev evs)
  show ?case
  proof (cases ev)
    case PeClosed
    then show ?thesis using Cons.prems by simp
  next
    case (PeCmd cmd)
    obtain h' where "Peer_loop_cmd p h cmd = Some h'" "pool_inv (pe_pool p) h'"
      using Peer_loop_cmd_inv [OF Cons.prems] by blast
    then show ?thesis using Cons.IH [of h'] PeCmd by auto
  qed
qed simp

text \<open>
  A disconnect command from the remote side never panics; it frees the channel active under its
  label and leaves every other channel of the heap alone, and any other command changes nothing.
\<close>

theorem disconnect_command_frees_the_channel:
  assumes "pool_inv (pe_pool p) h"
  shows "\<exists>h'. Peer_loop_cmd p h cmd = Some h' \<and> pool_inv (pe_pool p) h' \<and>
    (dcc_cmd cmd \<noteq> CmdDisConnect \<longrightarrow> h' = h) \<and>
    (\<forall>r. dcc_cmd cmd = CmdDisConnect \<and> gm_get (cp_actives (pe_pool p)) (dcc_label cmd) = Some r \<longrightarrow>
       c_status (h' ! r) \<noteq> Active \<and> (\<forall>i. i \<noteq> r \<longrightarrow> h' ! i = h ! i))"
proof (cases "dcc_cmd cmd = CmdDisConnect")
  case True
  then have cmd: "Peer_loop_cmd p h cmd = OnRelease (pe_pool p) h (dcc_label cmd)"
    by (simp add: Peer_loop_cmd_def CmdConnect_def CmdDisConnect_def)
  obtain h' where h': "OnRelease (pe_pool p) h (dcc_label cmd) = Some h'" "pool_inv (pe_pool p) h'"
    using OnRelease_inv [OF assms] by blast
  have "c_status (h' ! r) \<noteq> Active \<and> (\<forall>i. i \<noteq> r \<longrightarrow> h' ! i = h ! i)"
    if g: "gm_get (cp_actives (pe_pool p)) (dcc_label cmd) = Some r" for r
  proof -
    have "r < length h" "chan_inv (h ! r)" using assms g by (auto simp: pool_inv_def)
    then show ?thesis
      using h'(1) g Release_inv [of "h ! r"] by (auto simp: OnRelease_def split: option.splits)
  qed
  with True cmd h' show ?thesis by auto
qed (use assms in \<open>simp add: Peer_loop_cmd_def\<close>)

theorem disconnect_command_frees_the_channel_witness:
  "\<exists>p h h'. pool_inv (pe_pool p) (h :: unit heap) \<and> gm_get (cp_actives (pe_pool p)) ''web:1'' = Some 0 \<and>
     c_status (h ! 0) = Active \<and>
     Peer_loop_cmd (p :: unit Peer) h \<lparr>dcc_cmd = CmdDisConnect, dcc_label = ''web:1''\<rparr> = Some h' \<and>
     c_status (h' ! 0) \<noteq> Active"
proof -
  let ?c = "snd (Channel_TakeConn (NewOfferChannel [] ''u'' () (NewLabel Web 1)))"
  let ?p = "(newPeer ''u'' () ''r'' ''c'' SDPTypeAnswer)
      \<lparr>pe_pool := (NewChannelPool ''u'' [] [] SDPTypeOffer)\<lparr>cp_actives := [(''web:1'', 0)]\<rparr>\<rparr>"
  have "Label_String (NewLabel Web 1) = ''web:1''"
    by code_simp
  then have inv: "pool_inv (pe_pool ?p) [?c]"
    by (simp add: pool_inv_def NewChannelPool_def new_taken)
  from disconnect_command_frees_the_channel [OF inv, of "\<lparr>dcc_cmd = CmdDisConnect, dcc_label = ''web:1''\<rparr>"]
  obtain h' where "Peer_loop_cmd ?p [?c] \<lparr>dcc_cmd = CmdDisConnect, dcc_label = ''web:1''\<rparr> = Some h'"
    "c_status (h' ! 0) \<noteq> Active" by auto
  with inv show ?thesis
    by (intro exI [of _ ?p] exI [of _ "[?c]"] exI [of _ h']) (simp add: new_taken)
qed


text \<open>
  The command channel never panics while \<open>loopCommand\<close> waits, and what it has queued when it stops are the
  commands of the messages in order: all of them, or those up to the first that does not decode (its own empty
  command included, when there is room), or those up to the first that finds the queue full.
\<close>

lemma commands_are_queued_in_order:
  assumes "loopCommand p ms = (p', r)" "\<not> ch_closed (pe_cmdChan p)"
  shows "r \<noteq> CmPanicked \<and> (\<exists>n \<le> length ms. ch_buf (pe_cmdChan p') = ch_buf (pe_cmdChan p) @ map (\<lambda>m. snd (snd m)) (take n ms)
    \<and> (r = CmWaiting \<longrightarrow> n = length ms) \<and> (r = CmBlocked \<longrightarrow> n < length ms \<and> ch_cap (pe_cmdChan p) \<le> length (ch_buf (pe_cmdChan p'))))"
  using assms
proof (induction p ms rule: loopCommand.induct)
  case (2 p pick err cmd ms)
  show ?case
  proof (cases "length (ch_buf (pe_cmdChan p)) < ch_cap (pe_cmdChan p)")
    case True
    let ?p = "p\<lparr>pe_cmdChan := (pe_cmdChan p)\<lparr>ch_buf := ch_buf (pe_cmdChan p) @ [cmd]\<rparr>\<rparr>"
    have queued: "loopCommand_onMessage pick True p err cmd = CmdQueued ?p (err = None)"
      using True "2.prems"(2) by (simp add: loopCommand_onMessage_def chan_send_def Let_def)
    show ?thesis
    proof (cases err)
      case None
      then have "loopCommand ?p ms = (p', r)" using "2.prems"(1) queued by simp
      from "2.IH" [OF queued None this] "2.prems"(2)
      have IH: "r \<noteq> CmPanicked" "\<exists>n \<le> length ms. ch_buf (pe_cmdChan p') = ch_buf (pe_cmdChan ?p) @ map (\<lambda>m. snd (snd m)) (take n ms)
          \<and> (r = CmWaiting \<longrightarrow> n = length ms) \<and> (r = CmBlocked \<longrightarrow> n < length ms \<and> ch_cap (pe_cmdChan ?p) \<le> length (ch_buf (pe_cmdChan p')))"
        by simp_all
      from IH(2) obtain n where n: "n \<le> length ms"
        "ch_buf (pe_cmdChan p') = ch_buf (pe_cmdChan ?p) @ map (\<lambda>m. snd (snd m)) (take n ms)"
        "r = CmWaiting \<longrightarrow> n = length ms"
        "r = CmBlocked \<longrightarrow> n < length ms \<and> ch_cap (pe_cmdChan ?p) \<le> length (ch_buf (pe_cmdChan p'))" by blast
      show ?thesis
        by (intro conjI exI [of _ "Suc n"] IH(1)) (use n in simp_all)
    next
      case (Some e)
      then show ?thesis using "2.prems"(1) queued by (intro conjI exI [of _ 1]) auto
    qed
  next
    case False
    then have "loopCommand_onMessage pick True p err cmd = CmdBlocks (err = None)"
      using "2.prems"(2) by (simp add: loopCommand_onMessage_def chan_send_def Let_def)
    then show ?thesis using "2.prems"(1) False by (intro conjI exI [of _ 0]) (auto split: option.splits)
  qed
qed simp

end
