(* ===== verification/Clients.thy ===== *)
theory Clients
  imports Peer
begin

section \<open>Dialling and HTTP over the tunnel (\<open>net/clients.go\<close>, \<open>client-pool.go\<close>, \<open>dial.go\<close>, \<open>transport.go\<close>)\<close>

text \<open>
  A \<open>PeersClient\<close> keeps, per cluster, the peers it is connected to; \<open>Dial\<close> takes a channel from one of
  them and \<open>Transport.RoundTrip\<close> runs one HTTP exchange over it.  All channels live in one heap, so a
  connection is a \<open>Conn\<close> over a pointer and the heap.  \<open>PeerClient\<close> is a struct whose copies share the
  map \<open>peers\<close>; only the entry of the cluster table is ever written through, so the table holds it by
  value.  Library calls are arguments: creating the WebRTC connection, its events, the HTTP codec.
\<close>

record 'p PeerClient =
  pcl_clusterName :: string
  pcl_peers :: "(string, 'p Peer) gomap"
  pcl_sig :: "WsSigClient option"

record 'p PeersClient =
  psc_cluster :: "(string, 'p PeerClient) gomap"

definition NewPeersClient :: "'p PeersClient" where
  "NewPeersClient = \<lparr>psc_cluster = []\<rparr>"

definition NewPeerClient :: "string \<Rightarrow> string \<Rightarrow> string \<Rightarrow> go_error + 'p PeerClient" where
  "NewPeerClient uuid wsURL clusterName =
     Inr \<lparr>pcl_clusterName = clusterName, pcl_peers = [],
          pcl_sig = Some (NewWsFrontendSigClient uuid wsURL clusterName)\<rparr>"

abbreviation Peer_Id :: "'p Peer \<Rightarrow> string" where
  "Peer_Id p \<equiv> cp_id (pe_pool p)"

definition addPeer :: "string \<Rightarrow> 'p Peer \<Rightarrow> 'p PeersClient \<Rightarrow> 'p PeersClient" where
  "addPeer serverName p c =
     (case gm_get (psc_cluster c) serverName of
        Some m \<Rightarrow>
          c\<lparr>psc_cluster := gm_put serverName (m\<lparr>pcl_peers := gm_put (Peer_Id p) p (pcl_peers m)\<rparr>) (psc_cluster c)\<rparr>
      | None \<Rightarrow>
          c\<lparr>psc_cluster := gm_put serverName
               \<lparr>pcl_clusterName = serverName, pcl_peers = [(Peer_Id p, p)], pcl_sig = None\<rparr> (psc_cluster c)\<rparr>)"

definition getPeer :: "'p PeersClient \<Rightarrow> string \<Rightarrow> string \<Rightarrow> 'p Peer option" where
  "getPeer c serverName clientId =
     (case gm_get (psc_cluster c) serverName of
        None \<Rightarrow> None
      | Some m \<Rightarrow> gm_get (pcl_peers m) clientId)"

text \<open>The first entry that a \<open>range\<close> over a map visits, for the order \<open>ord\<close> of its keys.\<close>

fun range_first :: "string list \<Rightarrow> (string, 'v) gomap \<Rightarrow> 'v option" where
  "range_first [] m = None"
| "range_first (k # ks) m = (case gm_get m k of None \<Rightarrow> range_first ks m | Some v \<Rightarrow> Some v)"

definition getRandPeer :: "string list \<Rightarrow> 'p PeersClient \<Rightarrow> string \<Rightarrow> 'p Peer option" where
  "getRandPeer ord c serverName =
     (case gm_get (psc_cluster c) serverName of
        None \<Rightarrow> None
      | Some m \<Rightarrow> range_first ord (pcl_peers m))"

text \<open>\<open>GetCluster\<close> declares an empty answer and returns its (nil) list of ids.\<close>

definition GetCluster :: "go_error + string list" where
  "GetCluster = Inr []"

definition GetCluserClient ::
  "string \<Rightarrow> string \<Rightarrow> string \<Rightarrow> 'p PeersClient \<Rightarrow> 'p PeerClient \<times> 'p PeersClient" where
  "GetCluserClient uuid wsURL clusterName c =
     (case gm_get (psc_cluster c) clusterName of
        Some cc \<Rightarrow> (cc, c)
      | None \<Rightarrow>
          (let cc = \<lparr>pcl_clusterName = clusterName, pcl_peers = [],
                     pcl_sig = Some (NewWsFrontendSigClient uuid wsURL clusterName)\<rparr>
           in (cc, c\<lparr>psc_cluster := gm_put clusterName cc (psc_cluster c)\<rparr>)))"

text \<open>
  What the outside world does for one peer of \<open>Connect\<close>: the id drawn for the peer, the results of
  creating its connection and its keepalive channel, and the events its handshake meets.
\<close>

record 'p connect_env =
  ce_uuid :: string
  ce_pc :: "go_error + 'p"
  ce_dc :: "go_error option"
  ce_events :: "wait_event list"

datatype connect_end = CoReturn "go_error option" | CoWaiting | CoPanics

text \<open>
  \<open>peer.Connect\<close> over the signalling client \<open>sig\<close>: a packet that is handed to a client that is nil, or
  whose websocket is nil, panics.
\<close>

definition connect_peer ::
  "string \<Rightarrow> 'p pc_ops \<Rightarrow> (nat \<Rightarrow> Packet \<Rightarrow> go_error option) \<Rightarrow> WsSigClient option \<Rightarrow> 'p Peer
   \<Rightarrow> wait_event list \<Rightarrow> 'p Peer \<times> connect_end" where
  "connect_peer st ops writeJSON sig p evs =
     (let send = (\<lambda>pkt. case sig of None \<Rightarrow> None | Some w \<Rightarrow> SendPacket writeJSON w pkt);
          sid = (case sig of None \<Rightarrow> [] | Some w \<Rightarrow> wc_id w)
      in case SendOffer st ops sid (\<lambda>pkt. case send pkt of None \<Rightarrow> None | Some r \<Rightarrow> r) p of
           (p1, e, out) \<Rightarrow>
             if \<exists>pkt \<in> set out. send pkt = None then (p1, CoPanics)
             else (case e of
                     Some err \<Rightarrow> (p1, CoReturn (Some err))
                   | None \<Rightarrow>
                       (case WaitAnswer st ops p1 evs of
                          (p2, WtReturn r) \<Rightarrow> (p2, CoReturn r)
                        | (p2, WtWaiting) \<Rightarrow> (p2, CoWaiting)
                        | (p2, WtPanics) \<Rightarrow> (p2, CoPanics))))"

fun connect_loop ::
  "string \<Rightarrow> 'p pc_ops \<Rightarrow> (nat \<Rightarrow> Packet \<Rightarrow> go_error option) \<Rightarrow> (string \<Rightarrow> 'p connect_env) \<Rightarrow> WsSigClient option
   \<Rightarrow> string \<Rightarrow> string list \<Rightarrow> 'p PeersClient \<Rightarrow> 'p PeersClient \<times> connect_end" where
  "connect_loop st ops writeJSON env sig clusterName [] c = (c, CoReturn None)"
| "connect_loop st ops writeJSON env sig clusterName (cid # cids) c =
     (case NewOfferPeer st (ce_uuid (env cid)) (ce_pc (env cid)) (ce_dc (env cid)) cid of
        Inl e \<Rightarrow> (c, CoReturn (Some e))
      | Inr peer \<Rightarrow>
          (case connect_peer st ops writeJSON sig peer (ce_events (env cid)) of
             (peer', CoReturn None) \<Rightarrow>
               connect_loop st ops writeJSON env sig clusterName cids (addPeer clusterName peer' c)
           | (peer', r) \<Rightarrow> (c, r)))"

definition PeersClient_Connect ::
  "string \<Rightarrow> 'p pc_ops \<Rightarrow> (nat \<Rightarrow> Packet \<Rightarrow> go_error option) \<Rightarrow> (string \<Rightarrow> 'p connect_env) \<Rightarrow> string
   \<Rightarrow> string \<Rightarrow> string \<Rightarrow> 'p PeersClient \<Rightarrow> 'p PeersClient \<times> connect_end" where
  "PeersClient_Connect st ops writeJSON env uuid wsURL clusterName c =
     (case GetCluster of
        Inl e \<Rightarrow> (c, CoReturn (Some e))
      | Inr cids \<Rightarrow>
          (case GetCluserClient uuid wsURL clusterName c of
             (cc, c1) \<Rightarrow> connect_loop st ops writeJSON env (pcl_sig cc) clusterName cids c1))"

subsection \<open>Dial\<close>

text \<open>Taking and releasing a channel through a pointer into the heap.\<close>

type_synonym 'd chan_ptr = "nat \<times> 'd heap"

definition ptr_take :: "'d chan_ptr \<Rightarrow> bool \<times> 'd chan_ptr" where
  "ptr_take rh = (case pool_take (snd rh) (fst rh) of (t, h) \<Rightarrow> (t, (fst rh, h)))"

definition ptr_release :: "'d chan_ptr \<Rightarrow> 'd chan_ptr option" where
  "ptr_release rh =
     (case Channel_Release (snd rh ! fst rh) of
        None \<Rightarrow> None
      | Some c \<Rightarrow> Some (fst rh, (snd rh)[fst rh := c]))"

text \<open>
  The results of \<open>Dial\<close>: a connection, the pair \<open>nil, nil\<close>, an error, or a call that does not return.
  \<open>pc_create\<close> is \<open>CreateDataChannel\<close> of a peer's connection.
\<close>

datatype 'd dial_result =
    DialConn "'d chan_ptr Conn"
  | DialNil
  | DialErr go_error
  | DialWaits
  | DialPanics

definition dial_first ::
  "string \<Rightarrow> ('p \<Rightarrow> string \<Rightarrow> go_error + 'd) \<Rightarrow> string list \<Rightarrow> string list \<Rightarrow> string \<Rightarrow> ChannelType
   \<Rightarrow> 'p PeersClient \<Rightarrow> 'd heap \<Rightarrow> 'd dial_result \<times> 'p PeersClient \<times> 'd heap" where
  "dial_first st pc_create ord ord_idle clusterName ct c h =
     (case getRandPeer ord c clusterName of
        None \<Rightarrow> (DialNil, c, h)
      | Some p \<Rightarrow>
          (case ChannelPool_Get st (pc_create (pe_pc p)) ord_idle (pe_pool p) h ct [] of
             (Inl e, pool, h') \<Rightarrow> (DialErr e, addPeer clusterName (p\<lparr>pe_pool := pool\<rparr>) c, h')
           | (Inr r, pool, h') \<Rightarrow>
               (DialConn (NewConn (r, h')), addPeer clusterName (p\<lparr>pe_pool := pool\<rparr>) c, h')))"

definition PeersClient_Dial ::
  "string \<Rightarrow> 'p pc_ops \<Rightarrow> (nat \<Rightarrow> Packet \<Rightarrow> go_error option) \<Rightarrow> (string \<Rightarrow> 'p connect_env) \<Rightarrow> string
   \<Rightarrow> ('p \<Rightarrow> string \<Rightarrow> go_error + 'd) \<Rightarrow> string list \<Rightarrow> string list \<Rightarrow> string list
   \<Rightarrow> string \<Rightarrow> string \<Rightarrow> ChannelType \<Rightarrow> 'p PeersClient \<Rightarrow> 'd heap
   \<Rightarrow> 'd dial_result \<times> 'p PeersClient \<times> 'd heap" where
  "PeersClient_Dial st ops writeJSON env uuid pc_create ord0 ord ord_idle wsURL clusterName ct c h =
     (case getRandPeer ord0 c clusterName of
        Some _ \<Rightarrow> dial_first st pc_create ord ord_idle clusterName ct c h
      | None \<Rightarrow>
          (case PeersClient_Connect st ops writeJSON env uuid wsURL clusterName c of
             (c1, CoReturn None) \<Rightarrow> dial_first st pc_create ord ord_idle clusterName ct c1 h
           | (c1, CoReturn (Some e)) \<Rightarrow> (DialErr e, c1, h)
           | (c1, CoWaiting) \<Rightarrow> (DialWaits, c1, h)
           | (c1, CoPanics) \<Rightarrow> (DialPanics, c1, h)))"

text \<open>The package's \<open>Dial\<close> (\<open>dial.go\<close>) dials on a global client, which \<open>init\<close> creates.\<close>

definition peerClient_init :: "'p PeersClient" where
  "peerClient_init = NewPeersClient"

definition net_Dial ::
  "string \<Rightarrow> 'p pc_ops \<Rightarrow> (nat \<Rightarrow> Packet \<Rightarrow> go_error option) \<Rightarrow> (string \<Rightarrow> 'p connect_env) \<Rightarrow> string
   \<Rightarrow> ('p \<Rightarrow> string \<Rightarrow> go_error + 'd) \<Rightarrow> string list \<Rightarrow> string list \<Rightarrow> string list
   \<Rightarrow> string \<Rightarrow> string \<Rightarrow> ChannelType \<Rightarrow> 'p PeersClient \<Rightarrow> 'd heap
   \<Rightarrow> 'd dial_result \<times> 'p PeersClient \<times> 'd heap" where
  "net_Dial st ops writeJSON env uuid pc_create ord0 ord ord_idle sigAddr serverName ct peerClient h =
     PeersClient_Dial st ops writeJSON env uuid pc_create ord0 ord ord_idle sigAddr serverName ct peerClient h"

subsection \<open>The HTTP transport\<close>

record 'p Transport =
  tr_client :: "'p PeersClient"
  tr_sigAddr :: string
  tr_serverName :: string

definition NewTransport ::
  "string \<Rightarrow> 'p pc_ops \<Rightarrow> (nat \<Rightarrow> Packet \<Rightarrow> go_error option) \<Rightarrow> (string \<Rightarrow> 'p connect_env) \<Rightarrow> string
   \<Rightarrow> string \<Rightarrow> string \<Rightarrow> 'p Transport option \<times> connect_end" where
  "NewTransport st ops writeJSON env uuid sigAddr name =
     (case PeersClient_Connect st ops writeJSON env uuid sigAddr name NewPeersClient of
        (c, CoReturn None) \<Rightarrow>
          (Some \<lparr>tr_client = c, tr_sigAddr = sigAddr, tr_serverName = name\<rparr>, CoReturn None)
      | (c, r) \<Rightarrow> (None, r))"

text \<open>
  \<open>req.Write\<close> and \<open>http.ReadResponse\<close> act on the connection: they are arguments that change the
  connection's channel (with the heap) and return an error or a response.
\<close>

datatype ('d, 'r) round_trip =
    RtResp 'r "'d chan_ptr Conn"
  | RtErr go_error "'d heap"
  | RtWaits
  | RtPanics

definition release_conn :: "'d chan_ptr Conn \<Rightarrow> go_error \<Rightarrow> ('d, 'r) round_trip" where
  "release_conn conn e =
     (case Conn_Release ptr_release conn of None \<Rightarrow> RtPanics | Some c \<Rightarrow> RtErr e (snd (cn_rwr c)))"

definition exchange ::
  "('d chan_ptr Conn \<Rightarrow> 'd chan_ptr Conn \<times> go_error option) \<Rightarrow>
   ('d chan_ptr Conn \<Rightarrow> 'd chan_ptr Conn \<times> (go_error + 'r)) \<Rightarrow> 'd chan_ptr Conn \<Rightarrow> ('d, 'r) round_trip" where
  "exchange reqWrite readResponse conn =
     (case reqWrite conn of
        (c1, Some e) \<Rightarrow> release_conn c1 e
      | (c1, None) \<Rightarrow>
          (case readResponse c1 of
             (c2, Inl e) \<Rightarrow> release_conn c2 e
           | (c2, Inr resp) \<Rightarrow> RtResp resp c2))"

definition RoundTrip ::
  "string \<Rightarrow> 'p pc_ops \<Rightarrow> (nat \<Rightarrow> Packet \<Rightarrow> go_error option) \<Rightarrow> (string \<Rightarrow> 'p connect_env) \<Rightarrow> string
   \<Rightarrow> ('p \<Rightarrow> string \<Rightarrow> go_error + 'd) \<Rightarrow> string list \<Rightarrow> string list \<Rightarrow> string list
   \<Rightarrow> ('d chan_ptr Conn \<Rightarrow> 'd chan_ptr Conn \<times> go_error option)
   \<Rightarrow> ('d chan_ptr Conn \<Rightarrow> 'd chan_ptr Conn \<times> (go_error + 'r))
   \<Rightarrow> 'p Transport \<Rightarrow> 'd heap \<Rightarrow> ('d, 'r) round_trip \<times> 'p Transport" where
  "RoundTrip st ops writeJSON env uuid pc_create ord0 ord ord_idle reqWrite readResponse t h =
     (case PeersClient_Dial st ops writeJSON env uuid pc_create ord0 ord ord_idle
             (tr_sigAddr t) (tr_serverName t) Web (tr_client t) h of
        (d, c, h') \<Rightarrow>
          (case d of
             DialErr e \<Rightarrow> RtErr e h'
           | DialNil \<Rightarrow> RtErr (wrap_err st (ErrorString ''unknown conn'')) h'
           | DialConn conn \<Rightarrow> exchange reqWrite readResponse conn
           | DialWaits \<Rightarrow> RtWaits
           | DialPanics \<Rightarrow> RtPanics,
           t\<lparr>tr_client := c\<rparr>))"

text \<open>\<open>RespConnCloser.Close\<close>: the body is closed first, its error returned after the release.\<close>

definition RespConnCloser_Close ::
  "go_error option \<Rightarrow> 'd chan_ptr Conn \<Rightarrow> (go_error option \<times> 'd chan_ptr Conn) option" where
  "RespConnCloser_Close bodyErr conn =
     (case Conn_Release ptr_release conn of None \<Rightarrow> None | Some c \<Rightarrow> Some (bodyErr, c))"

subsection \<open>Lemmas\<close>

definition ptr_ok :: "'d chan_ptr \<Rightarrow> bool" where
  "ptr_ok rh \<longleftrightarrow> fst rh < length (snd rh) \<and> chan_inv (snd rh ! fst rh)"

definition ptr_active :: "'d chan_ptr \<Rightarrow> bool" where
  "ptr_active rh \<longleftrightarrow> fst rh < length (snd rh) \<and> c_status (snd rh ! fst rh) = Active"

text \<open>A pointer into the heap satisfies the contract of a channel that is taken and released.\<close>

lemma ptr_release_frees:
  assumes "ptr_ok rh"
  shows "\<exists>rh'. ptr_release rh = Some rh' \<and> ptr_ok rh' \<and> \<not> ptr_active rh'"
proof -
  obtain c where "Channel_Release (snd rh ! fst rh) = Some c" "chan_inv c" "c_status c \<noteq> Active"
    using assms Release_inv [of "snd rh ! fst rh"] by (auto simp: ptr_ok_def)
  with assms show ?thesis by (simp add: ptr_release_def ptr_ok_def ptr_active_def)
qed

lemma ptr_take_True:
  assumes "ptr_ok rh" "ptr_take rh = (True, rh')"
  shows "\<not> ptr_active rh \<and> ptr_active rh' \<and> ptr_ok rh'"
proof (cases "snd rh" "fst rh" rule: pool_take_cases)
  case (Taken c)
  then have "rh' = (fst rh, (snd rh)[fst rh := c])" using assms(2) by (simp add: ptr_take_def)
  with Taken assms(1) show ?thesis
    using TakeConn_inv [of "snd rh ! fst rh" True c] by (simp add: ptr_active_def ptr_ok_def)
qed (use assms(2) in \<open>simp add: ptr_take_def\<close>)

lemma ptr_take_False: "ptr_take rh = (False, rh') \<Longrightarrow> rh' = rh"
  by (cases "snd rh" "fst rh" rule: pool_take_cases) (auto simp: ptr_take_def)

lemma ptr_take_active: "ptr_active rh \<Longrightarrow> fst (ptr_take rh) = False"
  by (cases "snd rh" "fst rh" rule: pool_take_cases) (auto simp: ptr_take_def ptr_active_def)

lemma ptr_release_free: "\<not> ptr_active rh \<Longrightarrow> ptr_ok rh \<Longrightarrow> ptr_release rh = Some rh"
  by (simp add: ptr_release_def ptr_active_def ptr_ok_def Channel_Release_def)

lemma Conn_Release_ptr:
  "Conn_Release ptr_release c = Some c' \<Longrightarrow> fst (cn_rwr c') = fst (cn_rwr c)"
  by (auto simp: Conn_Release_def ptr_release_def split: if_splits option.splits)

lemma getPeer_addPeer:
  "getPeer (addPeer s p c) s' k = (if s' = s \<and> k = Peer_Id p then Some p else getPeer c s' k)"
  by (auto simp: getPeer_def addPeer_def split: option.split)

lemma getPeer_New [simp]: "getPeer NewPeersClient s k = None"
  by (simp add: getPeer_def NewPeersClient_def)

lemma range_first_Some: "range_first ord m = Some v \<Longrightarrow> \<exists>k. gm_get m k = Some v"
  by (induction ord) (auto split: option.splits)

lemma getRandPeer_Some: "getRandPeer ord c s = Some p \<Longrightarrow> \<exists>k. getPeer c s k = Some p"
  using range_first_Some by (fastforce simp: getRandPeer_def getPeer_def split: option.splits)

lemma getPeer_GetCluserClient: "getPeer (snd (GetCluserClient u w n c)) s k = getPeer c s k"
  by (auto simp: getPeer_def GetCluserClient_def Let_def split: option.split)

lemma Connect_eq:
  "PeersClient_Connect st ops wj env u w n c = (snd (GetCluserClient u w n c), CoReturn None)"
  by (simp add: PeersClient_Connect_def GetCluster_def split: prod.split)

text \<open>Every peer is filed under its own id and its pool is well formed over the shared heap.\<close>

definition peers_inv :: "'p PeersClient \<Rightarrow> 'd heap \<Rightarrow> bool" where
  "peers_inv c h \<longleftrightarrow> (\<forall>s k p. getPeer c s k = Some p \<longrightarrow> k = Peer_Id p \<and> pool_inv (pe_pool p) h)"

lemma pool_inv_grow:
  assumes "pool_inv p h" "\<forall>c \<in> set h'. chan_inv c" "length h \<le> length h'"
    "\<forall>i < length h. c_label (h' ! i) = c_label (h ! i)"
  shows "pool_inv p h'"
  using assms unfolding pool_inv_def by (metis order_less_le_trans)

lemma pool_take_labels:
  assumes "pool_take h r = (t, h')"
  shows "length h' = length h" "i < length h \<Longrightarrow> c_label (h' ! i) = c_label (h ! i)"
  using assms by (cases h r rule: pool_take_cases; cases "i = r"; auto)+

lemma get_create_labels:
  assumes "get_create st cr ct key p h = (res, p', h')"
  shows "cp_id p' = cp_id p" "length h \<le> length h'" "i < length h \<Longrightarrow> h' ! i = h ! i"
  using assms by (auto simp: get_create_eq Let_def nth_append split: sum.splits)

lemma Get_labels:
  assumes "ChannelPool_Get st cr ord p h ct [] = (res, p', h')"
  shows "cp_id p' = cp_id p \<and> length h \<le> length h' \<and> (\<forall>i < length h. c_label (h' ! i) = c_label (h ! i))"
proof -
  obtain key r h1 where rt: "range_take (cp_idles p) ord h '''' = (key, r, h1)" using prod_cases3 by blast
  show ?thesis
  proof (cases r)
    case None
    with rt range_take_spec [OF rt] assms have "get_create st cr ct key p h = (res, p', h')"
      by (simp add: ChannelPool_Get_def)
    from get_create_labels [OF this] show ?thesis by simp
  next
    case (Some x)
    with rt range_take_spec [OF rt] have "pool_take h x = (True, h1)" by simp
    from pool_take_labels [OF this] rt Some assms show ?thesis
      by (auto simp: ChannelPool_Get_def get_done_def)
  qed
qed

lemma peers_inv_get:
  assumes inv: "peers_inv c h" and p: "getPeer c s k = Some p"
    and get: "ChannelPool_Get st cr ord (pe_pool p) h ct [] = (Inr r, pool, h')"
  shows "peers_inv (addPeer s (p\<lparr>pe_pool := pool\<rparr>) c) h'"
proof -
  have pi: "pool_inv (pe_pool p) h" using inv p by (simp add: peers_inv_def)
  from Get_got [OF pi get] have pool: "pool_inv pool h'" by (simp add: got_def)
  then have "\<forall>x \<in> set h'. chan_inv x" by (simp add: pool_inv_def)
  with Get_labels [OF get] have "pool_inv q h \<Longrightarrow> pool_inv q h'" for q
    by (blast intro: pool_inv_grow)
  with inv pool show ?thesis by (auto simp: peers_inv_def getPeer_addPeer)
qed

interpretation heap_ptr: releaser ptr_take ptr_release ptr_active ptr_ok
proof unfold_locales
  fix rh rh' :: "'d chan_ptr"
  show "ptr_ok rh \<Longrightarrow> ptr_take rh = (True, rh') \<Longrightarrow> \<not> ptr_active rh \<and> ptr_active rh' \<and> ptr_ok rh'"
    by (rule ptr_take_True)
  show "ptr_take rh = (False, rh') \<Longrightarrow> rh' = rh" by (rule ptr_take_False)
  show "ptr_active rh \<Longrightarrow> fst (ptr_take rh) = False" by (rule ptr_take_active)
  show "ptr_ok rh \<Longrightarrow> \<exists>rh'. ptr_release rh = Some rh' \<and> ptr_ok rh' \<and> \<not> ptr_active rh'"
    by (rule ptr_release_frees)
  show "ptr_ok rh \<Longrightarrow> \<not> ptr_active rh \<Longrightarrow> ptr_release rh = Some rh" by (simp add: ptr_release_free)
qed

subsection \<open>Properties\<close>

text \<open>
  C21: a connection returned by \<open>Dial\<close> is over a channel that is active and was idle or did not exist
  before the call; no other channel changes, and the client's tables stay well formed over the new heap.
\<close>

theorem dial_takes_a_free_channel:
  assumes "peers_inv c h"
    and "PeersClient_Dial st ops wj env u cr ord0 ord ordi url name ct c h = (DialConn conn, c', h')"
  shows "\<exists>r. conn = NewConn (r, h') \<and> ptr_active (r, h') \<and> (r < length h \<longrightarrow> c_status (h ! r) = Idle)
    \<and> (\<forall>i < length h. i \<noteq> r \<longrightarrow> h' ! i = h ! i) \<and> peers_inv c' h'"
proof -
  obtain c1 where c1: "peers_inv c1 h" "dial_first st cr ord ordi name ct c1 h = (DialConn conn, c', h')"
  proof (cases "getRandPeer ord0 c name")
    case None
    have "peers_inv (snd (GetCluserClient u url name c)) h"
      using assms(1) by (simp add: peers_inv_def getPeer_GetCluserClient)
    with that None assms(2) show thesis by (auto simp: PeersClient_Dial_def Connect_eq)
  next
    case (Some p)
    with that assms show thesis by (auto simp: PeersClient_Dial_def)
  qed
  from c1(2) obtain p r pool where p: "getRandPeer ord c1 name = Some p"
    and get: "ChannelPool_Get st (cr (pe_pc p)) ordi (pe_pool p) h ct [] = (Inr r, pool, h')"
    and res: "conn = NewConn (r, h')" "c' = addPeer name (p\<lparr>pe_pool := pool\<rparr>) c1"
    by (auto simp: dial_first_def split: option.splits prod.splits sum.splits)
  obtain k where k: "getPeer c1 name k = Some p" using getRandPeer_Some [OF p] by blast
  with c1(1) have "pool_inv (pe_pool p) h" by (simp add: peers_inv_def)
  from Get_got [OF this get] peers_inv_get [OF c1(1) k get] res show ?thesis
    by (auto simp: got_def ptr_active_def split: if_splits)
qed

definition demo_client :: "unit PeersClient" where
  "demo_client = addPeer ''pi'' (newPeer ''u'' () '''' ''b'' SDPTypeOffer) NewPeersClient"

theorem dial_takes_a_free_channel_witness:
  "\<exists>conn c' h'. PeersClient_Dial [] demo_ops (\<lambda>_ _. None) (\<lambda>_. undefined) [] (\<lambda>_ _. Inr ()) [''u''] [''u''] []
       [] ''pi'' Web demo_client ([] :: unit heap) = (DialConn conn, c', h') \<and>
     ptr_active (cn_rwr conn) \<and> peers_inv c' h'"
proof -
  have inv: "peers_inv demo_client ([] :: unit heap)"
    by (auto simp: demo_client_def peers_inv_def getPeer_addPeer newPeer_def NewChannelPool_def pool_inv_def)
  obtain conn c' h' where d: "PeersClient_Dial [] demo_ops (\<lambda>_ _. None) (\<lambda>_. undefined) [] (\<lambda>_ _. Inr ()) [''u'']
      [''u''] [] [] ''pi'' Web demo_client ([] :: unit heap) = (DialConn conn, c', h')"
    by (simp add: PeersClient_Dial_def getRandPeer_def demo_client_def addPeer_def NewPeersClient_def newPeer_def
        NewChannelPool_def dial_first_def ChannelPool_Get_def get_create_eq Let_def)
  from dial_takes_a_free_channel [OF inv d] d show ?thesis by (auto simp: NewConn_def)
qed

text \<open>
  Because \<open>GetCluster\<close> never asks the server, a transport is always created and connects to nobody:
  after any number of exchanges the next one fails with \<open>unknown conn\<close> and touches no channel, whatever
  the network, the WebRTC library and the HTTP library would do.
\<close>

theorem transport_reaches_no_backend:
  "\<exists>t. NewTransport st ops wj env u sigAddr name = (Some t, CoReturn None) \<and>
     fst (RoundTrip st ops wj env u cr ord0 ord ordi reqWrite readResponse
        (((\<lambda>x. snd (RoundTrip st ops wj env u cr ord0 ord ordi reqWrite readResponse x h)) ^^ n) t) h)
     = RtErr (StdError (ErrorString ''unknown conn'') st) h"
proof -
  let ?step = "\<lambda>x. snd (RoundTrip st ops wj env u cr ord0 ord ordi reqWrite readResponse x h)"
  let ?empty = "\<lambda>c :: 'a PeersClient. \<forall>s k. getPeer c s k = None"
  let ?t = "\<lparr>tr_client = snd (GetCluserClient u sigAddr name NewPeersClient), tr_sigAddr = sigAddr, tr_serverName = name\<rparr>"
  have rand: "?empty c \<Longrightarrow> getRandPeer ord' c s = None" for c s and ord'
    using getRandPeer_Some [of ord' c s] by (cases "getRandPeer ord' c s") auto
  have dial: "PeersClient_Dial st ops wj env u cr ord0 ord ordi url s Web c h
      = (DialNil, snd (GetCluserClient u url s c), h)" if "?empty c" for c url s
    using that by (simp add: PeersClient_Dial_def Connect_eq dial_first_def rand getPeer_GetCluserClient)
  have "?empty (tr_client ((?step ^^ n) ?t))"
  proof (induction n)
    case 0
    show ?case by (simp add: getPeer_GetCluserClient)
  next
    case (Suc n)
    then show ?case by (simp add: RoundTrip_def dial getPeer_GetCluserClient)
  qed
  from dial [OF this] have "fst (RoundTrip st ops wj env u cr ord0 ord ordi reqWrite readResponse ((?step ^^ n) ?t) h)
      = RtErr (StdError (ErrorString ''unknown conn'') st) h"
    by (simp add: RoundTrip_def wrap_err_def Wrap_def)
  moreover have "NewTransport st ops wj env u sigAddr name = (Some ?t, CoReturn None)"
    by (simp add: NewTransport_def Connect_eq)
  ultimately show ?thesis by blast
qed

text \<open>The HTTP codec acts on the connection it is given only by reading and writing.\<close>

definition codec_keeps :: "('d chan_ptr Conn \<Rightarrow> 'd chan_ptr Conn \<times> 'x) \<Rightarrow> bool" where
  "codec_keeps f \<longleftrightarrow> (\<forall>conn. ptr_ok (cn_rwr conn) \<longrightarrow> ptr_ok (cn_rwr (fst (f conn))) \<and>
     fst (cn_rwr (fst (f conn))) = fst (cn_rwr conn) \<and> cn_isRelease (fst (f conn)) = cn_isRelease conn)"

lemma codec_keepsD:
  assumes "codec_keeps f" "ptr_ok (cn_rwr conn)" "f conn = (c', x)"
  shows "ptr_ok (cn_rwr c')" "fst (cn_rwr c') = fst (cn_rwr conn)" "cn_isRelease c' = cn_isRelease conn"
  using assms unfolding codec_keeps_def by (metis fst_conv)+

lemma release_conn_frees:
  assumes "ptr_ok (cn_rwr conn)" "\<not> cn_isRelease conn"
  shows "\<exists>h'. release_conn conn e = RtErr e h' \<and> \<not> ptr_active (fst (cn_rwr conn), h')"
proof -
  obtain c' where "Conn_Release ptr_release conn = Some c'" "\<not> ptr_active (cn_rwr c')"
    using heap_ptr.conn_release_ok [OF assms(1)] assms(2) by blast
  with Conn_Release_ptr [of conn c'] show ?thesis by (simp add: release_conn_def) (metis prod.collapse)
qed

text \<open>
  C22: an HTTP exchange never leaks the channel it runs on and never panics: when writing the request or
  reading the response fails, the error is returned and the channel is free again; when it succeeds, the
  response carries the connection, and closing its body returns the body's own error and frees the
  channel, a second close changing nothing.
\<close>

theorem exchange_gives_the_channel_back:
  assumes "ptr_ok (cn_rwr conn)" "\<not> cn_isRelease conn" "codec_keeps reqWrite" "codec_keeps readResponse"
  shows "(\<exists>e h'. exchange reqWrite readResponse conn = RtErr e h' \<and> \<not> ptr_active (fst (cn_rwr conn), h')) \<or>
    (\<exists>resp c2 c3. exchange reqWrite readResponse conn = RtResp resp c2 \<and>
       RespConnCloser_Close err c2 = Some (err, c3) \<and> fst (cn_rwr c3) = fst (cn_rwr conn) \<and>
       \<not> ptr_active (cn_rwr c3) \<and> RespConnCloser_Close err c3 = Some (err, c3))"
proof -
  obtain c1 e1 where w: "reqWrite conn = (c1, e1)" by fastforce
  obtain c2 r where rd: "readResponse c1 = (c2, r)" by fastforce
  have c1: "ptr_ok (cn_rwr c1)" "fst (cn_rwr c1) = fst (cn_rwr conn)" "\<not> cn_isRelease c1"
    using codec_keepsD [OF assms(3,1) w] assms(2) by simp_all
  have c2: "ptr_ok (cn_rwr c2)" "fst (cn_rwr c2) = fst (cn_rwr conn)" "\<not> cn_isRelease c2"
    using codec_keepsD [OF assms(4) c1(1) rd] c1 by simp_all
  obtain c3 where c3: "Conn_Release ptr_release c2 = Some c3" "cn_isRelease c3" "\<not> ptr_active (cn_rwr c3)"
    using heap_ptr.conn_release_ok [OF c2(1)] c2(3) by blast
  with c2(2) Conn_Release_ptr [OF c3(1)]
  have close: "RespConnCloser_Close err c2 = Some (err, c3)" "fst (cn_rwr c3) = fst (cn_rwr conn)"
    "RespConnCloser_Close err c3 = Some (err, c3)"
    by (simp_all add: RespConnCloser_Close_def) (simp add: Conn_Release_def)
  show ?thesis
  proof (cases e1)
    case (Some e)
    then have "exchange reqWrite readResponse conn = release_conn c1 e" using w by (simp add: exchange_def)
    with release_conn_frees [OF c1(1,3), of e] c1(2) show ?thesis by metis
  next
    case None
    then show ?thesis
      using w rd close c3(3) release_conn_frees [OF c2(1,3)] c2(2)
      by (cases r) (fastforce simp: exchange_def)+
  qed
qed

theorem exchange_gives_the_channel_back_witness:
  "let c = snd (Channel_TakeConn (NewOfferChannel [] ''u'' () (NewLabel Web 1)));
       conn = NewConn (0, [c])
   in ptr_active (cn_rwr conn) \<and>
      (\<exists>c3. exchange (\<lambda>c. (c, None)) (\<lambda>c. (c, Inr ''200 OK'')) conn = RtResp ''200 OK'' conn \<and>
        RespConnCloser_Close None conn = Some (None, c3) \<and> \<not> ptr_active (cn_rwr c3))"
proof -
  let ?c = "snd (Channel_TakeConn (NewOfferChannel [] ''u'' () (NewLabel Web 1)))"
  have "ptr_ok (cn_rwr (NewConn (0, [?c])))" "\<not> cn_isRelease (NewConn (0 :: nat, [?c]))"
    and act: "ptr_active (0, [?c])"
    by (simp_all add: NewConn_def ptr_ok_def ptr_active_def new_taken)
  moreover have "codec_keeps (\<lambda>c :: unit chan_ptr Conn. (c, None :: go_error option))"
    "codec_keeps (\<lambda>c :: unit chan_ptr Conn. (c, Inr ''200 OK'' :: go_error + string))"
    by (simp_all add: codec_keeps_def)
  ultimately have "\<exists>c3. RespConnCloser_Close None (NewConn (0, [?c])) = Some (None, c3) \<and> \<not> ptr_active (cn_rwr c3)"
    using exchange_gives_the_channel_back [of "NewConn (0, [?c])" "\<lambda>c. (c, None)" "\<lambda>c. (c, Inr ''200 OK'')" None]
    by (auto simp: exchange_def)
  with act show ?thesis by (simp add: Let_def exchange_def) (simp add: NewConn_def)
qed

end
