(* ===== verification/Listener.thy ===== *)
theory Listener
  imports Peer Registry
begin

section \<open>The listener of a backend (\<open>net/listener.go\<close>)\<close>

text \<open>
  The listener registers the backend with the signalling server, creates an answering peer for every
  remote peer that calls, and hands the channels that their pools announce on \<open>accept\<close> to \<open>Accept\<close>.
  Its goroutine \<open>loop\<close> is run over the list of events it meets.  \<open>NewPeer\<close>, the channel of new remote
  peers, is not defined in the package: its values are events.
\<close>

record ('p, 'r) Listener =
  li_wsURL :: string
  li_clusterName :: string
  li_id :: string
  li_sig :: WsSigClient
  li_onClose :: "string gochan"
  li_accept :: "'r gochan"
  li_peers :: "(string, 'p Peer) gomap"
  li_isClose :: bool
  li_close :: "unit gochan"

text \<open>The composite literal of \<open>NewListener\<close> does not set \<open>wsURL\<close>, which stays empty.\<close>

definition NewListener :: "string \<Rightarrow> string \<Rightarrow> string \<Rightarrow> ('p, 'r) Listener" where
  "NewListener uuid wsURL clusterName =
     \<lparr>li_wsURL = '''', li_clusterName = clusterName, li_id = uuid,
      li_sig = NewWsBackendSigClient uuid wsURL clusterName,
      li_onClose = make_chan 1, li_accept = make_chan 100, li_peers = [],
      li_isClose = False, li_close = make_chan 1\<rparr>"

datatype ('p, 'r) accepted = AcConn "'r Conn" "('p, 'r) Listener" | AcErr go_error | AcBlocks

definition Listener_Accept :: "bool \<Rightarrow> ('p, 'r) Listener \<Rightarrow> ('p, 'r) accepted" where
  "Listener_Accept pick l =
     (case select2 pick (chan_ready (li_close l)) (chan_ready (li_accept l)) of
        SelFirst \<Rightarrow> AcErr NetErrClosed
      | SelSecond \<Rightarrow>
          (case chan_recv (li_accept l) of
             Received rwr ch \<Rightarrow> AcConn (NewConn rwr) (l\<lparr>li_accept := ch\<rparr>)
           | _ \<Rightarrow> AcBlocks)
      | SelBlocks \<Rightarrow> AcBlocks)"

definition AddPeer :: "string \<Rightarrow> 'p Peer \<Rightarrow> ('p, 'r) Listener \<Rightarrow> ('p, 'r) Listener" where
  "AddPeer key p l = l\<lparr>li_peers := gm_put key p (li_peers l)\<rparr>"

definition GetPeer :: "('p, 'r) Listener \<Rightarrow> string \<Rightarrow> 'p Peer option" where
  "GetPeer l key = gm_get (li_peers l) key"

definition DelPeer :: "string \<Rightarrow> ('p, 'r) Listener \<Rightarrow> ('p, 'r) Listener" where
  "DelPeer key l = l\<lparr>li_peers := gm_del key (li_peers l)\<rparr>"

text \<open>
  \<open>Close\<close> reads the flag under the read lock and closes the channel under the write lock, in two separate
  critical sections: \<open>Close_check\<close> answers whether the second is skipped, \<open>Close_do\<close> panics (\<open>None\<close>) when
  the channel is closed already.
\<close>

definition Listener_Close_check :: "('p, 'r) Listener \<Rightarrow> bool" where
  "Listener_Close_check l = li_isClose l"

definition Listener_Close_do :: "('p, 'r) Listener \<Rightarrow> ('p, 'r) Listener option" where
  "Listener_Close_do l =
     (case chan_close (li_close l) of
        None \<Rightarrow> None
      | Some ch \<Rightarrow> Some (l\<lparr>li_isClose := True, li_close := ch\<rparr>))"

definition Listener_Close :: "('p, 'r) Listener \<Rightarrow> ('p, 'r) Listener option" where
  "Listener_Close l = (if Listener_Close_check l then Some l else Listener_Close_do l)"

definition Listener_Addr :: "string \<times> nat" where
  "Listener_Addr = (''127.0.0.1'', 80)"

text \<open>The goroutine that runs the signalling client and closes it when \<open>Run\<close> has returned.\<close>

definition run_sig ::
  "string \<Rightarrow> go_error + nat \<Rightarrow> (nat \<Rightarrow> WsHeader \<Rightarrow> go_error option) \<Rightarrow> run_event list
   \<Rightarrow> ('p, 'r) Listener \<Rightarrow> ('p, 'r) Listener" where
  "run_sig cid dial writeHeader evs l =
     (case Run cid (li_sig l) dial writeHeader evs of
        (c, RunReturn e) \<Rightarrow> l\<lparr>li_sig := WsSigClient_Close c\<rparr>
      | (c, _) \<Rightarrow> l\<lparr>li_sig := c\<rparr>)"

text \<open>
  What the listener meets: its own loop receives \<open>close\<close>, a tick, a new remote peer (with the id drawn
  for the local peer and the result of creating the connection) or a key on \<open>onClose\<close>; meanwhile its
  signalling client runs, and the \<open>Listen\<close> goroutine of a peer may fail.
\<close>

datatype 'p lis_event =
    LeClose
  | LeTick
  | LeNewPeer string string "go_error + 'p"
  | LeOnClose string
  | LeListenFailed string
  | LeSigRuns string "go_error + nat" "nat \<Rightarrow> WsHeader \<Rightarrow> go_error option" "run_event list"

definition loop_new_peer ::
  "string \<Rightarrow> string \<Rightarrow> string \<Rightarrow> go_error + 'p \<Rightarrow> ('p, 'r) Listener \<Rightarrow> ('p, 'r) Listener option" where
  "loop_new_peer st uuid remoteId pcRes l =
     (case GetPeer l remoteId of
        Some _ \<Rightarrow> Some l
      | None \<Rightarrow>
          (case NewAnswerPeer st uuid pcRes '''' remoteId of
             Inl e \<Rightarrow> None
           | Inr p \<Rightarrow> Some (AddPeer remoteId p l)))"

definition loop_tick :: "('p, 'r) Listener \<Rightarrow> ('p, 'r) Listener" where
  "loop_tick l =
     (if WsSigClient_IsClose (li_sig l)
      then l\<lparr>li_sig := NewWsBackendSigClient (li_id l) (li_wsURL l) (li_clusterName l)\<rparr> else l)"

text \<open>The state after the events and whether the loop still runs.\<close>

fun listener_loop :: "string \<Rightarrow> ('p, 'r) Listener \<Rightarrow> 'p lis_event list \<Rightarrow> ('p, 'r) Listener \<times> bool" where
  "listener_loop st l [] = (l, True)"
| "listener_loop st l (LeClose # evs) = (l, False)"
| "listener_loop st l (LeTick # evs) = listener_loop st (loop_tick l) evs"
| "listener_loop st l (LeNewPeer uuid remoteId pcRes # evs) =
     (case loop_new_peer st uuid remoteId pcRes l of
        None \<Rightarrow> (l, False)
      | Some l' \<Rightarrow> listener_loop st l' evs)"
| "listener_loop st l (LeOnClose key # evs) = listener_loop st (DelPeer key l) evs"
| "listener_loop st l (LeListenFailed key # evs) = listener_loop st (DelPeer key l) evs"
| "listener_loop st l (LeSigRuns cid dial wh revs # evs) = listener_loop st (run_sig cid dial wh revs l) evs"

subsection \<open>The table of peers is a registry\<close>

interpretation peers: registry GetPeer AddPeer DelPeer "\<lambda>k p. p" "\<lambda>_. True"
  by unfold_locales (auto simp: GetPeer_def AddPeer_def DelPeer_def)

text \<open>The operations on the table that the events of a run perform.\<close>

fun table_ops :: "string \<Rightarrow> ('p, 'r) Listener \<Rightarrow> 'p lis_event list \<Rightarrow> (string, 'p Peer) reg_op list" where
  "table_ops st l [] = []"
| "table_ops st l (LeClose # evs) = []"
| "table_ops st l (LeTick # evs) = table_ops st (loop_tick l) evs"
| "table_ops st l (LeNewPeer uuid remoteId pcRes # evs) =
     (case GetPeer l remoteId of
        Some _ \<Rightarrow> table_ops st l evs
      | None \<Rightarrow>
          (case NewAnswerPeer st uuid pcRes '''' remoteId of
             Inl e \<Rightarrow> []
           | Inr p \<Rightarrow> RegIns remoteId p # table_ops st (AddPeer remoteId p l) evs))"
| "table_ops st l (LeOnClose key # evs) = RegDel key # table_ops st (DelPeer key l) evs"
| "table_ops st l (LeListenFailed key # evs) = RegDel key # table_ops st (DelPeer key l) evs"
| "table_ops st l (LeSigRuns cid dial wh revs # evs) = table_ops st (run_sig cid dial wh revs l) evs"

lemma GetPeer_frame [simp]:
  "GetPeer (loop_tick l) k = GetPeer l k" "GetPeer (run_sig cid dial wh revs l) k = GetPeer l k"
  by (auto simp: GetPeer_def loop_tick_def run_sig_def split: prod.split run_end.split)

lemma listener_loop_table:
  "GetPeer (fst (listener_loop st l evs)) k = reg_spec (\<lambda>k p. p) (table_ops st l evs) k (GetPeer l k)"
  by (induction st l evs rule: listener_loop.induct)
    (auto simp: loop_new_peer_def peers.look_ins peers.look_del split: option.splits sum.splits)

definition removes :: "string \<Rightarrow> 'p lis_event \<Rightarrow> bool" where
  "removes k e = (case e of LeOnClose k' \<Rightarrow> k' = k | LeListenFailed k' \<Rightarrow> k' = k | _ \<Rightarrow> False)"

lemma table_ops_keep:
  "GetPeer l k = Some p \<Longrightarrow> (\<forall>e \<in> set evs. \<not> removes k e) \<Longrightarrow>
     reg_spec (\<lambda>k p. p) (table_ops st l evs) k (Some p) = Some p"
  by (induction st l evs rule: table_ops.induct)
    (auto simp: removes_def peers.look_ins peers.look_del split: option.splits sum.splits)

text \<open>Every peer of the table answers the remote peer whose id is its key.\<close>

definition answers_key :: "string \<Rightarrow> 'p Peer \<Rightarrow> bool" where
  "answers_key k p \<longleftrightarrow> cp_type (pe_pool p) = SDPTypeAnswer \<and> cp_remoteId (pe_pool p) = k \<and> cp_accept (pe_pool p)"

lemma NewAnswerPeer_answers: "NewAnswerPeer st uuid pcRes rc k = Inr p \<Longrightarrow> answers_key k p"
  by (auto simp: NewAnswerPeer_def answers_key_def newPeer_def NewChannelPool_def Let_def split: sum.splits)

lemma table_ops_answers:
  "RegIns k p \<in> set (table_ops st l evs) \<Longrightarrow> answers_key k p"
  by (induction st l evs rule: table_ops.induct)
    (auto split: option.splits sum.splits dest: NewAnswerPeer_answers NewAnswerPeer_answers [OF sym] sym)

lemma reg_spec_origin:
  "reg_spec (\<lambda>k p. p) ops k v = Some p \<Longrightarrow> RegIns k p \<in> set ops \<or> v = Some p"
proof (induction ops arbitrary: v)
  case (Cons op ops)
  then show ?case by (cases op) (auto split: if_splits dest!: Cons.IH)
qed simp

lemma NewListener_sel [simp]:
  "li_wsURL (NewListener uuid url name) = ''''" "li_id (NewListener uuid url name) = uuid"
  "li_clusterName (NewListener uuid url name) = name" "GetPeer (NewListener uuid url name) k = None"
  by (simp_all add: NewListener_def GetPeer_def)

lemma listener_config [simp]:
  "li_wsURL (fst (listener_loop st l evs)) = li_wsURL l \<and> li_id (fst (listener_loop st l evs)) = li_id l \<and>
   li_clusterName (fst (listener_loop st l evs)) = li_clusterName l"
  by (induction st l evs rule: listener_loop.induct)
    (auto simp: loop_tick_def run_sig_def loop_new_peer_def AddPeer_def DelPeer_def
      split: option.splits sum.splits prod.split run_end.split)

subsection \<open>Properties\<close>

text \<open>
  C33: whatever a fresh listener goes through, every peer in its table was created to answer the remote
  peer under whose id it is filed and announces its channels on \<open>accept\<close>; and once a remote peer has a
  peer, repeated calls of that remote peer, reconnections and other peers' failures never replace it.
\<close>

theorem one_answering_peer_per_caller:
  assumes "GetPeer (fst (listener_loop st (NewListener uuid url name :: ('p, 'r) Listener) evs)) k = Some p"
    and "\<forall>e \<in> set evs'. \<not> removes k e"
  shows "answers_key k p \<and>
    GetPeer (fst (listener_loop st (fst (listener_loop st (NewListener uuid url name :: ('p, 'r) Listener) evs)) evs')) k = Some p"
proof -
  have "reg_spec (\<lambda>k p. p) (table_ops st (NewListener uuid url name :: ('p, 'r) Listener) evs) k None = Some p"
    using assms(1) by (simp add: listener_loop_table)
  then have "answers_key k p" by (auto dest: reg_spec_origin table_ops_answers)
  then show ?thesis
    using assms table_ops_keep [OF assms] by (simp add: listener_loop_table [of st _ evs'])
qed

theorem one_answering_peer_per_caller_witness:
  "\<exists>p :: unit Peer. answers_key ''r'' p \<and>
     GetPeer (fst (listener_loop [] (fst (listener_loop [] (NewListener ''l'' ''ws'' ''pi'' :: (unit, unit) Listener)
        [LeNewPeer ''u'' ''r'' (Inr ())])) [LeTick, LeNewPeer ''v'' ''r'' (Inr ()), LeOnClose ''s''])) ''r'' = Some p"
proof -
  let ?l = "NewListener ''l'' ''ws'' ''pi'' :: (unit, unit) Listener"
  obtain p where "GetPeer (fst (listener_loop [] ?l [LeNewPeer ''u'' ''r'' (Inr ())])) ''r'' = Some p"
    by (simp add: loop_new_peer_def NewListener_def GetPeer_def AddPeer_def NewAnswerPeer_def Let_def)
  from one_answering_peer_per_caller [OF this, of "[LeTick, LeNewPeer ''v'' ''r'' (Inr ()), LeOnClose ''s'']"]
  show ?thesis by (auto simp: removes_def)
qed

text \<open>
  A listener never reconnects to its signalling server: after any events, a tick that finds the
  signalling client closed replaces it by one whose address is empty.
\<close>

theorem reconnect_forgets_the_address:
  assumes "WsSigClient_IsClose (li_sig (fst (listener_loop st (NewListener uuid url name :: ('p, 'r) Listener) evs)))"
  shows "li_sig (loop_tick (fst (listener_loop st (NewListener uuid url name :: ('p, 'r) Listener) evs)))
    = NewWsBackendSigClient uuid '''' name"
  using assms by (simp add: loop_tick_def)

theorem reconnect_forgets_the_address_witness:
  "wc_wsURL (li_sig (fst (listener_loop [] (NewListener ''l'' ''ws'' ''pi'' :: (unit, unit) Listener)
      [LeSigRuns [] (Inl EOF) (\<lambda>_ _. None) [], LeTick]))) = ''''"
proof -
  let ?l = "NewListener ''l'' ''ws'' ''pi'' :: (unit, unit) Listener"
  let ?evs = "[LeSigRuns [] (Inl EOF) (\<lambda>_ _. None) []]"
  have "WsSigClient_IsClose (li_sig (fst (listener_loop [] ?l ?evs)))"
    by (simp add: run_sig_def Run_def NewListener_def WsSigClient_IsClose_def WsSigClient_Close_def
        NewWsBackendSigClient_def NewWsSigClient_def)
  from reconnect_forgets_the_address [OF this] show ?thesis
    by (simp only: listener_loop.simps fst_conv) (simp add: NewWsBackendSigClient_def NewWsSigClient_def)
qed

text \<open>
  Closing a listener is idempotent when the calls do not overlap: a closed listener stays closed,
  and \<open>Accept\<close> then never blocks: it reports the closing, or returns a connection that was announced
  before.  Two overlapping calls that both find the listener open make the second one panic.
\<close>

theorem listener_close_contract:
  assumes "ch_closed (li_close l) = li_isClose l" "\<not> ch_closed (li_accept l)"
  shows "(\<exists>l'. Listener_Close l = Some l' \<and> Listener_Close l' = Some l' \<and>
       ch_closed (li_close l') = li_isClose l' \<and>
       (Listener_Accept pick l' = AcErr NetErrClosed \<or>
        (\<exists>rwr l''. rwr \<in> set (ch_buf (li_accept l)) \<and> Listener_Accept pick l' = AcConn (NewConn rwr) l''))) \<and>
    (\<not> Listener_Close_check l \<longrightarrow> (\<exists>l'. Listener_Close_do l = Some l' \<and> Listener_Close_do l' = None))"
proof -
  have ready: "Listener_Accept pick l' = AcErr NetErrClosed \<or>
      (\<exists>rwr l''. rwr \<in> set (ch_buf (li_accept l')) \<and> Listener_Accept pick l' = AcConn (NewConn rwr) l'')"
    if "ch_closed (li_close l')" "\<not> ch_closed (li_accept l')" for l' :: "('a, 'b) Listener"
    using that
    by (cases "ch_buf (li_accept l')") (auto simp: Listener_Accept_def go_simps)
  show ?thesis
    using assms ready [of "if li_isClose l then l else l\<lparr>li_isClose := True, li_close := (li_close l)\<lparr>ch_closed := True\<rparr>\<rparr>"]
    by (auto simp: Listener_Close_def Listener_Close_check_def Listener_Close_do_def chan_close_def)
qed

theorem listener_close_contract_witness:
  "\<exists>l'. Listener_Close (NewListener ''l'' ''ws'' ''pi'' :: (unit, unit) Listener) = Some l' \<and>
     Listener_Close l' = Some l'"
  using listener_close_contract [of "NewListener ''l'' ''ws'' ''pi'' :: (unit, unit) Listener" True]
  by (auto simp: NewListener_def make_chan_def)

end
