(* ===== verification/Port_Proxy.thy ===== *)
theory Port_Proxy
  imports Clients Relay
begin

section \<open>Forwarded ports (\<open>frontend/proxy.go\<close>, \<open>backend/proxy.go\<close>, \<open>config/config.go\<close>)\<close>

text \<open>
  The frontend listens on local ports, opens a tunnel connection per accepted socket and writes the
  remote port as a two-byte header; the backend reads the header and connects to that port.  Sockets are
  library code: what accepting, dialling, reading and writing return is given by events and arguments.
\<close>

unbundle bit_operations_syntax

record ProxyPort =
  pp_local :: u16
  pp_remote :: u16

record ProxyBack =
  pb_addr :: string
  pb_ports :: "u16 list"

record Config =
  cfg_type :: string
  cfg_serverName :: string
  cfg_sigAddr :: string
  cfg_proxyBack :: "ProxyBack option"
  cfg_proxyFront :: "ProxyPort list"

text \<open>\<open>binary.BigEndian\<close> on two bytes.\<close>

definition PutUint16 :: "u16 \<Rightarrow> bytes" where
  "PutUint16 v = [ucast (drop_bit 8 v), ucast v]"

definition Uint16 :: "bytes \<Rightarrow> u16" where
  "Uint16 b = ucast (b ! 1) OR push_bit 8 (ucast (b ! 0))"

subsection \<open>The frontend\<close>

record ProxyClient =
  pxc_type :: SDPType
  pxc_sigAddr :: string
  pxc_serverName :: string
  pxc_ports :: "(u16, u16) gomap"

definition NewProxyClient :: "Config \<Rightarrow> SDPType \<Rightarrow> ProxyClient" where
  "NewProxyClient cfg pt =
     \<lparr>pxc_type = pt, pxc_sigAddr = cfg_sigAddr cfg, pxc_serverName = cfg_serverName cfg,
      pxc_ports = foldl (\<lambda>m v. gm_put (pp_local v) (pp_remote v) m) [] (cfg_proxyFront cfg)\<rparr>"

text \<open>
  A round of \<open>runForward\<close>: accepting fails, or a socket is accepted, \<open>Dial\<close> returns and, if there is a
  connection, writing the header returns an error or not.  \<open>rconn.RemoteAddr()\<close> on the nil connection
  that \<open>Dial\<close> may return panics.
\<close>

datatype 'd fwd_event = FeAcceptFails go_error | FeAccepted "'d dial_result" "go_error option"

datatype fwd_end = FwReturn go_error | FwPanics | FwWaits

fun runForward_loop :: "string \<Rightarrow> u16 \<Rightarrow> 'd fwd_event list \<Rightarrow> bytes list \<times> fwd_end" where
  "runForward_loop st remotePort [] = ([], FwWaits)"
| "runForward_loop st remotePort (FeAcceptFails e # evs) = ([], FwReturn (wrap_err st e))"
| "runForward_loop st remotePort (FeAccepted d werr # evs) =
     (case d of
        DialErr e \<Rightarrow> ([], FwReturn (wrap_err st e))
      | DialNil \<Rightarrow> ([], FwPanics)
      | DialPanics \<Rightarrow> ([], FwPanics)
      | DialWaits \<Rightarrow> ([], FwWaits)
      | DialConn conn \<Rightarrow>
          (let header = PutUint16 remotePort
           in case werr of
                Some e \<Rightarrow> ([header], FwReturn e)
              | None \<Rightarrow> (case runForward_loop st remotePort evs of (hs, r) \<Rightarrow> (header # hs, r))))"

definition runForward :: "string \<Rightarrow> go_error option \<Rightarrow> u16 \<Rightarrow> 'd fwd_event list \<Rightarrow> bytes list \<times> fwd_end" where
  "runForward st listenErr remotePort evs =
     (case listenErr of
        Some e \<Rightarrow> ([], FwReturn (wrap_err st e))
      | None \<Rightarrow> runForward_loop st remotePort evs)"

text \<open>\<open>runForwards\<close> runs one forward per entry of the port map, each in its own goroutine.\<close>

definition runForwards ::
  "string \<Rightarrow> (u16 \<Rightarrow> go_error option) \<Rightarrow> (u16 \<Rightarrow> 'd fwd_event list) \<Rightarrow> ProxyClient
   \<Rightarrow> (u16 \<times> bytes list \<times> fwd_end) list" where
  "runForwards st listenErr evs p =
     map (\<lambda>(l, r). (l, runForward st (listenErr l) r (evs l))) (pxc_ports p)"

subsection \<open>The backend\<close>

record ProxyServer =
  pxs_localAddr :: string
  pxs_ports :: "(u16, unit) gomap"

text \<open>A configuration without the section \<open>proxy_back\<close> makes \<open>NewProxy\<close> dereference nil: \<open>None\<close>.\<close>

definition NewProxyServer :: "Config \<Rightarrow> ProxyServer option" where
  "NewProxyServer cfg =
     (case cfg_proxyBack cfg of
        None \<Rightarrow> None
      | Some b \<Rightarrow> Some \<lparr>pxs_localAddr = pb_addr b, pxs_ports = foldl (\<lambda>m v. gm_put v () m) [] (pb_ports b)\<rparr>)"

text \<open>
  \<open>ServeConn\<close>, given what the first read returned and how dialling an address ends.  A served
  connection is forwarded by a goroutine of its own.
\<close>

datatype proxy_served = PsErr go_error | PsForward string

definition proxy_addr :: "ProxyServer \<Rightarrow> u16 \<Rightarrow> string" where
  "proxy_addr p port = pxs_localAddr p @ '':'' @ FormatUint (unat port)"

definition Proxy_ServeConn ::
  "string \<Rightarrow> (string \<Rightarrow> go_error option) \<Rightarrow> ProxyServer \<Rightarrow> bytes \<times> go_error option \<Rightarrow> proxy_served" where
  "Proxy_ServeConn st dial p rd =
     (case rd of
        (header, Some e) \<Rightarrow> PsErr e
      | (header, None) \<Rightarrow>
          if length header \<noteq> 2 then PsErr (wrap_err st (ErrorString ''proxy header error''))
          else
            (let port = Uint16 header
             in if port = 0 then PsErr (wrap_err st (ErrorString ''proxy port error''))
                else (case dial (proxy_addr p port) of
                        Some e \<Rightarrow> PsErr (wrap_err st e)
                      | None \<Rightarrow> PsForward (proxy_addr p port))))"

text \<open>\<open>AcceptProxy\<close> is not defined in the package; what it returns is the list of accepted connections.\<close>

fun Proxy_Run ::
  "string \<Rightarrow> (string \<Rightarrow> go_error option) \<Rightarrow> ProxyServer \<Rightarrow> (go_error + bytes \<times> go_error option) list
   \<Rightarrow> string list \<times> go_error option" where
  "Proxy_Run st dial p [] = ([], None)"
| "Proxy_Run st dial p (Inl e # as) = ([], Some (wrap_err st e))"
| "Proxy_Run st dial p (Inr rd # as) =
     (case Proxy_ServeConn st dial p rd of
        PsErr e \<Rightarrow> ([], Some e)
      | PsForward a \<Rightarrow> (case Proxy_Run st dial p as of (fs, r) \<Rightarrow> (a # fs, r)))"

subsection \<open>Lemmas\<close>

lemma Uint16_PutUint16: "Uint16 (PutUint16 v) = v"
proof (rule bit_word_eqI)
  fix n :: nat
  assume "n < LENGTH(16)"
  then show "bit (Uint16 (PutUint16 v)) n = bit v n"
    by (auto simp: Uint16_def PutUint16_def bit_or_iff bit_push_bit_iff bit_ucast_iff bit_drop_bit_eq)
qed

lemma length_PutUint16 [simp]: "length (PutUint16 v) = 2"
  by (simp add: PutUint16_def)

text \<open>The two-byte header as a codec: a read of two bytes is decoded, anything else is refused.\<close>

definition read_header :: "bytes \<Rightarrow> go_error + u16" where
  "read_header b =
     (if length b \<noteq> 2 then Inl (ErrorString ''proxy header error'')
      else if Uint16 b = 0 then Inl (ErrorString ''proxy port error'') else Inr (Uint16 b))"

interpretation header: codec PutUint16 read_header "\<lambda>port. port \<noteq> 0"
  by unfold_locales (simp add: read_header_def Uint16_PutUint16)

lemma ServeConn_header:
  "Proxy_ServeConn st dial p (b, None) =
     (case read_header b of
        Inl e \<Rightarrow> PsErr (wrap_err st e)
      | Inr port \<Rightarrow>
          (case dial (proxy_addr p port) of
             Some e \<Rightarrow> PsErr (wrap_err st e) | None \<Rightarrow> PsForward (proxy_addr p port)))"
  by (simp add: Proxy_ServeConn_def read_header_def Let_def)

text \<open>The last line of the configuration that names a local port decides.\<close>

lemma foldl_gm_put:
  "gm_get (foldl (\<lambda>m v. gm_put (f v) (g v) m) m0 vs) k =
     (case map_of (rev (map (\<lambda>v. (f v, g v)) vs)) k of Some x \<Rightarrow> Some x | None \<Rightarrow> gm_get m0 k)"
  by (induction vs arbitrary: m0) (auto simp: map_add_def split: option.split)

lemma foldl_gm_wf: "gm_wf m0 \<Longrightarrow> gm_wf (foldl (\<lambda>m v. gm_put (f v) (g v) m) m0 vs)"
  by (induction vs arbitrary: m0) simp_all

subsection \<open>Properties\<close>

text \<open>
  A forwarded port arrives: for the local port that the configuration maps (in its last line for it)
  to \<open>r\<close>, the frontend writes a header from which every backend recovers exactly \<open>r\<close>; the backend then
  connects to \<open>localAddr:r\<close>, for every non-zero \<open>r\<close>, whatever its list \<open>ports\<close> of allowed ports holds.
\<close>

theorem proxied_port_arrives:
  assumes "map_of (rev (map (\<lambda>v. (pp_local v, pp_remote v)) (cfg_proxyFront cfg))) l = Some r" "r \<noteq> 0"
    and "dial (pxs_localAddr p @ '':'' @ FormatUint (unat r)) = None"
  shows "\<exists>remote. gm_get (pxc_ports (NewProxyClient cfg pt)) l = Some remote \<and>
    (\<exists>hdr. fst (runForward st None remote [FeAccepted (DialConn conn) None]) = [hdr] \<and>
       Proxy_ServeConn st dial (p\<lparr>pxs_ports := allowed\<rparr>) (hdr, None)
         = PsForward (pxs_localAddr p @ '':'' @ FormatUint (unat r)))"
proof -
  have "gm_get (pxc_ports (NewProxyClient cfg pt)) l = Some r"
    using assms(1) by (simp add: NewProxyClient_def foldl_gm_put)
  then show ?thesis
    using assms(2,3) by (simp add: runForward_def Let_def ServeConn_header header.dec_enc proxy_addr_def)
qed

theorem proxied_port_arrives_witness:
  "\<exists>hdr. fst (runForward [] None 8080 [FeAccepted (DialConn (NewConn (0, [] :: unit heap))) None]) = [hdr] \<and>
     Proxy_ServeConn [] (\<lambda>_. None) \<lparr>pxs_localAddr = ''h'', pxs_ports = []\<rparr> (hdr, None)
       = PsForward (''h'' @ '':'' @ FormatUint (unat (8080 :: u16)))"
proof -
  let ?cfg = "\<lparr>cfg_type = [], cfg_serverName = [], cfg_sigAddr = [], cfg_proxyBack = None,
      cfg_proxyFront = [\<lparr>pp_local = 80, pp_remote = 8080\<rparr>]\<rparr>"
  have "gm_get (pxc_ports (NewProxyClient ?cfg SDPTypeOffer)) 80 = Some 8080"
    by (simp add: NewProxyClient_def)
  with proxied_port_arrives [of ?cfg 80 8080 "\<lambda>_. None" "\<lparr>pxs_localAddr = ''h'', pxs_ports = []\<rparr>" SDPTypeOffer
      "[]" "NewConn (0, [])" "[]"]
  show ?thesis by simp
qed

text \<open>
  The proxy service serves connections in order until the first one fails: the forwarded addresses are
  those of a prefix of the accepted connections, each of which carried a two-byte non-zero port header and
  could be dialled, and when the service ends with an error it is the error of the next connection alone
  (one malformed header or unreachable port stops the service for all later connections).
\<close>

theorem proxy_serves_until_first_failure:
  assumes "Proxy_Run st dial p as = (fs, r)"
  shows "\<exists>done rest. as = map Inr done @ rest \<and> map (\<lambda>rd. Proxy_ServeConn st dial p rd) done = map PsForward fs \<and>
    (case r of
       None \<Rightarrow> rest = []
     | Some e \<Rightarrow> (\<exists>a later. rest = a # later \<and>
         (case a of Inl e' \<Rightarrow> e = wrap_err st e' | Inr rd \<Rightarrow> Proxy_ServeConn st dial p rd = PsErr e)))"
  using assms
proof (induction st dial p as arbitrary: fs r rule: Proxy_Run.induct)
  case (1 st dial p)
  then show ?case by (auto intro!: exI [of _ "[]"])
next
  case (2 st dial p e as)
  then show ?case by (auto intro!: exI [of _ "[]"])
next
  case (3 st dial p rd as)
  show ?case
  proof (cases "Proxy_ServeConn st dial p rd")
    case (PsErr e)
    with "3.prems" show ?thesis by (auto intro!: exI [of _ "[]"])
  next
    case (PsForward a)
    obtain fs' r' where run: "Proxy_Run st dial p as = (fs', r')" by fastforce
    with "3.prems" PsForward have res: "fs = a # fs'" "r = r'" by simp_all
    from "3.IH" [OF PsForward run] obtain done' rest where
      "as = map Inr done' @ rest" "map (\<lambda>rd. Proxy_ServeConn st dial p rd) done' = map PsForward fs'"
      "case r' of None \<Rightarrow> rest = []
       | Some e \<Rightarrow> (\<exists>a later. rest = a # later \<and>
           (case a of Inl e' \<Rightarrow> e = wrap_err st e' | Inr rd \<Rightarrow> Proxy_ServeConn st dial p rd = PsErr e))"
      by blast
    with PsForward res show ?thesis by (intro exI [of _ "rd # done'"] exI [of _ rest]) simp
  qed
qed

theorem proxy_serves_until_first_failure_witness:
  "\<exists>fs e. Proxy_Run [] (\<lambda>_. None) \<lparr>pxs_localAddr = ''h'', pxs_ports = []\<rparr>
       [Inr (PutUint16 80, None), Inr ([0], None), Inr (PutUint16 81, None)] = (fs, Some e) \<and> length fs = 1"
proof -
  let ?p = "\<lparr>pxs_localAddr = ''h'', pxs_ports = []\<rparr>"
  let ?as = "[Inr (PutUint16 80, None), Inr ([0], None), Inr (PutUint16 81, None)]"
  obtain fs r where run: "Proxy_Run [] (\<lambda>_. None) ?p ?as = (fs, r)" by fastforce
  from proxy_serves_until_first_failure [OF run] run show ?thesis
    by (auto simp: ServeConn_header header.dec_enc read_header_def [of "[0]"])
qed

end
