(* ===== verification/Store.thy ===== *)
theory Store
  imports Stderr
begin

section \<open>The key-value store (\<open>db/kv.go\<close>)\<close>

text \<open>
  The storage is a badger database, library code: its state is a type parameter and the record
  \<open>badger\<close> holds the operations that the sources call.  A stored text is represented by its JSON syntax
  tree; \<open>json_type\<close> holds the encoding of a Go type and the decoding into an existing value (fields that
  a document does not mention keep their value, as \<open>json.Unmarshal\<close> does).
\<close>

type_synonym gint = "64 word"

datatype json = JNull | JStr string | JNum int | JObj "(string \<times> json) list"

record 'a json_type =
  jt_zero :: 'a
  jt_marshal :: "'a \<Rightarrow> json"
  jt_unmarshal :: "json \<Rightarrow> 'a \<Rightarrow> 'a \<times> go_error option"

text \<open>
  \<open>bg_get\<close> is \<open>txn.Get\<close> (value and \<open>ExpiresAt\<close>, or an error and the nil item), \<open>bg_set\<close> sets an entry with
  an optional time to live in seconds, \<open>bg_values\<close> lists the values under a prefix in iterator order, and
  \<open>bg_commit\<close> makes a transaction's state the state of the database.
\<close>

record 'b badger =
  bg_get :: "'b \<Rightarrow> string \<Rightarrow> go_error + json \<times> u64"
  bg_set :: "'b \<Rightarrow> string \<Rightarrow> json \<Rightarrow> u64 option \<Rightarrow> go_error + 'b"
  bg_delete :: "'b \<Rightarrow> string \<Rightarrow> go_error + 'b"
  bg_values :: "'b \<Rightarrow> string \<Rightarrow> json list"
  bg_commit :: "'b \<Rightarrow> go_error + 'b"

text \<open>Opening the database: a failure panics, which is \<open>None\<close>.\<close>

record 'b Storage =
  st_db :: 'b

definition Storage_Init :: "go_error + 'b \<Rightarrow> 'b Storage option" where
  "Storage_Init opened = (case opened of Inl e \<Rightarrow> None | Inr db \<Rightarrow> Some \<lparr>st_db = db\<rparr>)"

text \<open>
  \<open>db.Update\<close> commits the transaction unless its function returns an error; \<open>'x\<close> are the variables that
  the function assigns.
\<close>

definition db_txn_update :: "'b badger \<Rightarrow> ('b \<Rightarrow> 'x \<times> (go_error + 'b)) \<Rightarrow> 'b \<Rightarrow> 'x \<times> go_error option \<times> 'b" where
  "db_txn_update ops f s =
     (case f s of
        (x, Inl e) \<Rightarrow> (x, Some e, s)
      | (x, Inr t) \<Rightarrow> (case bg_commit ops t of Inl e \<Rightarrow> (x, Some e, s) | Inr s' \<Rightarrow> (x, None, s')))"

definition set_ttl :: "'b badger \<Rightarrow> 'b \<Rightarrow> string \<Rightarrow> json \<Rightarrow> int \<Rightarrow> go_error + 'b" where
  "set_ttl ops t key data ttl =
     (if ttl \<le> 0 then bg_set ops t key data None else bg_set ops t key data (Some (of_int ttl)))"

definition GetOrSet ::
  "'b badger \<Rightarrow> 'a json_type \<Rightarrow> string \<Rightarrow> 'a \<Rightarrow> int \<Rightarrow> 'b \<Rightarrow> (bool \<times> 'a) \<times> go_error option \<times> 'b" where
  "GetOrSet ops jt key value ttl s =
     db_txn_update ops
       (\<lambda>t. case bg_get ops t key of
              Inl e \<Rightarrow>
                if errors_Is (Some e) ErrKeyNotFound then ((False, value), Inl e)
                else ((False, value), set_ttl ops t key (jt_marshal jt value) ttl)
            | Inr (val, exp) \<Rightarrow>
                (case jt_unmarshal jt val value of
                   (v, Some e) \<Rightarrow> ((True, v), Inl e)
                 | (v, None) \<Rightarrow> ((True, v), Inr t))) s"

definition Set :: "'b badger \<Rightarrow> 'a json_type \<Rightarrow> string \<Rightarrow> 'a \<Rightarrow> int \<Rightarrow> 'b \<Rightarrow> go_error option \<times> 'b" where
  "Set ops jt key value ttl s =
     snd (db_txn_update ops (\<lambda>t. ((), set_ttl ops t key (jt_marshal jt value) ttl)) s)"

text \<open>
  The function given to \<open>Update\<close> changes the value, may assign captured variables and may fail; \<open>now\<close> is
  the clock.  The remaining time to live is a difference of unsigned integers.
\<close>

definition Update ::
  "'b badger \<Rightarrow> 'a json_type \<Rightarrow> u64 \<Rightarrow> string \<Rightarrow> 'x \<Rightarrow> ('a \<Rightarrow> 'x \<times> 'a \<times> go_error option) \<Rightarrow> 'b
   \<Rightarrow> 'x \<times> go_error option \<times> 'b" where
  "Update ops jt now key x0 f s =
     db_txn_update ops
       (\<lambda>t. case bg_get ops t key of
              Inl e \<Rightarrow> (x0, Inl e)
            | Inr (val, exp) \<Rightarrow>
                (case jt_unmarshal jt val (jt_zero jt) of
                   (v, Some e) \<Rightarrow> (x0, Inl e)
                 | (v, None) \<Rightarrow>
                     (case f v of
                        (x, v', Some e) \<Rightarrow> (x, Inl e)
                      | (x, v', None) \<Rightarrow>
                          (x, bg_set ops t key (jt_marshal jt v') (if 0 < exp then Some (exp - now) else None))))) s"

text \<open>
  \<open>Get\<close> returns the variable \<open>t\<close> beside the call that assigns it.  Go leaves open whether the variable is
  read before or after that call: \<open>late\<close> says that it is read after it.
\<close>

definition Get :: "'b badger \<Rightarrow> 'a json_type \<Rightarrow> bool \<Rightarrow> string \<Rightarrow> 'b \<Rightarrow> 'a \<times> go_error option" where
  "Get ops jt late key s =
     (case bg_get ops s key of
        Inl e \<Rightarrow> (jt_zero jt, Some e)
      | Inr (val, exp) \<Rightarrow>
          (case jt_unmarshal jt val (jt_zero jt) of (v, e) \<Rightarrow> (if late then v else jt_zero jt, e)))"

definition Delete :: "'b badger \<Rightarrow> string \<Rightarrow> 'b \<Rightarrow> go_error option \<times> 'b" where
  "Delete ops key s = snd (db_txn_update ops (\<lambda>t. ((), bg_delete ops t key)) s)"

fun Scan_loop :: "'a json_type \<Rightarrow> nat \<Rightarrow> 'a list \<Rightarrow> json list \<Rightarrow> 'a list \<times> go_error option" where
  "Scan_loop jt limit ts [] = (ts, None)"
| "Scan_loop jt limit ts (val # vals) =
     (if length ts < limit then
        (case jt_unmarshal jt val (jt_zero jt) of
           (v, Some e) \<Rightarrow> (ts, Some e)
         | (v, None) \<Rightarrow> Scan_loop jt limit (ts @ [v]) vals)
      else (ts, None))"

definition Scan :: "'b badger \<Rightarrow> 'a json_type \<Rightarrow> bool \<Rightarrow> string \<Rightarrow> nat \<Rightarrow> 'b \<Rightarrow> 'a list \<times> go_error option" where
  "Scan ops jt late prefix limit s =
     (case Scan_loop jt limit [] (bg_values ops s prefix) of (ts, e) \<Rightarrow> (if late then ts else [], e))"

subsection \<open>What the code relies on\<close>

text \<open>
  The documented behaviour of badger that the proofs use: a committed entry without time to live is read
  back with no expiry, the other keys are unaffected, and committing an unchanged state changes nothing
  that is read.
\<close>

definition badger_ok :: "'b badger \<Rightarrow> bool" where
  "badger_ok ops \<longleftrightarrow>
     (\<forall>s k v. \<exists>t s'. bg_set ops s k v None = Inr t \<and> bg_commit ops t = Inr s' \<and>
        (\<forall>k'. bg_get ops s' k' = (if k' = k then Inr (v, 0) else bg_get ops s k'))) \<and>
     (\<forall>s. bg_commit ops s = Inr s)"

text \<open>A store that satisfies it: an association list without expiry.\<close>

definition mem_badger :: "((string, json) gomap) badger" where
  "mem_badger =
     \<lparr>bg_get = (\<lambda>s k. case gm_get s k of None \<Rightarrow> Inl ErrKeyNotFound | Some v \<Rightarrow> Inr (v, 0)),
      bg_set = (\<lambda>s k v ttl. Inr (gm_put k v s)),
      bg_delete = (\<lambda>s k. Inr (gm_del k s)),
      bg_values = (\<lambda>s prefix. map snd (filter (\<lambda>(k, v). take (length prefix) k = prefix) s)),
      bg_commit = Inr\<rparr>"

lemma mem_badger_ok: "badger_ok mem_badger"
  by (auto simp: badger_ok_def mem_badger_def)

definition json_roundtrip :: "'a json_type \<Rightarrow> bool" where
  "json_roundtrip jt \<longleftrightarrow> (\<forall>v v0. jt_unmarshal jt (jt_marshal jt v) v0 = (v, None))"

subsection \<open>Lemmas\<close>

lemma Set_spec:
  assumes "badger_ok ops"
  obtains s' where "Set ops jt key value 0 s = (None, s')"
    "\<forall>k. bg_get ops s' k = (if k = key then Inr (jt_marshal jt value, 0) else bg_get ops s k)"
proof -
  obtain t s' where "bg_set ops s key (jt_marshal jt value) None = Inr t" "bg_commit ops t = Inr s'"
    "\<forall>k. bg_get ops s' k = (if k = key then Inr (jt_marshal jt value, 0) else bg_get ops s k)"
    using assms unfolding badger_ok_def by meson
  with that show thesis by (simp add: Set_def set_ttl_def db_txn_update_def)
qed

lemma Get_after:
  assumes "json_roundtrip jt" "bg_get ops s key = Inr (jt_marshal jt v, x)"
  shows "Get ops jt True key s = (v, None)"
  using assms by (simp add: Get_def json_roundtrip_def)

lemma Update_spec:
  assumes "badger_ok ops" "bg_get ops s key = Inr (val, 0)" "jt_unmarshal jt val (jt_zero jt) = (v, None)"
    "f v = (x, v', None)"
  obtains s' where "Update ops jt now key x0 f s = (x, None, s')"
    "\<forall>k. bg_get ops s' k = (if k = key then Inr (jt_marshal jt v', 0) else bg_get ops s k)"
proof -
  obtain t s' where "bg_set ops s key (jt_marshal jt v') None = Inr t" "bg_commit ops t = Inr s'"
    "\<forall>k. bg_get ops s' k = (if k = key then Inr (jt_marshal jt v', 0) else bg_get ops s k)"
    using assms(1) unfolding badger_ok_def by meson
  with that assms(2-4) show thesis by (simp add: Update_def db_txn_update_def)
qed

text \<open>\<open>Scan\<close> returns the decoded values of a prefix, at most \<open>limit\<close> of them, in order.\<close>

lemma Scan_loop_spec:
  assumes "json_roundtrip jt" "length ts \<le> limit"
  shows "Scan_loop jt limit ts (map (jt_marshal jt) vs) = (ts @ take (limit - length ts) vs, None)"
  using assms(2)
proof (induction vs arbitrary: ts)
  case (Cons v vs)
  show ?case
  proof (cases "length ts < limit")
    case True
    with Cons.IH [of "ts @ [v]"] assms(1) show ?thesis
      by (simp add: json_roundtrip_def Suc_le_eq take_Cons')
  qed (use Cons in simp)
qed simp

lemma GetOrSet_never_writes:
  assumes "badger_ok ops" "bg_get ops s key = Inl ErrKeyNotFound \<or> (\<exists>val. bg_get ops s key = Inr (val, x))"
  shows "snd (snd (GetOrSet ops jt key value ttl s)) = s"
  using assms by (auto simp: GetOrSet_def db_txn_update_def errors_Is_def badger_ok_def split: prod.splits option.splits)

end
