(* ===== verification/File_Store.thy ===== *)
theory File_Store
  imports Store
begin

section \<open>Stored files (\<open>db/file/model.go\<close>, \<open>badger.go\<close>, \<open>iface.go\<close>)\<close>

text \<open>
  A \<open>File\<close> is a file's content, known by etag and size; a \<open>UserFile\<close> is a path under which a user sees
  it.  Both are stored as JSON objects whose members are named by the struct tags.
\<close>

record File =
  f_etag :: string
  f_size :: u64
  f_path :: string
  f_preview :: string
  f_type :: byte
  f_reference :: gint

record UserFile =
  uf_path :: string
  uf_etag :: string
  uf_size :: u64
  uf_realPath :: string
  uf_preview :: string
  uf_type :: byte
  uf_createTime :: gint
  uf_updateTime :: gint

definition GetFileKey :: "string \<Rightarrow> u64 \<Rightarrow> string" where
  "GetFileKey etag sz = ''file/'' @ etag @ ''/'' @ FormatUint (unat sz)"

definition File_Key :: "File \<Rightarrow> string" where
  "File_Key f = GetFileKey (f_etag f) (f_size f)"

text \<open>\<open>dir\<close> is the working directory.\<close>

definition GetFileName :: "string \<Rightarrow> string \<Rightarrow> u64 \<Rightarrow> string \<Rightarrow> string \<times> string" where
  "GetFileName dir etag sz ext =
     (let filename = dir @ ''/files/'' @ etag @ ''_'' @ FormatUint (unat sz) @ ''.'' @ ext;
          previewFilename = dir @ ''/previews/'' @ etag @ ''_'' @ FormatUint (unat sz) @ ''.png''
      in (filename, previewFilename))"

definition GetUserFileKey :: "string \<Rightarrow> string" where
  "GetUserFileKey path = ''file/user/'' @ path"

definition TypeImage :: byte where "TypeImage = 1"
definition TypeVideo :: byte where "TypeVideo = 2"
definition TypeAudio :: byte where "TypeAudio = 3"
definition TypeDoc :: byte where "TypeDoc = 4"
definition TypeOther :: byte where "TypeOther = 10"

definition FileType_String :: "byte \<Rightarrow> string" where
  "FileType_String t =
     (if t = TypeImage then ''image'' else if t = TypeVideo then ''video''
      else if t = TypeAudio then ''audio'' else if t = TypeDoc then ''doc'' else ''other'')"

definition CopyFile :: "gint \<Rightarrow> File \<Rightarrow> string \<Rightarrow> UserFile" where
  "CopyFile now f path =
     \<lparr>uf_path = path, uf_etag = f_etag f, uf_size = f_size f, uf_realPath = f_path f,
      uf_preview = f_preview f, uf_type = f_type f, uf_createTime = now, uf_updateTime = now\<rparr>"

definition UserFile_Key :: "UserFile \<Rightarrow> string" where
  "UserFile_Key f = uf_path f"

subsection \<open>Directory trees\<close>

datatype TreeNode = TreeNode (tn_path: string) (tn_isDir: bool) (tn_create: gint) (tn_update: gint) (tn_children: "TreeNode list")

definition NewFileNode :: "gint \<Rightarrow> string \<Rightarrow> TreeNode" where
  "NewFileNode now path = TreeNode path False now now []"

definition NewDirNode :: "gint \<Rightarrow> string \<Rightarrow> TreeNode" where
  "NewDirNode now path = TreeNode path True now now []"

definition TreeNode_Key :: "TreeNode \<Rightarrow> string" where
  "TreeNode_Key d = tn_path d"

definition AddDir :: "gint \<Rightarrow> string \<Rightarrow> TreeNode \<Rightarrow> TreeNode" where
  "AddDir now dir d = TreeNode (tn_path d) (tn_isDir d) (tn_create d) (tn_update d) (tn_children d @ [NewDirNode now dir])"

definition AddFile :: "gint \<Rightarrow> string \<Rightarrow> TreeNode \<Rightarrow> TreeNode" where
  "AddFile now path d = TreeNode (tn_path d) (tn_isDir d) (tn_create d) (tn_update d) (tn_children d @ [NewFileNode now path])"

text \<open>The methods with which \<open>sort\<close> orders the children; \<open>Swap\<close> and \<open>Less\<close> panic out of range.\<close>

definition Slice_Len :: "TreeNode list \<Rightarrow> nat" where
  "Slice_Len a = length a"

definition Slice_Swap :: "TreeNode list \<Rightarrow> nat \<Rightarrow> nat \<Rightarrow> TreeNode list option" where
  "Slice_Swap a i j = (if i < length a \<and> j < length a then Some (a[i := a ! j, j := a ! i]) else None)"

text \<open>Go compares strings byte by byte.\<close>

fun go_less :: "string \<Rightarrow> string \<Rightarrow> bool" where
  "go_less [] ys = (ys \<noteq> [])"
| "go_less (x # xs) [] = False"
| "go_less (x # xs) (y # ys) =
     ((of_char x :: nat) < of_char y \<or> x = y \<and> go_less xs ys)"

definition Slice_Less :: "TreeNode list \<Rightarrow> nat \<Rightarrow> nat \<Rightarrow> bool option" where
  "Slice_Less a i j = (if i < length a \<and> j < length a then Some (go_less (tn_path (a ! i)) (tn_path (a ! j))) else None)"

subsection \<open>JSON of the two structs\<close>

text \<open>
  One member of an object decoded into a field: absent or null keeps the value, a member of another kind
  or out of range keeps it too and is reported when the document has been read.
\<close>

definition dec_str :: "(string \<times> json) list \<Rightarrow> string \<Rightarrow> string \<Rightarrow> string \<times> bool" where
  "dec_str ms k v =
     (case map_of (rev ms) k of
        Some (JStr s) \<Rightarrow> (s, True)
      | Some (JNum n) \<Rightarrow> (v, False)
      | Some (JObj o') \<Rightarrow> (v, False)
      | _ \<Rightarrow> (v, True))"

definition dec_num :: "int \<Rightarrow> int \<Rightarrow> (string \<times> json) list \<Rightarrow> string \<Rightarrow> 'n::len word \<Rightarrow> 'n word \<times> bool" where
  "dec_num lo hi ms k v =
     (case map_of (rev ms) k of
        Some (JNum n) \<Rightarrow> if lo \<le> n \<and> n < hi then (of_int n, True) else (v, False)
      | Some (JStr s) \<Rightarrow> (v, False)
      | Some (JObj o') \<Rightarrow> (v, False)
      | _ \<Rightarrow> (v, True))"

definition type_error :: go_error where
  "type_error = ErrorString ''json: cannot unmarshal''"

definition File_json :: "File json_type" where
  "File_json =
     \<lparr>jt_zero = \<lparr>f_etag = [], f_size = 0, f_path = [], f_preview = [], f_type = 0, f_reference = 0\<rparr>,
      jt_marshal = (\<lambda>f. JObj
        [(''etag'', JStr (f_etag f)), (''size'', JNum (uint (f_size f))), (''path'', JStr (f_path f)),
         (''preview'', JStr (f_preview f)), (''type'', JNum (uint (f_type f))), (''ref'', JNum (sint (f_reference f)))]),
      jt_unmarshal = (\<lambda>j v. case j of
          JObj ms \<Rightarrow>
            (let (etag, o1) = dec_str ms ''etag'' (f_etag v);
                 (sz, o2) = dec_num 0 (2 ^ 64) ms ''size'' (f_size v);
                 (path, o3) = dec_str ms ''path'' (f_path v);
                 (preview, o4) = dec_str ms ''preview'' (f_preview v);
                 (typ, o5) = dec_num 0 (2 ^ 8) ms ''type'' (f_type v);
                 (ref, o6) = dec_num (- (2 ^ 63)) (2 ^ 63) ms ''ref'' (f_reference v)
             in (\<lparr>f_etag = etag, f_size = sz, f_path = path, f_preview = preview, f_type = typ, f_reference = ref\<rparr>,
                 if o1 \<and> o2 \<and> o3 \<and> o4 \<and> o5 \<and> o6 then None else Some type_error))
        | JNull \<Rightarrow> (v, None)
        | _ \<Rightarrow> (v, Some type_error))\<rparr>"

definition UserFile_json :: "UserFile json_type" where
  "UserFile_json =
     \<lparr>jt_zero = \<lparr>uf_path = [], uf_etag = [], uf_size = 0, uf_realPath = [], uf_preview = [], uf_type = 0,
                 uf_createTime = 0, uf_updateTime = 0\<rparr>,
      jt_marshal = (\<lambda>f. JObj
        [(''path'', JStr (uf_path f)), (''etag'', JStr (uf_etag f)), (''size'', JNum (uint (uf_size f))),
         (''realPath'', JStr (uf_realPath f)), (''preview'', JStr (uf_preview f)), (''type'', JNum (uint (uf_type f))),
         (''create'', JNum (sint (uf_createTime f))), (''update'', JNum (sint (uf_updateTime f)))]),
      jt_unmarshal = (\<lambda>j v. case j of
          JObj ms \<Rightarrow>
            (let (path, o1) = dec_str ms ''path'' (uf_path v);
                 (etag, o2) = dec_str ms ''etag'' (uf_etag v);
                 (sz, o3) = dec_num 0 (2 ^ 64) ms ''size'' (uf_size v);
                 (realPath, o4) = dec_str ms ''realPath'' (uf_realPath v);
                 (preview, o5) = dec_str ms ''preview'' (uf_preview v);
                 (typ, o6) = dec_num 0 (2 ^ 8) ms ''type'' (uf_type v);
                 (create, o7) = dec_num (- (2 ^ 63)) (2 ^ 63) ms ''create'' (uf_createTime v);
                 (upd, o8) = dec_num (- (2 ^ 63)) (2 ^ 63) ms ''update'' (uf_updateTime v)
             in (\<lparr>uf_path = path, uf_etag = etag, uf_size = sz, uf_realPath = realPath, uf_preview = preview,
                  uf_type = typ, uf_createTime = create, uf_updateTime = upd\<rparr>,
                 if o1 \<and> o2 \<and> o3 \<and> o4 \<and> o5 \<and> o6 \<and> o7 \<and> o8 then None else Some type_error))
        | JNull \<Rightarrow> (v, None)
        | _ \<Rightarrow> (v, Some type_error))\<rparr>"

subsection \<open>The storage (\<open>badger.go\<close>)\<close>

definition InsertFile :: "'b badger \<Rightarrow> File \<Rightarrow> 'b \<Rightarrow> go_error option \<times> 'b" where
  "InsertFile ops file s =
     (let file' = file\<lparr>f_reference := 1\<rparr>
      in snd (GetOrSet ops File_json (File_Key file') file' 0 s))"

definition IncrReference :: "'b badger \<Rightarrow> u64 \<Rightarrow> string \<Rightarrow> u64 \<Rightarrow> gint \<Rightarrow> 'b \<Rightarrow> gint \<times> go_error option \<times> 'b" where
  "IncrReference ops now etag sz inc s =
     Update ops File_json now (GetFileKey etag sz) 0
       (\<lambda>v. (f_reference v + inc, v\<lparr>f_reference := f_reference v + inc\<rparr>, None)) s"

definition GetFile :: "'b badger \<Rightarrow> bool \<Rightarrow> string \<Rightarrow> u64 \<Rightarrow> 'b \<Rightarrow> File \<times> go_error option" where
  "GetFile ops late etag sz s = Get ops File_json late (GetFileKey etag sz) s"

definition InsertUserFile :: "'b badger \<Rightarrow> UserFile \<Rightarrow> 'b \<Rightarrow> go_error option \<times> 'b" where
  "InsertUserFile ops file s = Set ops UserFile_json (GetUserFileKey (uf_path file)) file 0 s"

definition GetUserFile :: "'b badger \<Rightarrow> bool \<Rightarrow> string \<Rightarrow> 'b \<Rightarrow> UserFile \<times> go_error option" where
  "GetUserFile ops late path s = Get ops UserFile_json late (GetUserFileKey path) s"

definition Rename :: "'b badger \<Rightarrow> u64 \<Rightarrow> string \<Rightarrow> string \<Rightarrow> 'b \<Rightarrow> go_error option \<times> 'b" where
  "Rename ops now oldPath newPath s =
     snd (Update ops File_json now (GetUserFileKey oldPath) () (\<lambda>v. ((), v\<lparr>f_path := newPath\<rparr>, None)) s)"

subsection \<open>Lemmas\<close>

lemma uint_bound64: "uint (x :: u64) < 2 ^ 64" "uint (x :: u64) < 18446744073709551616"
  using uint_lt2p [of x] by simp_all

lemma uint_bound8: "uint (x :: byte) < 2 ^ 8" "uint (x :: byte) < 256"
  using uint_lt2p [of x] by simp_all

lemma sint_bound64:
  "- (2 ^ 63) \<le> sint (x :: gint)" "sint (x :: gint) < 2 ^ 63"
  using sint_ge [of x] sint_lt [of x] by simp_all

lemma File_json_roundtrip: "json_roundtrip File_json"
  using sint_bound64
  by (simp add: json_roundtrip_def File_json_def dec_str_def dec_num_def uint_bound64 uint_bound8)

lemma UserFile_json_roundtrip: "json_roundtrip UserFile_json"
  using sint_bound64
  by (simp add: json_roundtrip_def UserFile_json_def dec_str_def dec_num_def uint_bound64 uint_bound8)

text \<open>What is left of a user file when it is decoded as a \<open>File\<close>.\<close>

lemma UserFile_as_File:
  "jt_unmarshal File_json (jt_marshal UserFile_json uf) (jt_zero File_json) =
     (\<lparr>f_etag = uf_etag uf, f_size = uf_size uf, f_path = uf_path uf, f_preview = uf_preview uf,
       f_type = uf_type uf, f_reference = 0\<rparr>, None)"
  by (simp add: File_json_def UserFile_json_def dec_str_def dec_num_def uint_bound64 uint_bound8)

lemma File_as_UserFile:
  "jt_unmarshal UserFile_json (jt_marshal File_json f) (jt_zero UserFile_json) =
     (\<lparr>uf_path = f_path f, uf_etag = f_etag f, uf_size = f_size f, uf_realPath = [], uf_preview = f_preview f,
       uf_type = f_type f, uf_createTime = 0, uf_updateTime = 0\<rparr>, None)"
  by (simp add: File_json_def UserFile_json_def dec_str_def dec_num_def uint_bound64 uint_bound8)

text \<open>The keys of files determine etag and size, and the keys of user files the path.\<close>

lemma FormatUint_no_slash: "CHR ''/'' \<notin> set (FormatUint n)"
  using FormatUint_digits [of "CHR ''/''" n] by (auto simp: is_digit_def)

lemma append_last_sep:
  assumes "xs @ c # ys = xs' @ c # ys'" "c \<notin> set ys" "c \<notin> set ys'"
  shows "xs = xs' \<and> ys = ys'"
  using assms by (auto simp: append_eq_append_conv2 append_eq_Cons_conv Cons_eq_append_conv)

lemma GetFileKey_inj: "GetFileKey e n = GetFileKey e' n' \<longleftrightarrow> e = e' \<and> n = n'"
proof
  assume "GetFileKey e n = GetFileKey e' n'"
  then have "e = e' \<and> FormatUint (unat n) = FormatUint (unat n')"
    using append_last_sep [of e "CHR ''/''" "FormatUint (unat n)" e' "FormatUint (unat n')"]
    by (simp add: GetFileKey_def FormatUint_no_slash)
  then show "e = e' \<and> n = n'"
    using FormatUint_inj [of "unat n" "unat n'"] unat_u64 [of n] unat_u64 [of n']
    by (auto simp: word_unat_eq_iff)
qed simp

lemma GetUserFileKey_inj: "GetUserFileKey p = GetUserFileKey p' \<longleftrightarrow> p = p'"
  by (simp add: GetUserFileKey_def)

lemma InsertUserFile_spec:
  assumes "badger_ok ops"
  obtains s' where "InsertUserFile ops uf s = (None, s')" "GetUserFile ops True (uf_path uf) s' = (uf, None)"
    "\<And>path late. path \<noteq> uf_path uf \<Longrightarrow> GetUserFile ops late path s' = GetUserFile ops late path s"
proof -
  let ?key = "GetUserFileKey (uf_path uf)"
  obtain s' where ins: "Set ops UserFile_json ?key uf 0 s = (None, s')"
    and get: "\<forall>k. bg_get ops s' k = (if k = ?key then Inr (jt_marshal UserFile_json uf, 0) else bg_get ops s k)"
    using Set_spec [OF assms, of UserFile_json ?key uf s] by blast
  show thesis
  proof (rule that)
    show "InsertUserFile ops uf s = (None, s')" using ins by (simp add: InsertUserFile_def)
    show "GetUserFile ops True (uf_path uf) s' = (uf, None)"
      using get by (simp add: GetUserFile_def Get_after [OF UserFile_json_roundtrip])
    show "GetUserFile ops late path s' = GetUserFile ops late path s" if "path \<noteq> uf_path uf" for path late
      using get that by (simp add: GetUserFile_def Get_def GetUserFileKey_inj)
  qed
qed

subsection \<open>Properties\<close>

text \<open>
  A user file is found again: after \<open>InsertUserFile\<close> a lookup of its path returns it field by field
  (when the returned variable is read after the transaction), and a lookup of any other path returns what it
  returned before.
\<close>

theorem user_file_is_found_again:
  assumes "badger_ok ops"
  shows "\<exists>s'. InsertUserFile ops uf s = (None, s') \<and> GetUserFile ops True (uf_path uf) s' = (uf, None) \<and>
    (\<forall>path late. path \<noteq> uf_path uf \<longrightarrow> GetUserFile ops late path s' = GetUserFile ops late path s)"
  using InsertUserFile_spec [OF assms, of uf s] by metis

definition demo_uf :: UserFile where
  "demo_uf = CopyFile 7 \<lparr>f_etag = ''e'', f_size = 3, f_path = ''/d/f'', f_preview = [], f_type = 4, f_reference = 1\<rparr> ''a.txt''"

theorem user_file_is_found_again_witness:
  "\<exists>s'. InsertUserFile mem_badger demo_uf [] = (None, s') \<and> GetUserFile mem_badger True ''a.txt'' s' = (demo_uf, None)"
  using user_file_is_found_again [OF mem_badger_ok, of demo_uf "[]"] by (auto simp: demo_uf_def CopyFile_def)

text \<open>
  \<open>InsertFile\<close> never stores anything: for an unknown file it fails with \<open>ErrKeyNotFound\<close>, for a known one
  it succeeds, and in both cases the database is unchanged, so a file that was not known stays unknown.
\<close>

theorem insert_file_never_inserts:
  assumes "badger_ok ops"
    and "bg_get ops s (File_Key f) = Inl ErrKeyNotFound \<or>
      (\<exists>g. bg_get ops s (File_Key f) = Inr (jt_marshal File_json g, 0))"
  shows "InsertFile ops f s =
    (if bg_get ops s (File_Key f) = Inl ErrKeyNotFound then Some ErrKeyNotFound else None, s)"
proof -
  have key: "File_Key (f\<lparr>f_reference := 1\<rparr>) = File_Key f" by (simp add: File_Key_def)
  have "snd (InsertFile ops f s) = s"
    using GetOrSet_never_writes [OF assms(1), of s "File_Key f" 0] assms(2)
    by (auto simp: InsertFile_def Let_def key)
  moreover have "fst (InsertFile ops f s) = (if bg_get ops s (File_Key f) = Inl ErrKeyNotFound then Some ErrKeyNotFound else None)"
    using assms(2)
  proof
    assume "bg_get ops s (File_Key f) = Inl ErrKeyNotFound"
    then show ?thesis by (simp add: InsertFile_def Let_def key GetOrSet_def db_txn_update_def errors_Is_def)
  next
    assume "\<exists>g. bg_get ops s (File_Key f) = Inr (jt_marshal File_json g, 0)"
    then obtain g where g: "bg_get ops s (File_Key f) = Inr (jt_marshal File_json g, 0)" ..
    have "jt_unmarshal File_json (jt_marshal File_json g) v = (g, None)" for v
      using File_json_roundtrip by (simp add: json_roundtrip_def)
    moreover have "bg_commit ops s = Inr s" using assms(1) by (simp add: badger_ok_def)
    ultimately show ?thesis using g by (simp add: InsertFile_def Let_def key GetOrSet_def db_txn_update_def)
  qed
  ultimately show ?thesis by (simp add: prod_eq_iff)
qed

theorem insert_file_never_inserts_witness:
  "InsertFile mem_badger \<lparr>f_etag = ''e'', f_size = 3, f_path = ''/d/f'', f_preview = [], f_type = 4, f_reference = 1\<rparr> []
     = (Some ErrKeyNotFound, [])"
  using insert_file_never_inserts [OF mem_badger_ok,
      of "[]" "\<lparr>f_etag = ''e'', f_size = 3, f_path = ''/d/f'', f_preview = [], f_type = 4, f_reference = 1\<rparr>"]
  by (simp add: mem_badger_def)

text \<open>
  Renaming a user file does not move it and damages it: it stays under its old path, where its path
  member has changed, its real path is gone and its times are reset to zero; the new path still finds
  whatever it found before.
\<close>

theorem rename_damages_the_file:
  assumes "badger_ok ops" "bg_get ops s (GetUserFileKey (uf_path uf)) = Inr (jt_marshal UserFile_json uf, 0)"
    and "newPath \<noteq> uf_path uf"
  shows "\<exists>s'. Rename ops now (uf_path uf) newPath s = (None, s') \<and>
    GetUserFile ops True (uf_path uf) s' =
      (uf\<lparr>uf_path := newPath, uf_realPath := '''', uf_createTime := 0, uf_updateTime := 0\<rparr>, None) \<and>
    GetUserFile ops True newPath s' = GetUserFile ops True newPath s"
proof -
  let ?key = "GetUserFileKey (uf_path uf)"
  let ?f = "\<lparr>f_etag = uf_etag uf, f_size = uf_size uf, f_path = uf_path uf, f_preview = uf_preview uf,
       f_type = uf_type uf, f_reference = 0\<rparr>"
  obtain s' where upd: "Update ops File_json now ?key () (\<lambda>v. ((), v\<lparr>f_path := newPath\<rparr>, None)) s = ((), None, s')"
    and get: "\<forall>k. bg_get ops s' k = (if k = ?key then Inr (jt_marshal File_json (?f\<lparr>f_path := newPath\<rparr>), 0) else bg_get ops s k)"
    using Update_spec [OF assms(1,2) UserFile_as_File, of "\<lambda>v. ((), v\<lparr>f_path := newPath\<rparr>, None)" "()"] by blast
  have "GetUserFile ops True (uf_path uf) s' =
      (uf\<lparr>uf_path := newPath, uf_realPath := '''', uf_createTime := 0, uf_updateTime := 0\<rparr>, None)"
    using get by (simp add: GetUserFile_def Get_def File_as_UserFile)
  moreover have "GetUserFile ops True newPath s' = GetUserFile ops True newPath s"
    using get assms(3) by (simp add: GetUserFile_def Get_def GetUserFileKey_inj)
  ultimately show ?thesis using upd by (simp add: Rename_def)
qed

theorem rename_damages_the_file_witness:
  "\<exists>s' uf'. Rename mem_badger 0 ''a.txt'' ''b.txt'' [(GetUserFileKey ''a.txt'', jt_marshal UserFile_json demo_uf)] = (None, s') \<and>
     GetUserFile mem_badger True ''a.txt'' s' = (uf', None) \<and> uf_realPath demo_uf = ''/d/f'' \<and> uf_realPath uf' = ''''"
proof -
  let ?s = "[(GetUserFileKey ''a.txt'', jt_marshal UserFile_json demo_uf)]"
  have p: "uf_path demo_uf = ''a.txt''" "uf_realPath demo_uf = ''/d/f''" by (simp_all add: demo_uf_def CopyFile_def)
  have "bg_get mem_badger ?s (GetUserFileKey (uf_path demo_uf)) = Inr (jt_marshal UserFile_json demo_uf, 0)"
    by (simp add: mem_badger_def p)
  from rename_damages_the_file [OF mem_badger_ok this, of "''b.txt''" 0] p show ?thesis by auto
qed


subsection \<open>The storage as a map of user files\<close>

text \<open>
  The abstract state is the map from paths to user files; inserting a user file updates it, inserting a
  file leaves it alone.  \<open>files_of\<close> relates it to the database.
\<close>

datatype store_op = PutUser UserFile | PutFile File

definition store_apply :: "'b badger \<Rightarrow> store_op \<Rightarrow> 'b \<Rightarrow> 'b" where
  "store_apply ops op s =
     (case op of PutUser uf \<Rightarrow> snd (InsertUserFile ops uf s) | PutFile f \<Rightarrow> snd (InsertFile ops f s))"

definition files_apply :: "store_op \<Rightarrow> (string \<rightharpoonup> UserFile) \<Rightarrow> (string \<rightharpoonup> UserFile)" where
  "files_apply op m = (case op of PutUser uf \<Rightarrow> m(uf_path uf \<mapsto> uf) | PutFile f \<Rightarrow> m)"

definition files_of :: "'b badger \<Rightarrow> 'b \<Rightarrow> (string \<rightharpoonup> UserFile) \<Rightarrow> bool" where
  "files_of ops s m \<longleftrightarrow> (\<forall>path. bg_get ops s (GetUserFileKey path) =
     (case m path of None \<Rightarrow> Inl ErrKeyNotFound | Some uf \<Rightarrow> Inr (jt_marshal UserFile_json uf, 0)))"

lemma store_apply_sim:
  assumes "badger_ok ops" "\<And>s k e. bg_get ops s k = Inl e \<Longrightarrow> e = ErrKeyNotFound" "files_of ops s m"
  shows "files_of ops (store_apply ops op s) (files_apply op m)"
proof (cases op)
  case (PutUser uf)
  obtain s' where "Set ops UserFile_json (GetUserFileKey (uf_path uf)) uf 0 s = (None, s')"
    "\<forall>k. bg_get ops s' k =
      (if k = GetUserFileKey (uf_path uf) then Inr (jt_marshal UserFile_json uf, 0) else bg_get ops s k)"
    by (rule Set_spec [OF assms(1), of UserFile_json "GetUserFileKey (uf_path uf)" uf s])
  with assms(3) PutUser show ?thesis
    by (simp add: store_apply_def files_apply_def files_of_def InsertUserFile_def GetUserFileKey_inj)
next
  case (PutFile f)
  let ?f = "f\<lparr>f_reference := 1\<rparr>"
  obtain x where "bg_get ops s (File_Key ?f) = Inl ErrKeyNotFound \<or> (\<exists>val. bg_get ops s (File_Key ?f) = Inr (val, x))"
    using assms(2) [of s "File_Key ?f"] by (cases "bg_get ops s (File_Key ?f)") auto
  then have "snd (snd (GetOrSet ops File_json (File_Key ?f) ?f 0 s)) = s"
    by (rule GetOrSet_never_writes [OF assms(1)])
  with assms(3) PutFile show ?thesis
    by (simp add: store_apply_def files_apply_def InsertFile_def Let_def)
qed



end
