(* ===== verification/Upload.thy ===== *)
theory Upload
  imports Complex_Main File_Store Relay
begin

section \<open>The file server (\<open>backend/file.go\<close>, \<open>preview/image.go\<close>, \<open>preview/video.go\<close>)\<close>

text \<open>
  A client sends one line with a request and then the content of the file.  The disk is a map from paths
  to contents; which files can be created is an argument, as are the image library, the clock and the
  parser of the request line.  What the connection's reads return is a list, as for \<open>io.Copy\<close>.
\<close>

type_synonym disk = "(string, bytes) gomap"

record UploadReq =
  ur_path :: string
  ur_size :: u64
  ur_etag :: string
  ur_type :: byte
  ur_startAt :: u64

record UploadAck =
  ua_code :: gint
  ua_path :: string
  ua_etag :: string

definition ack0 :: UploadAck where
  "ack0 = \<lparr>ua_code = 0, ua_path = [], ua_etag = []\<rparr>"

subsection \<open>Previews\<close>

record 'i imaging =
  im_decode :: "bytes \<Rightarrow> go_error + 'i"
  im_maxX :: "'i \<Rightarrow> nat"
  im_resize :: "'i \<Rightarrow> int \<Rightarrow> int \<Rightarrow> 'i"
  im_save :: "'i \<Rightarrow> string \<Rightarrow> disk \<Rightarrow> go_error + disk"
  im_frame :: "bytes option \<Rightarrow> nat \<Rightarrow> go_error + bytes"

definition ErrNotExist :: go_error where
  "ErrNotExist = Foreign ''file does not exist''"

text \<open>
  The width and the height from which the ratio is formed are both the horizontal bound.  \<open>nanInt\<close> is the
  conversion of \<open>NaN\<close>, the ratio of an empty image.
\<close>

definition preview_width :: "int \<Rightarrow> nat \<Rightarrow> nat \<Rightarrow> int" where
  "preview_width nanInt w h = (if h = 0 then nanInt else \<lfloor>200 * (real w / real h)\<rfloor>)"

definition SaveImagePreview ::
  "string \<Rightarrow> 'i imaging \<Rightarrow> int \<Rightarrow> string \<Rightarrow> string \<Rightarrow> disk \<Rightarrow> go_error option \<times> disk" where
  "SaveImagePreview st im nanInt filename snapshotPath d =
     (case gm_get d filename of
        None \<Rightarrow> (Some (wrap_err st ErrNotExist), d)
      | Some content \<Rightarrow>
          (case im_decode im content of
             Inl e \<Rightarrow> (Some (wrap_err st e), d)
           | Inr img \<Rightarrow>
               (let w = im_maxX im img; h = im_maxX im img;
                    img' = im_resize im img (preview_width nanInt w h) 200
                in case im_save im img' snapshotPath d of
                     Inl e \<Rightarrow> (Some (wrap_err st e), d)
                   | Inr d' \<Rightarrow> (None, d'))))"

text \<open>\<open>im_frame\<close> is the call of ffmpeg that extracts one frame of the video file.\<close>

definition SaveVideoPreview ::
  "string \<Rightarrow> 'i imaging \<Rightarrow> string \<Rightarrow> string \<Rightarrow> nat \<Rightarrow> disk \<Rightarrow> go_error option \<times> disk" where
  "SaveVideoPreview st im videoPath snapshotPath frameNum d =
     (case im_frame im (gm_get d videoPath) frameNum of
        Inl e \<Rightarrow> (Some (wrap_err st e), d)
      | Inr buf \<Rightarrow>
          (case im_decode im buf of
             Inl e \<Rightarrow> (Some (wrap_err st e), d)
           | Inr img \<Rightarrow>
               (case im_save im img snapshotPath d of
                  Inl e \<Rightarrow> (Some (wrap_err st e), d)
                | Inr d' \<Rightarrow> (None, d'))))"

subsection \<open>Upload\<close>

text \<open>\<open>filepath.Ext\<close>: the suffix from the last dot of the last path element.\<close>

definition Ext :: "string \<Rightarrow> string" where
  "Ext path =
     (let t = takeWhile (\<lambda>c. c \<noteq> CHR ''.'' \<and> c \<noteq> CHR ''/'') (rev path)
      in case drop (length t) (rev path) of
           c # _ \<Rightarrow> if c = CHR ''.'' then c # rev t else []
         | [] \<Rightarrow> [])"

text \<open>Writing through a file opened for writing, and through one opened by \<open>os.Open\<close>, which is read-only.\<close>

definition file_write :: "string \<Rightarrow> disk \<Rightarrow> bytes \<Rightarrow> nat \<times> go_error option \<times> disk" where
  "file_write path d bs =
     (length bs, None, gm_put path ((case gm_get d path of None \<Rightarrow> [] | Some c \<Rightarrow> c) @ bs) d)"

definition readonly_write :: "disk \<Rightarrow> bytes \<Rightarrow> nat \<times> go_error option \<times> disk" where
  "readonly_write d bs = (0, Some (Foreign ''bad file descriptor''), d)"

record ('b, 'i) upload_env =
  ue_store :: "'b badger"
  ue_late :: bool
  ue_now :: gint
  ue_dir :: string
  ue_createErr :: "string \<Rightarrow> go_error option"
  ue_closeErr :: "go_error option"
  ue_imaging :: "'i imaging"
  ue_nanInt :: int

datatype 'b uploaded = UpDone UploadAck "go_error option" 'b disk | UpWaits disk

text \<open>The end of \<open>upload\<close>, after the content has been copied: close, preview, register.\<close>

definition upload_finish ::
  "string \<Rightarrow> ('b, 'i) upload_env \<Rightarrow> UploadReq \<Rightarrow> File \<Rightarrow> string \<Rightarrow> string \<Rightarrow> 'b \<Rightarrow> disk \<Rightarrow> 'b uploaded" where
  "upload_finish st env req realFile filename previewPath s d =
     (case ue_closeErr env of
        Some e \<Rightarrow> UpDone ack0 (Some (wrap_err st e)) s d
      | None \<Rightarrow>
          (case (if ur_type req = TypeImage
                 then SaveImagePreview st (ue_imaging env) (ue_nanInt env) filename previewPath d
                 else if ur_type req = TypeVideo
                 then SaveVideoPreview st (ue_imaging env) filename previewPath 60 d
                 else (None, d)) of
             (Some e, d') \<Rightarrow> UpDone ack0 (Some e) s d'
           | (None, d') \<Rightarrow>
               (case InsertUserFile (ue_store env) (CopyFile (ue_now env) realFile (ur_path req)) s of
                  (Some e, s') \<Rightarrow> UpDone ack0 (Some e) s' d'
                | (None, s') \<Rightarrow> UpDone (ack0\<lparr>ua_etag := ur_etag req, ua_path := ur_path req\<rparr>) None s' d')))"

definition upload_copy ::
  "string \<Rightarrow> ('b, 'i) upload_env \<Rightarrow> UploadReq \<Rightarrow> File \<Rightarrow> string \<Rightarrow> string \<Rightarrow> (bytes \<times> go_error option) list
   \<Rightarrow> (disk \<Rightarrow> bytes \<Rightarrow> nat \<times> go_error option \<times> disk) \<Rightarrow> 'b \<Rightarrow> disk \<Rightarrow> 'b uploaded" where
  "upload_copy st env req realFile filename previewPath reads write s d =
     (case io_Copy write 0 d reads of
        CopyWaits n d' \<Rightarrow> UpWaits d'
      | CopyDone n (Some e) d' \<Rightarrow> UpDone ack0 (Some e) s d'
      | CopyDone n None d' \<Rightarrow> upload_finish st env req realFile filename previewPath s d')"

text \<open>
  \<open>GetFileName\<close> returns the file's name and then the preview's; the code binds them in the other order.
\<close>

definition upload ::
  "string \<Rightarrow> ('b, 'i) upload_env \<Rightarrow> UploadReq \<Rightarrow> (bytes \<times> go_error option) list \<Rightarrow> 'b \<Rightarrow> disk \<Rightarrow> 'b uploaded" where
  "upload st env req reads s d =
     (case GetFile (ue_store env) (ue_late env) (ur_etag req) (ur_size req) s of
        (realFile, err) \<Rightarrow>
          if err \<noteq> None \<and> \<not> errors_Is err ErrKeyNotFound then UpDone ack0 err s d
          else
            (case GetFileName (ue_dir env) (ur_etag req) (ur_size req) (Ext (ur_path req)) of
               (previewPath, filename) \<Rightarrow>
                 if ur_startAt req = 0 then
                   (case err of
                      None \<Rightarrow>
                        (case InsertUserFile (ue_store env) (CopyFile (ue_now env) realFile (ur_path req)) s of
                           (Some e, s') \<Rightarrow> UpDone ack0 (Some e) s' d
                         | (None, s') \<Rightarrow> UpDone (ack0\<lparr>ua_etag := ur_etag req, ua_path := ur_path req\<rparr>) None s' d)
                    | Some _ \<Rightarrow>
                        (let file = \<lparr>f_etag = ur_etag req, f_size = ur_size req, f_path = filename,
                               f_preview = (if ur_type req = TypeImage \<or> ur_type req = TypeVideo then previewPath else []),
                               f_type = ur_type req, f_reference = 0\<rparr>
                         in case InsertFile (ue_store env) file s of
                              (Some e, s') \<Rightarrow> UpDone ack0 (Some e) s' d
                            | (None, s') \<Rightarrow>
                                (case ue_createErr env filename of
                                   Some e \<Rightarrow> UpDone ack0 (Some (wrap_err st e)) s' d
                                 | None \<Rightarrow> upload_copy st env req file filename previewPath reads
                                     (file_write filename) s' (gm_put filename [] d))))
                 else
                   (case err of
                      Some e \<Rightarrow> UpDone ack0 (Some (wrap_err st e)) s d
                    | None \<Rightarrow>
                        (case gm_get d filename of
                           None \<Rightarrow> UpDone ack0 (Some (wrap_err st ErrNotExist)) s d
                         | Some _ \<Rightarrow>
                             if 2 ^ 63 \<le> unat (ur_startAt req)
                             then UpDone ack0 (Some (wrap_err st (Foreign ''invalid argument''))) s d
                             else upload_copy st env req realFile filename previewPath reads readonly_write s d))))"

subsection \<open>The connection\<close>

text \<open>
  \<open>bufio.Reader.ReadLine\<close> over the reads: the line without its end, and the reads that have not been
  consumed.  What the reader has buffered beyond the line stays in the reader, which \<open>ServeConn\<close> drops.
\<close>

datatype line_result = LineOk bytes "(bytes \<times> go_error option) list" | LineErr go_error | LineWaits

definition strip_line :: "bytes \<Rightarrow> bytes" where
  "strip_line l = (if l \<noteq> [] \<and> last l = 13 then butlast l else l)"

fun ReadLine :: "bytes \<Rightarrow> (bytes \<times> go_error option) list \<Rightarrow> line_result" where
  "ReadLine buf [] = LineWaits"
| "ReadLine buf ((bs, e) # reads) =
     (let buf' = buf @ bs in
      if 10 \<in> set buf' then LineOk (strip_line (takeWhile (\<lambda>b. b \<noteq> 10) buf')) reads
      else (case e of
              Some err \<Rightarrow> if buf' = [] then LineErr err else LineOk buf' reads
            | None \<Rightarrow>
                if 4096 \<le> length buf' then LineOk (strip_line buf') reads
                else ReadLine buf' reads))"

text \<open>\<open>writeErr\<close> is what writing the acknowledgement returns; the connection is released in any case.\<close>

datatype 'b file_served = FsAck UploadAck "go_error option" 'b disk | FsErr go_error | FsWaits

definition File_ServeConn ::
  "string \<Rightarrow> ('b, 'i) upload_env \<Rightarrow> (bytes \<Rightarrow> go_error + UploadReq) \<Rightarrow> (bytes \<times> go_error option) list
   \<Rightarrow> go_error option \<Rightarrow> 'b \<Rightarrow> disk \<Rightarrow> 'b file_served" where
  "File_ServeConn st env parse reads writeErr s d =
     (case ReadLine [] reads of
        LineWaits \<Rightarrow> FsWaits
      | LineErr e \<Rightarrow> FsErr e
      | LineOk line rest \<Rightarrow>
          (case parse line of
             Inl e \<Rightarrow> FsErr e
           | Inr req \<Rightarrow>
               (case upload st env req rest s d of
                  UpWaits d' \<Rightarrow> FsWaits
                | UpDone ack e s' d' \<Rightarrow> FsAck ack writeErr s' d')))"

text \<open>\<open>AcceptFile\<close> is not defined in the package; each accepted connection is given by its reads and writes.\<close>

datatype 'b file_run = FrReturn go_error 'b disk | FrWaits 'b disk

fun File_Run ::
  "string \<Rightarrow> ('b, 'i) upload_env \<Rightarrow> (bytes \<Rightarrow> go_error + UploadReq)
   \<Rightarrow> (go_error + (bytes \<times> go_error option) list \<times> go_error option) list \<Rightarrow> 'b \<Rightarrow> disk \<Rightarrow> 'b file_run" where
  "File_Run st env parse [] s d = FrWaits s d"
| "File_Run st env parse (Inl e # as) s d = FrReturn e s d"
| "File_Run st env parse (Inr (reads, writeErr) # as) s d =
     (case File_ServeConn st env parse reads writeErr s d of
        FsErr e \<Rightarrow> FrReturn e s d
      | FsWaits \<Rightarrow> FrWaits s d
      | FsAck ack (Some e) s' d' \<Rightarrow> FrReturn e s' d'
      | FsAck ack None s' d' \<Rightarrow> File_Run st env parse as s' d')"

subsection \<open>Lemmas\<close>

lemma readonly_copy:
  "(\<exists>n. io_Copy readonly_write m d reads = CopyWaits n d) \<or>
   (\<exists>n e. io_Copy readonly_write m d reads = CopyDone n (Some e) d) \<or>
   delivered reads = [] \<and> (\<exists>n. io_Copy readonly_write m d reads = CopyDone n None d)"
proof (induction reads arbitrary: m)
  case (Cons r reads)
  obtain bs er where r: "r = (bs, er)" by fastforce
  show ?case
    using Cons.IH [of m] r by (cases "bs = []"; cases er) (auto simp: readonly_write_def)
qed simp

text \<open>Every preview has the width 200, whatever the proportions of the image.\<close>

lemma preview_is_square: "x \<noteq> 0 \<Longrightarrow> preview_width nanInt x x = 200"
  by (simp add: preview_width_def)

text \<open>The bytes of the content that arrive together with the request line are lost.\<close>

lemma ReadLine_drops_buffered:
  assumes "10 \<notin> set line" "line \<noteq> []" "last line \<noteq> 13"
  shows "ReadLine [] ((line @ [10] @ content, e) # reads) = LineOk line reads"
proof -
  have "takeWhile (\<lambda>b. b \<noteq> 10) (line @ [10] @ content) = line"
    using assms(1) by (subst takeWhile_append2) auto
  then show ?thesis using assms by (simp add: strip_line_def)
qed

subsection \<open>Properties\<close>

text \<open>
  On a working database an upload never writes content: whatever the connection delivers (at least one
  byte), the disk is unchanged.  It succeeds only for content that the database already knows, sent from the
  start, and then the path is registered: a lookup returns the known file's data under the requested path.
\<close>

theorem upload_only_links_known_content:
  assumes ok: "badger_ok (ue_store env)" and late: "ue_late env" and data: "delivered reads \<noteq> []"
    and entry: "bg_get (ue_store env) s (GetFileKey (ur_etag req) (ur_size req)) =
      (case known of None \<Rightarrow> Inl ErrKeyNotFound | Some g \<Rightarrow> Inr (jt_marshal File_json g, 0))"
  shows "case upload st env req reads s d of
      UpWaits d' \<Rightarrow> d' = d
    | UpDone ack e s' d' \<Rightarrow> d' = d \<and> (e = None \<longleftrightarrow> known \<noteq> None \<and> ur_startAt req = 0) \<and>
        (e = None \<longrightarrow> ack = \<lparr>ua_code = 0, ua_path = ur_path req, ua_etag = ur_etag req\<rparr> \<and>
           GetUserFile (ue_store env) True (ur_path req) s' = (CopyFile (ue_now env) (the known) (ur_path req), None))"
proof -
  let ?ops = "ue_store env"
  obtain previewPath filename where names:
    "GetFileName (ue_dir env) (ur_etag req) (ur_size req) (Ext (ur_path req)) = (previewPath, filename)"
    by fastforce
  show ?thesis
  proof (cases known)
    case None
    have get: "\<exists>f. GetFile ?ops True (ur_etag req) (ur_size req) s = (f, Some ErrKeyNotFound)"
      using entry None by (simp add: GetFile_def Get_def)
    have "InsertFile ?ops f s = (Some ErrKeyNotFound, s)"
      if "f_etag f = ur_etag req" "f_size f = ur_size req" for f
      using entry None that
      by (simp add: InsertFile_def Let_def GetOrSet_def db_txn_update_def errors_Is_def File_Key_def)
    with get late names None show ?thesis
      by (auto simp: upload_def errors_Is_def Let_def)
  next
    case (Some g)
    have get: "GetFile ?ops True (ur_etag req) (ur_size req) s = (g, None)"
      using entry Some by (simp add: GetFile_def Get_after [OF File_json_roundtrip])
    show ?thesis
    proof (cases "ur_startAt req = 0")
      case True
      let ?uf = "CopyFile (ue_now env) g (ur_path req)"
      have path: "uf_path ?uf = ur_path req" by (simp add: CopyFile_def)
      obtain s' where "InsertUserFile ?ops ?uf s = (None, s')" "GetUserFile ?ops True (uf_path ?uf) s' = (?uf, None)"
        by (rule InsertUserFile_spec [OF ok, of ?uf s])
      with get late names path True Some show ?thesis by (simp add: upload_def ack0_def)
    next
      case False
      with get late names Some data readonly_copy [of 0 d reads] show ?thesis
        by (auto simp: upload_def upload_copy_def split: option.split)
    qed
  qed
qed

definition demo_env :: "((string, json) gomap, unit) upload_env" where
  "demo_env =
     \<lparr>ue_store = mem_badger, ue_late = True, ue_now = 7, ue_dir = ''/d'', ue_createErr = (\<lambda>_. None), ue_closeErr = None,
      ue_imaging = \<lparr>im_decode = (\<lambda>_. Inr ()), im_maxX = (\<lambda>_. 1), im_resize = (\<lambda>i _ _. i),
        im_save = (\<lambda>_ _ d. Inr d), im_frame = (\<lambda>_ _. Inr [])\<rparr>, ue_nanInt = 0\<rparr>"

theorem upload_only_links_known_content_witness:
  "\<exists>e. upload [] demo_env \<lparr>ur_path = ''a.txt'', ur_size = 1, ur_etag = ''e'', ur_type = 4, ur_startAt = 0\<rparr>
      [([65], Some EOF)] [] [] = UpDone ack0 (Some e) [] []"
proof -
  let ?req = "\<lparr>ur_path = ''a.txt'', ur_size = 1, ur_etag = ''e'', ur_type = 4, ur_startAt = 0\<rparr>"
  have "\<exists>ack e. upload [] demo_env ?req [([65], Some EOF)] [] [] = UpDone ack e [] [] \<and> ack = ack0"
    by (simp add: upload_def demo_env_def GetFile_def Get_def mem_badger_def errors_Is_def GetFileName_def Let_def
        InsertFile_def GetOrSet_def db_txn_update_def)
  then obtain e where up: "upload [] demo_env ?req [([65], Some EOF)] [] [] = UpDone ack0 e [] []" by blast
  with upload_only_links_known_content [of demo_env "[([65], Some EOF)]" "[]" ?req None "[]" "[]"] mem_badger_ok
  have "e \<noteq> None" by (auto simp: demo_env_def mem_badger_def)
  with up show ?thesis by auto
qed

end
