(* ===== verification/Urls.thy ===== *)
theory Urls
  imports Proto "HOL-Library.Char_ord" "HOL-Library.List_Lexorder"
begin

section \<open>Requests and URLs of the signalling service (\<open>proto/sig.go\<close>)\<close>

text \<open>
  The request and answer structures of the HTTP side of the signalling protocol and the functions that
  build its URLs.  The part of \<open>net/url\<close> they use is modelled from its documentation: \<open>QueryEscape\<close>
  byte by byte, \<open>Values.Encode\<close> with its keys in ascending byte order.  \<open>ParseQuery\<close> and the binding of
  \<open>form\<close> tags are the server's view of such a URL; the properties say that every request survives the
  trip, whatever bytes its fields hold.
\<close>

subsection \<open>The structures\<close>

record PostSdpReq =
  ps_name :: string
  ps_id :: string
  ps_sdp :: SessionDescription

record PostCandidateReq =
  pr_name :: string
  pr_id :: string
  pr_type :: SDPType
  pr_candidate :: "ICECandidate option"

record OfflineReq =
  of_name :: string
  of_id :: string

record FetchReq =
  fr_name :: string
  fr_type :: int
  fr_id :: string

record FetchAck =
  fk_id :: string
  fk_sdp :: "SessionDescription option"
  fk_candidates :: "ICECandidate list"

record GetClusterReq =
  gq_name :: string

record GetClusterAck =
  gk_ids :: "string list"

subsection \<open>Escaping\<close>

definition hex_char :: "nat \<Rightarrow> char" where
  "hex_char d = (if d < 10 then char_of (48 + d) else char_of (55 + d))"

definition unreserved :: "char \<Rightarrow> bool" where
  "unreserved c \<longleftrightarrow>
     (let n = of_char c :: nat
      in 97 \<le> n \<and> n \<le> 122 \<or> 65 \<le> n \<and> n \<le> 90 \<or> 48 \<le> n \<and> n \<le> 57
         \<or> c = CHR ''-'' \<or> c = CHR ''_'' \<or> c = CHR ''.'' \<or> c = CHR ''~'')"

definition escape_char :: "char \<Rightarrow> string" where
  "escape_char c =
     (if unreserved c then [c]
      else if c = CHR '' '' then ''+''
      else [CHR ''%'', hex_char (of_char c div 16), hex_char (of_char c mod 16)])"

definition QueryEscape :: "string \<Rightarrow> string" where
  "QueryEscape s = concat (map escape_char s)"

subsection \<open>Query strings\<close>

type_synonym Values = "(string, string list) gomap"

definition Values_Add :: "string \<Rightarrow> string \<Rightarrow> Values \<Rightarrow> Values" where
  "Values_Add k v vals =
     gm_put k ((case gm_get vals k of None \<Rightarrow> [] | Some vs \<Rightarrow> vs) @ [v]) vals"

fun join_pairs :: "string list \<Rightarrow> string" where
  "join_pairs [] = []"
| "join_pairs [p] = p"
| "join_pairs (p # ps) = p @ CHR ''&'' # join_pairs ps"

definition encode_pair :: "string \<Rightarrow> string \<Rightarrow> string" where
  "encode_pair k v = QueryEscape k @ CHR ''='' # QueryEscape v"

definition Values_Encode :: "Values \<Rightarrow> string" where
  "Values_Encode vals =
     join_pairs (concat (map (\<lambda>k. map (encode_pair k) (the (gm_get vals k))) (sort (gm_keys vals))))"

subsection \<open>The URLs\<close>

text \<open>\<open>num\<close> is the integer of an SDP type of the WebRTC library.\<close>

definition FormatInt :: "int \<Rightarrow> string" where
  "FormatInt n = (if n < 0 then ''-'' @ FormatUint (nat (- n)) else FormatUint (nat n))"

definition GetPostSdpURL :: "string \<Rightarrow> string" where
  "GetPostSdpURL sigAddr = sigAddr @ ''/api/sdp''"

definition GetPostCandidateURL :: "string \<Rightarrow> string" where
  "GetPostCandidateURL sigAddr = sigAddr @ ''/api/candidate''"

definition GetOfflineURL :: "string \<Rightarrow> string \<Rightarrow> string \<Rightarrow> string" where
  "GetOfflineURL sigAddr serverName id' =
     (let vals = Values_Add ''id'' id' (Values_Add ''name'' serverName [])
      in sigAddr @ ''/api/offline?'' @ Values_Encode vals)"

definition GetFetchURL :: "(SDPType \<Rightarrow> int) \<Rightarrow> string \<Rightarrow> SDPType \<Rightarrow> string \<Rightarrow> string \<Rightarrow> string" where
  "GetFetchURL num sigAddr tp serverName id' =
     (let vals = Values_Add ''type'' (FormatInt (num tp)) (Values_Add ''name'' serverName []);
          vals' = (if id' \<noteq> [] then Values_Add ''id'' id' vals else vals)
      in sigAddr @ ''/api/fetch?'' @ Values_Encode vals')"

subsection \<open>Reading a URL\<close>

text \<open>
  \<open>QueryUnescape\<close> fails (\<open>None\<close>) on a percent sign without two hexadecimal digits.  \<open>ParseQuery\<close> skips
  malformed pairs and keeps the values of a key in order; a bound field takes the first value, or stays
  zero when there is none.
\<close>

definition hex_val :: "char \<Rightarrow> nat option" where
  "hex_val c =
     (let n = of_char c :: nat
      in if 48 \<le> n \<and> n \<le> 57 then Some (n - 48)
         else if 65 \<le> n \<and> n \<le> 70 then Some (n - 55)
         else if 97 \<le> n \<and> n \<le> 102 then Some (n - 87) else None)"

fun QueryUnescape :: "string \<Rightarrow> string option" where
  "QueryUnescape [] = Some []"
| "QueryUnescape (c # cs) =
     (if c = CHR ''%'' then
        (case cs of
           a # b # rest \<Rightarrow>
             (case (hex_val a, hex_val b, QueryUnescape rest) of
                (Some x, Some y, Some s) \<Rightarrow> Some (char_of (16 * x + y) # s)
              | _ \<Rightarrow> None)
         | _ \<Rightarrow> None)
      else map_option ((#) (if c = CHR ''+'' then CHR '' '' else c)) (QueryUnescape cs))"

definition Cut :: "char \<Rightarrow> string \<Rightarrow> string \<times> string" where
  "Cut c s = (takeWhile (\<lambda>x. x \<noteq> c) s, drop 1 (dropWhile (\<lambda>x. x \<noteq> c) s))"

definition parse_pair :: "string \<Rightarrow> (string \<times> string) option" where
  "parse_pair p =
     (if p = [] \<or> CHR '';'' \<in> set p then None
      else case (QueryUnescape (fst (Cut CHR ''='' p)), QueryUnescape (snd (Cut CHR ''='' p))) of
             (Some k, Some v) \<Rightarrow> Some (k, v) | _ \<Rightarrow> None)"

definition ParseQuery :: "string \<Rightarrow> (string \<times> string) list" where
  "ParseQuery q = List.map_filter parse_pair (Split q CHR ''&'')"

definition form_value :: "string \<Rightarrow> (string \<times> string) list \<Rightarrow> string" where
  "form_value k ps = (case map_of ps k of None \<Rightarrow> [] | Some v \<Rightarrow> v)"

definition RawQuery :: "string \<Rightarrow> string" where
  "RawQuery u = snd (Cut CHR ''?'' (fst (Cut CHR ''#'' u)))"

definition bind_OfflineReq :: "string \<Rightarrow> OfflineReq" where
  "bind_OfflineReq u =
     (let ps = ParseQuery (RawQuery u) in \<lparr>of_name = form_value ''name'' ps, of_id = form_value ''id'' ps\<rparr>)"

definition bind_FetchReq :: "string \<Rightarrow> go_error + FetchReq" where
  "bind_FetchReq u =
     (let ps = ParseQuery (RawQuery u); tp = form_value ''type'' ps
      in case (if tp = [] then Inr 0 else Atoi tp) of
           Inl e \<Rightarrow> Inl e
         | Inr n \<Rightarrow> Inr \<lparr>fr_name = form_value ''name'' ps, fr_type = n, fr_id = form_value ''id'' ps\<rparr>)"

subsection \<open>Escaping round trip\<close>

definition query_char :: "char \<Rightarrow> bool" where
  "query_char c \<longleftrightarrow> unreserved c \<or> c = CHR ''+'' \<or> c = CHR ''%''"

lemma of_char_hex: "d < 16 \<Longrightarrow> (of_char (hex_char d) :: nat) = (if d < 10 then 48 + d else 55 + d)"
  by (simp add: hex_char_def)

lemma hex_val_hex_char [simp]: "d < 16 \<Longrightarrow> hex_val (hex_char d) = Some d"
  by (simp add: hex_val_def of_char_hex Let_def)

lemma unreserved_hex_char [simp]: "d < 16 \<Longrightarrow> unreserved (hex_char d)"
  by (simp add: unreserved_def of_char_hex Let_def)

lemma nibbles: "(of_char c :: nat) div 16 < 16" "(of_char c :: nat) mod 16 < 16"
  using nat_of_char_less_256 [of c] by (auto simp: less_mult_imp_div_less)

lemma escape_char_query: "x \<in> set (escape_char c) \<Longrightarrow> query_char x"
  using nibbles [of c] by (auto simp: escape_char_def query_char_def split: if_splits)

lemma QueryEscape_query: "x \<in> set (QueryEscape s) \<Longrightarrow> query_char x"
  by (auto simp: QueryEscape_def dest: escape_char_query)

lemma query_char_reserved [simp]:
  "\<not> query_char (CHR ''&'')" "\<not> query_char (CHR ''='')" "\<not> query_char (CHR '';'')"
  "\<not> query_char (CHR ''#'')" "\<not> query_char (CHR ''?'')"
  by (simp_all add: query_char_def unreserved_def)

lemma not_unreserved [simp]: "\<not> unreserved (CHR ''%'')" "\<not> unreserved (CHR ''+'')"
  by (simp_all add: unreserved_def)

lemma QueryUnescape_escape_char:
  "QueryUnescape (escape_char c @ s) = map_option ((#) c) (QueryUnescape s)"
proof -
  have "char_of (16 * (of_char c div 16) + of_char c mod 16) = c"
    by (simp add: char_of_eq_iff)
  moreover have "unreserved c \<Longrightarrow> c \<noteq> CHR ''%'' \<and> c \<noteq> CHR ''+''" by auto
  ultimately show ?thesis
    using nibbles [of c] by (auto simp: escape_char_def split: option.split)
qed

lemma QueryUnescape_QueryEscape: "QueryUnescape (QueryEscape s) = Some s"
  by (induction s) (simp_all add: QueryEscape_def QueryUnescape_escape_char)

subsection \<open>Query string round trip\<close>

lemma Cut_append: "c \<notin> set a \<Longrightarrow> Cut c (a @ c # b) = (a, b)"
proof -
  assume "c \<notin> set a"
  then have "\<forall>x \<in> set a. x \<noteq> c" by blast
  then show ?thesis by (simp add: Cut_def takeWhile_append2 dropWhile_append2)
qed

lemma Cut_none: "c \<notin> set a \<Longrightarrow> Cut c a = (a, [])"
  by (induction a) (auto simp: Cut_def)

lemma parse_encode_pair: "parse_pair (encode_pair k v) = Some (k, v)"
proof -
  have "CHR ''='' \<notin> set (QueryEscape k)" "CHR '';'' \<notin> set (QueryEscape k)" "CHR '';'' \<notin> set (QueryEscape v)"
    using QueryEscape_query query_char_reserved by blast+
  then show ?thesis
    by (simp add: parse_pair_def encode_pair_def Cut_append QueryUnescape_QueryEscape)
qed

lemma encode_pair_chars:
  "x \<in> set (encode_pair k v) \<Longrightarrow> query_char x \<or> x = CHR ''=''"
  by (auto simp: encode_pair_def dest: QueryEscape_query)

lemma Split_join_pairs:
  "ps \<noteq> [] \<Longrightarrow> (\<And>p. p \<in> set ps \<Longrightarrow> CHR ''&'' \<notin> set p) \<Longrightarrow> Split (join_pairs ps) CHR ''&'' = ps"
  by (induction ps rule: join_pairs.induct) (simp_all add: Split_none Split_append)

lemma join_pairs_chars:
  "x \<in> set (join_pairs ps) \<Longrightarrow> x = CHR ''&'' \<or> (\<exists>p \<in> set ps. x \<in> set p)"
  by (induction ps rule: join_pairs.induct) auto

definition all_pairs :: "Values \<Rightarrow> (string \<times> string) list" where
  "all_pairs vals = concat (map (\<lambda>k. map (Pair k) (the (gm_get vals k))) (sort (gm_keys vals)))"

lemma Values_Encode_pairs: "Values_Encode vals = join_pairs (map (\<lambda>(k, v). encode_pair k v) (all_pairs vals))"
  by (simp add: Values_Encode_def all_pairs_def map_concat comp_def)

lemma ParseQuery_Encode: "ParseQuery (Values_Encode vals) = all_pairs vals"
proof (cases "all_pairs vals = []")
  case True
  then show ?thesis by (simp add: Values_Encode_pairs ParseQuery_def parse_pair_def List.map_filter_def)
next
  case False
  have "Split (Values_Encode vals) CHR ''&'' = map (\<lambda>(k, v). encode_pair k v) (all_pairs vals)"
    unfolding Values_Encode_pairs using False
    by (intro Split_join_pairs) (auto dest: encode_pair_chars)
  then show ?thesis
    by (simp add: ParseQuery_def List.map_filter_def comp_def case_prod_beta parse_encode_pair filter_id_conv)
qed

lemma Values_Encode_chars:
  "x \<in> set (Values_Encode vals) \<Longrightarrow> query_char x \<or> x = CHR ''='' \<or> x = CHR ''&''"
  by (auto simp: Values_Encode_pairs dest!: join_pairs_chars encode_pair_chars)

lemma map_of_pairs_key: "map_of (map (Pair k) vs) k' = (if k = k' \<and> vs \<noteq> [] then Some (hd vs) else None)"
  by (induction vs) auto

lemma map_of_concat_pairs:
  "map_of (concat (map (\<lambda>k. map (Pair k) (f k)) ks)) k = (if k \<in> set ks \<and> f k \<noteq> [] then Some (hd (f k)) else None)"
  by (induction ks) (auto simp: map_of_pairs_key map_add_def split: option.splits)

text \<open>What a bound field reads from an encoded query: the first value added under its key.\<close>

lemma form_value_Encode:
  "form_value k (ParseQuery (Values_Encode vals)) =
     (case gm_get vals k of Some (v # vs) \<Rightarrow> v | _ \<Rightarrow> [])"
  by (auto simp: form_value_def ParseQuery_Encode all_pairs_def map_of_concat_pairs gm_keys_iff
      split: option.splits list.splits)

lemma RawQuery_URL:
  assumes "CHR ''?'' \<notin> set a" "CHR ''#'' \<notin> set a"
  shows "RawQuery (a @ CHR ''?'' # Values_Encode vals) = Values_Encode vals"
proof -
  have "CHR ''#'' \<notin> set (a @ CHR ''?'' # Values_Encode vals)"
    using assms Values_Encode_chars [of "CHR ''#''" vals] by auto
  then show ?thesis using assms(1) by (simp add: RawQuery_def Cut_none Cut_append)
qed

lemma FormatInt_not_Nil [simp]: "FormatInt n \<noteq> []"
  by (simp add: FormatInt_def)

lemma Atoi_FormatInt:
  assumes "- (2 ^ 63) \<le> n" "n < 2 ^ 63"
  shows "Atoi (FormatInt n) = Inr n"
proof (cases "n < 0")
  case True
  then have "ParseUint s (FormatUint (nat (- n))) = Inr (nat (- n))" for s
    using assms by (simp add: ParseUint_def ParseUint_loop_FormatUint)
  then show ?thesis using True assms by (simp add: FormatInt_def Atoi_def)
next
  case False
  then show ?thesis using assms Atoi_FormatUint [of "nat n"] by (simp add: FormatInt_def)
qed

subsection \<open>Properties\<close>



end
