(* ===== verification/Web_Api.thy ===== *)
theory Web_Api
  imports Upload Conn Urls
begin

section \<open>The HTTP handlers of a backend (\<open>backend/web.go\<close>, \<open>middles/cors.go\<close>)\<close>

text \<open>
  Handlers write to a response: status, headers in the order they were set, body.  As in gin, the status
  is fixed once body bytes have been written.  The text of an error is the argument \<open>msg\<close>; the opened file
  is its content and a position, and reads of a file return full buffers up to its end.
\<close>

record response =
  rs_status :: nat
  rs_headers :: "(string \<times> string) list"
  rs_body :: bytes

definition response0 :: response where
  "response0 = \<lparr>rs_status = 200, rs_headers = [], rs_body = []\<rparr>"

definition bytes_of :: "string \<Rightarrow> bytes" where
  "bytes_of s = map (\<lambda>c. of_nat (of_char c)) s"

definition set_status :: "nat \<Rightarrow> response \<Rightarrow> response" where
  "set_status code r = (if rs_body r = [] then r\<lparr>rs_status := code\<rparr> else r)"

definition set_header :: "string \<Rightarrow> string \<Rightarrow> response \<Rightarrow> response" where
  "set_header k v r = r\<lparr>rs_headers := filter (\<lambda>h. fst h \<noteq> k) (rs_headers r) @ [(k, v)]\<rparr>"

definition c_String :: "nat \<Rightarrow> string \<Rightarrow> response \<Rightarrow> response" where
  "c_String code s r = (set_status code r)\<lparr>rs_body := rs_body r @ bytes_of s\<rparr>"

subsection \<open>Cross-origin headers\<close>

text \<open>The response of the middleware and whether the next handler runs.\<close>

definition Cors :: "string \<Rightarrow> response \<Rightarrow> response \<times> bool" where
  "Cors method r =
     (let r1 = set_header ''Access-Control-Allow-Origin'' ''*'' r;
          r2 = set_header ''Access-Control-Allow-Methods'' ''POST, GET, PUT, DELETE, OPTIONS'' r1;
          r3 = set_header ''Access-Control-Allow-Headers'' ''Content-Type, Content-Length, Token'' r2
      in if method = ''OPTIONS'' then (set_status 204 r3, False) else (r3, True))"

subsection \<open>Connection states\<close>

text \<open>The callback that gives the tunnel's channel back: \<open>None\<close> is a panic.\<close>

datatype ConnState = StateNew | StateActive | StateIdle | StateHijacked | StateClosed

definition Web_ConnState :: "('s \<Rightarrow> 's option) \<Rightarrow> 's Conn \<Rightarrow> ConnState \<Rightarrow> 's Conn option" where
  "Web_ConnState release c cs =
     (case cs of
        StateClosed \<Rightarrow> Conn_Close release c
      | StateIdle \<Rightarrow> Conn_Release release c
      | _ \<Rightarrow> Some c)"

subsection \<open>File handlers\<close>

datatype pre_upload = PreBad string | PreMissing | PreErr string | PreOk UploadAck

text \<open>\<open>bind\<close> is the decoded request or the binding error's text.\<close>

definition PreUpload ::
  "'b badger \<Rightarrow> bool \<Rightarrow> gint \<Rightarrow> (go_error \<Rightarrow> string) \<Rightarrow> string + UploadReq \<Rightarrow> 'b \<Rightarrow> pre_upload" where
  "PreUpload ops late now msg bind s =
     (case bind of
        Inl m \<Rightarrow> PreBad m
      | Inr req \<Rightarrow>
          (case GetFile ops late (ur_etag req) (ur_size req) s of
             (realFile, err) \<Rightarrow>
               if errors_Is err ErrKeyNotFound then PreMissing
               else (case err of
                       Some e \<Rightarrow> PreErr (msg e)
                     | None \<Rightarrow>
                         (let uf = CopyFile now realFile (ur_path req)
                          in PreOk \<lparr>ua_code = 0, ua_path = uf_path uf, ua_etag = f_etag realFile\<rparr>))))"

definition Head :: "'b badger \<Rightarrow> bool \<Rightarrow> (go_error \<Rightarrow> string) \<Rightarrow> string \<Rightarrow> 'b \<Rightarrow> response" where
  "Head ops late msg path s =
     (case GetUserFile ops late path s of
        (uf, err) \<Rightarrow>
          if errors_Is err ErrKeyNotFound then set_status 404 response0
          else (case err of
                  Some e \<Rightarrow> c_String 400 (msg e) response0
                | None \<Rightarrow> set_header ''Content-Length'' (FormatUint (unat (uf_size uf)))
                            (set_header ''ETAG'' (uf_etag uf) response0)))"

definition FileSystem_Open :: "'b badger \<Rightarrow> bool \<Rightarrow> string \<Rightarrow> 'b \<Rightarrow> disk \<Rightarrow> go_error + bytes" where
  "FileSystem_Open ops late name s d =
     (case GetUserFile ops late name s of
        (uf, Some e) \<Rightarrow> Inl e
      | (uf, None) \<Rightarrow> (case gm_get d (uf_realPath uf) of None \<Rightarrow> Inl ErrNotExist | Some c \<Rightarrow> Inr c))"

definition isASCII :: "string \<Rightarrow> bool" where
  "isASCII s \<longleftrightarrow> (\<forall>c \<in> set s. \<not> 127 < (of_char c :: nat))"

text \<open>The \<open>Range\<close> header, split at dashes: start and end, or the conversion error.\<close>

definition parse_range :: "string \<Rightarrow> go_error + int \<times> int" where
  "parse_range rg =
     (if rg = [] then Inr (0, 0)
      else
        (let rgs = Split rg CHR ''-''
         in case Atoi (rgs ! 0) of
              Inl e \<Rightarrow> Inl e
            | Inr start \<Rightarrow>
                if 1 < length rgs \<and> rgs ! 1 \<noteq> []
                then (case Atoi (rgs ! 1) of Inl e \<Rightarrow> Inl e | Inr end' \<Rightarrow> Inr (start, end'))
                else Inr (start, 0)))"

text \<open>
  The loop over the requested range: each round reads a buffer of 4096 bytes at the file position and
  writes it; \<open>write\<close> is the response writer.  The counter is a 64-bit \<open>int\<close>: past \<open>2^63 - 1\<close> it becomes
  negative and the loop does not end, which is \<open>None\<close>.
\<close>

definition wrap_int :: "int \<Rightarrow> int" where
  "wrap_int n = (n + 2 ^ 63) mod 2 ^ 64 - 2 ^ 63"

partial_function (option) range_loop ::
  "('w \<Rightarrow> bytes \<Rightarrow> nat \<times> go_error option \<times> 'w) \<Rightarrow> int \<Rightarrow> int \<Rightarrow> bytes \<Rightarrow> nat \<Rightarrow> 'w
   \<Rightarrow> (go_error option \<times> nat \<times> 'w) option" where
  "range_loop write i end' content pos w =
     (if i < end' then
        (let bs = take 4096 (drop pos content); (n, e, w') = write w bs
         in if e \<noteq> None \<and> e \<noteq> Some EOF then Some (e, pos + length bs, w')
            else range_loop write (wrap_int (i + 4096)) end' content (pos + length bs) w')
      else Some (None, pos, w))"

declare range_loop.simps [code]

text \<open>The bytes from a position on, as \<open>io.Copy\<close> reads them from the file: one read and the end.\<close>

definition file_reads :: "bytes \<Rightarrow> nat \<Rightarrow> (bytes \<times> go_error option) list" where
  "file_reads content pos = [(drop pos content, None), ([], Some EOF)]"

definition content_disposition :: "string \<Rightarrow> string" where
  "content_disposition filename =
     (if isASCII filename then ''attachment; filename=\"'' @ filename @ ''\"''
      else ''attachment; filename*=UTF-8'' @ [CHR 0x27, CHR 0x27] @ QueryEscape filename)"

text \<open>
  \<open>Download\<close> with a response writer that accepts everything: the response.
\<close>

definition download_body ::
  "int \<Rightarrow> int \<Rightarrow> u64 \<Rightarrow> bytes \<Rightarrow> (go_error \<Rightarrow> string) \<Rightarrow> response \<Rightarrow> response option" where
  "download_body start end' sz content msg r =
     (let pos = (if 0 < start then nat start else 0);
          r1 = set_status 200 r
      in if start < end' then
           (let r2 = set_header ''Content-Range''
                       (''bytes '' @ FormatInt start @ ''-'' @ FormatInt end' @ ''/'' @ FormatUint (unat sz)) r1
            in case range_loop append_all start end' content pos (rs_body r2) of
                 None \<Rightarrow> None
               | Some (Some e, p, w) \<Rightarrow> Some (c_String 400 (msg e) (r2\<lparr>rs_body := w\<rparr>))
               | Some (None, p, w) \<Rightarrow>
                   (case io_Copy append_all 0 w (file_reads content p) of
                      CopyDone n e w' \<Rightarrow> Some (r2\<lparr>rs_body := w'\<rparr>)
                    | CopyWaits n w' \<Rightarrow> Some (r2\<lparr>rs_body := w'\<rparr>)))
         else
           (let r2 = set_header ''Content-Range''
                       (''bytes '' @ FormatInt start @ ''-/'' @ FormatUint (unat sz)) r1
            in case io_Copy append_all 0 (rs_body r2) (file_reads content pos) of
                 CopyDone n e w' \<Rightarrow> Some (r2\<lparr>rs_body := w'\<rparr>)
               | CopyWaits n w' \<Rightarrow> Some (r2\<lparr>rs_body := w'\<rparr>)))"

definition Download ::
  "'b badger \<Rightarrow> bool \<Rightarrow> (go_error \<Rightarrow> string) \<Rightarrow> string \<Rightarrow> string \<Rightarrow> 'b \<Rightarrow> disk \<Rightarrow> response option" where
  "Download ops late msg path rg s d =
     (case parse_range rg of
        Inl e \<Rightarrow> Some (c_String 400 (msg e) response0)
      | Inr (start, end') \<Rightarrow>
          (case GetUserFile ops late path s of
             (uf, err) \<Rightarrow>
               if errors_Is err ErrKeyNotFound then Some (set_status 404 response0)
               else (case err of
                       Some e \<Rightarrow> Some (c_String 400 (msg e) response0)
                     | None \<Rightarrow>
                         (let r1 = set_header ''ETAG'' (uf_etag uf) response0;
                              r2 = set_header ''Content-Length'' (FormatUint (unat (uf_size uf - of_int start))) r1;
                              r3 = set_header ''Content-Disposition'' (content_disposition (uf_path uf)) r2
                          in case gm_get d (uf_realPath uf) of
                               None \<Rightarrow> Some (c_String 400 (msg ErrNotExist) r3)
                             | Some content \<Rightarrow> download_body start end' (uf_size uf) content msg r3))))"

subsection \<open>Lemmas\<close>

lemma wrap_int_id: "- (2 ^ 63) \<le> n \<Longrightarrow> n < 2 ^ 63 \<Longrightarrow> wrap_int n = n"
  by (simp add: wrap_int_def)

text \<open>
  The counter of the loop keeps its residue modulo 4096, also when it wraps, so the largest value it
  takes is \<open>range_max\<close>; the loop returns exactly when that value reaches the end.
\<close>

definition range_max :: "int \<Rightarrow> int" where
  "range_max i = 2 ^ 63 - 4096 + i mod 4096"

lemma wrap_int_range: "- (2 ^ 63) \<le> wrap_int n \<and> wrap_int n < 2 ^ 63"
  using pos_mod_sign [of "2 ^ 64" "n + 2 ^ 63"] pos_mod_bound [of "2 ^ 64" "n + 2 ^ 63"]
  by (simp add: wrap_int_def)

lemma wrap_int_mod: "wrap_int n mod 4096 = n mod 4096"
proof -
  have "wrap_int n = n - 4096 * (2 ^ 52 * ((n + 2 ^ 63) div 2 ^ 64))"
    using div_mult_mod_eq [of "n + 2 ^ 63" "2 ^ 64"] by (simp add: wrap_int_def algebra_simps)
  then show ?thesis by (metis mod_diff_right_eq mod_mult_self1_is_0 diff_zero mult.commute)
qed

lemma mod_4096: obtains q m where "i = 4096 * q + m" "0 \<le> m" "m < 4096" "i mod 4096 = (m :: int)"
  using mult_div_mod_eq [of 4096 i] by (metis pos_mod_bound pos_mod_sign zero_less_numeral)

lemma range_max_bound: "i < 2 ^ 63 \<Longrightarrow> i \<le> range_max i"
  unfolding range_max_def by (rule mod_4096 [of i]) simp

lemma range_max_wrap [simp]: "range_max (wrap_int (i + 4096)) = range_max i"
  by (simp add: range_max_def wrap_int_mod)

lemma range_max_step: "i < range_max i \<Longrightarrow> i + 4096 < 2 ^ 63"
  unfolding range_max_def by (rule mod_4096 [of i]) simp

lemma range_loop_append:
  assumes "0 \<le> i" "end' \<le> range_max i"
  shows "\<exists>p. range_loop append_all i end' content pos w = Some (None, p, w @ gslice content pos p) \<and>
    pos \<le> p"
  using assms
proof (induction "nat (end' - i)" arbitrary: i pos w rule: less_induct)
  case less
  show ?case
  proof (cases "i < end'")
    case False
    then show ?thesis by (subst range_loop.simps) (simp add: gslice_def)
  next
    case True
    let ?bs = "take 4096 (drop pos content)"
    let ?pos = "pos + length ?bs"
    have i: "wrap_int (i + 4096) = i + 4096"
      using True less.prems range_max_step [of i] by (simp add: wrap_int_id)
    have "nat (end' - (i + 4096)) < nat (end' - i)" using True by simp
    from less.hyps [OF this, of ?pos "w @ ?bs"] less.prems range_max_wrap [of i] obtain p
      where p: "range_loop append_all (i + 4096) end' content ?pos (w @ ?bs) = Some (None, p, (w @ ?bs) @ gslice content ?pos p)"
        "?pos \<le> p" by (auto simp: i)
    have eq: "?bs @ gslice content ?pos p = gslice content pos p"
    proof -
      have "gslice content pos ?pos = ?bs" by (simp add: gslice_def min_def)
      with gslice_append [of pos ?pos p content] p(2) show ?thesis by (metis le_add1)
    qed
    have "range_loop append_all i end' content pos w = Some (None, p, w @ gslice content pos p)"
      using True p(1) eq by (subst range_loop.simps) (simp add: i append_all_def Let_def)
    moreover have "pos \<le> p" using p(2) by simp
    ultimately show ?thesis by blast
  qed
qed

lemma range_loop_returns:
  assumes "range_loop append_all i end' content pos w = Some y" "i < 2 ^ 63"
  shows "end' \<le> range_max i"
proof -
  have "append_all = append_all \<longrightarrow> i < 2 ^ 63 \<longrightarrow> end' \<le> range_max i"
  proof (rule range_loop.raw_induct [OF _ assms(1), where
        P = "\<lambda>wr i end' content pos w y. wr = append_all \<longrightarrow> i < 2 ^ 63 \<longrightarrow> end' \<le> range_max i"], intro impI)
    fix loop wr i end' content pos w y
    assume IH: "\<And>wr i end' content pos w y. loop wr i end' content pos w = Some y \<Longrightarrow>
        wr = append_all \<longrightarrow> i < 2 ^ 63 \<longrightarrow> end' \<le> range_max i"
      and body: "(if i < end' then
          let bs = take 4096 (drop pos content); (n, e, w') = wr w bs
          in if e \<noteq> None \<and> e \<noteq> Some EOF then Some (e, pos + length bs, w')
             else loop wr (wrap_int (i + 4096)) end' content (pos + length bs) w'
        else Some (None, pos, w)) = Some y"
      and wr: "wr = append_all" and i: "i < 2 ^ 63"
    show "end' \<le> range_max i"
    proof (cases "i < end'")
      case True
      then obtain p w' where "loop wr (wrap_int (i + 4096)) end' content p w' = Some y"
        using body wr by (auto simp: Let_def append_all_def)
      from IH [OF this] wr wrap_int_range [of "i + 4096"] show ?thesis by simp
    next
      case False
      then show ?thesis using range_max_bound [OF i] by simp
    qed
  qed
  with assms(2) show ?thesis by simp
qed

lemma copy_rest: "io_Copy append_all 0 w (file_reads content p) = CopyDone (length content - p) None (w @ drop p content)"
  by (simp only: io_Copy_append_all file_reads_def) simp

lemma download_body_spec:
  assumes "0 \<le> start" "end' \<le> range_max start" "rs_body r = []"
  shows "\<exists>r' cr. download_body start end' sz content msg r = Some r' \<and> rs_status r' = 200 \<and>
    rs_body r' = drop (nat start) content \<and> rs_headers r' = rs_headers (set_header ''Content-Range'' cr r)"
proof -
  have pos: "(if 0 < start then nat start else 0) = nat start" using assms(1) by simp
  obtain p where "range_loop append_all start end' content (nat start) [] = Some (None, p, [] @ gslice content (nat start) p)"
    "nat start \<le> p"
    using range_loop_append [OF assms(1,2)] by blast
  then show ?thesis
    using assms(3) unfolding download_body_def pos
    by (auto simp: Let_def copy_rest set_status_def set_header_def gslice_drop)
qed

lemma set_header_other: "k \<noteq> k' \<Longrightarrow> map_of (rs_headers (set_header k v r)) k' = map_of (rs_headers r) k'"
proof -
  assume "k \<noteq> k'"
  moreover from this have "map_of (filter (\<lambda>h. fst h \<noteq> k) hs) k' = map_of hs k'" for hs :: "(string \<times> string) list"
    by (induction hs) auto
  ultimately show ?thesis by (simp add: set_header_def map_add_def split: option.split)
qed

lemma set_header_same: "map_of (rs_headers (set_header k v r)) k = Some v"
proof -
  have "map_of (filter (\<lambda>h. fst h \<noteq> k) hs) k = None" for hs :: "(string \<times> string) list"
    by (induction hs) auto
  then show ?thesis by (simp add: set_header_def map_add_def)
qed

text \<open>A range in the syntax of the HTTP standard is refused, because its unit is not a number.\<close>

lemma ParseUint_loop_syntax:
  "cs \<noteq> [] \<Longrightarrow> \<not> is_digit (hd cs) \<Longrightarrow> ParseUint_loop s0 cs n = Inl (ErrSyntax s0)"
  by (cases cs) simp_all

lemma Split_hd: "\<exists>rest. Split (x @ ys) c ! 0 = x @ rest" if "c \<notin> set x"
  using that
proof (induction x)
  case (Cons a x)
  then obtain rest where "Split (x @ ys) c ! 0 = x @ rest" by auto
  with Cons.prems show ?case by (cases "Split (x @ ys) c") (auto simp: nth_Cons')
qed simp

lemma standard_range_is_refused: "\<exists>e. parse_range (''bytes='' @ spec) = Inl e"
proof -
  obtain rest where "Split (''bytes='' @ spec) CHR ''-'' ! 0 = ''bytes='' @ rest"
    using Split_hd [of "CHR ''-''" "''bytes=''" spec] by auto
  then show ?thesis
    by (simp add: parse_range_def Let_def Atoi_def ParseUint_def ParseUint_loop_syntax is_digit_def)
qed

subsection \<open>Properties\<close>

text \<open>
  A download of a registered file whose content is on disk succeeds and sends the content from the
  requested start to its very end, whatever end the range asks for; the announced length is the recorded
  size minus the start, modulo \<open>2^64\<close>.
\<close>

theorem download_ignores_the_end_of_the_range:
  assumes "parse_range rg = Inr (start, end')" "0 \<le> start" "end' \<le> range_max start"
    and "GetUserFile ops late path s = (uf, None)" "gm_get d (uf_realPath uf) = Some content"
  shows "\<exists>r. Download ops late msg path rg s d = Some r \<and> rs_status r = 200 \<and>
    rs_body r = drop (nat start) content \<and>
    map_of (rs_headers r) ''Content-Length'' = Some (FormatUint (unat (uf_size uf - of_int start)))"
proof -
  let ?r2 = "set_header ''Content-Length'' (FormatUint (unat (uf_size uf - of_int start)))
      (set_header ''ETAG'' (uf_etag uf) response0)"
  let ?r3 = "set_header ''Content-Disposition'' (content_disposition (uf_path uf)) ?r2"
  have "rs_body ?r3 = []" by (simp add: set_header_def response0_def)
  from download_body_spec [OF assms(2,3) this, of "uf_size uf" content msg] obtain r' cr where
    r': "download_body start end' (uf_size uf) content msg ?r3 = Some r'" "rs_status r' = 200"
      "rs_body r' = drop (nat start) content" "rs_headers r' = rs_headers (set_header ''Content-Range'' cr ?r3)"
    by blast
  moreover have "map_of (rs_headers r') ''Content-Length'' = Some (FormatUint (unat (uf_size uf - of_int start)))"
    by (simp add: r'(4) set_header_other set_header_same)
  ultimately show ?thesis using assms(1,4,5) by (simp add: Download_def errors_Is_def Let_def)
qed

theorem download_ignores_the_end_of_the_range_witness:
  "\<exists>r. Download mem_badger True (\<lambda>_. []) ''a.txt'' ''1-2''
       [(GetUserFileKey ''a.txt'', jt_marshal UserFile_json demo_uf)] [(''/d/f'', [1, 2, 3])] = Some r \<and>
     rs_body r = [2, 3]"
proof -
  let ?s = "[(GetUserFileKey ''a.txt'', jt_marshal UserFile_json demo_uf)]"
  have rg: "parse_range ''1-2'' = Inr (1, 2)"
    by (simp add: parse_range_def Let_def Atoi_def ParseUint_def is_digit_def digit_val_def)
  have uf: "GetUserFile mem_badger True ''a.txt'' ?s = (demo_uf, None)"
    unfolding GetUserFile_def by (rule Get_after [OF UserFile_json_roundtrip]) (simp add: mem_badger_def)
  have d: "gm_get [(''/d/f'', [1, 2, 3 :: byte])] (uf_realPath demo_uf) = Some [1, 2, 3]"
    by (simp add: demo_uf_def CopyFile_def)
  from download_ignores_the_end_of_the_range [OF rg _ _ uf d] show ?thesis
    by (fastforce simp: range_max_def)
qed

lemma Atoi_unsigned: "CHR ''-'' \<notin> set s \<Longrightarrow> Atoi s = Inr n \<Longrightarrow> 0 \<le> n \<and> n < 2 ^ 63"
  by (cases s) (auto simp: Atoi_def Let_def split: sum.splits if_splits)

lemma parse_range_bounds:
  assumes "parse_range rg = Inr (start, end')"
  shows "0 \<le> start \<and> start < 2 ^ 63 \<and> 0 \<le> end' \<and> end' < 2 ^ 63"
proof -
  let ?rgs = "Split rg CHR ''-''"
  have nth: "i < length ?rgs \<Longrightarrow> CHR ''-'' \<notin> set (?rgs ! i)" for i
    using Split_pieces [of "?rgs ! i" rg "CHR ''-''"] by simp
  have "0 < length ?rgs" by simp
  then show ?thesis
    using assms nth [of 0] nth [of 1] Atoi_unsigned
    by (fastforce simp: parse_range_def Let_def split: if_splits sum.splits)
qed



end
