(* ===== verification/Routes.thy ===== *)
theory Routes
  imports Web_Api Server
begin

section \<open>Routes and small handlers (\<open>backend/web.go\<close>, \<open>server/server.go\<close>, \<open>browser/browser.go\<close>)\<close>

text \<open>
  The three HTTP servers of the program register their routes with gin.  A registration is recorded with
  the method, the full path pattern and whether the cross-origin middleware was in force: as documented
  by gin, \<open>Use\<close> only affects routes registered after it, \<open>StaticFS\<close> registers \<open>GET\<close> and \<open>HEAD\<close>, \<open>Any\<close> nine
  methods.  The remaining handlers of the web server and the start of a websocket session follow.
\<close>

subsection \<open>Registering routes\<close>

record route =
  rt_method :: string
  rt_pattern :: string
  rt_handler :: string
  rt_cors :: bool

record engine =
  en_cors :: bool
  en_routes :: "route list"

definition engine0 :: engine where
  "engine0 = \<lparr>en_cors = False, en_routes = []\<rparr>"

definition Use_Cors :: "engine \<Rightarrow> engine" where
  "Use_Cors e = e\<lparr>en_cors := True\<rparr>"

definition join_paths :: "string \<Rightarrow> string \<Rightarrow> string" where
  "join_paths base rel =
     rev (dropWhile (\<lambda>c. c = CHR ''/'') (rev base)) @ CHR ''/'' # dropWhile (\<lambda>c. c = CHR ''/'') rel"

definition handle_route :: "string \<Rightarrow> string \<Rightarrow> string \<Rightarrow> string \<Rightarrow> engine \<Rightarrow> engine" where
  "handle_route grp method path handler e =
     e\<lparr>en_routes := en_routes e @
         [\<lparr>rt_method = method, rt_pattern = join_paths grp path, rt_handler = handler, rt_cors = en_cors e\<rparr>]\<rparr>"

definition StaticFS :: "string \<Rightarrow> string \<Rightarrow> string \<Rightarrow> engine \<Rightarrow> engine" where
  "StaticFS grp path handler e =
     handle_route grp ''HEAD'' (join_paths path ''*filepath'') handler
       (handle_route grp ''GET'' (join_paths path ''*filepath'') handler e)"

definition Any :: "string \<Rightarrow> string \<Rightarrow> string \<Rightarrow> engine \<Rightarrow> engine" where
  "Any grp path handler e =
     foldl (\<lambda>e m. handle_route grp m path handler e) e
       [''GET'', ''POST'', ''PUT'', ''PATCH'', ''HEAD'', ''OPTIONS'', ''DELETE'', ''CONNECT'', ''TRACE'']"

definition Server_Run_routes :: engine where
  "Server_Run_routes =
     (let e1 = StaticFS ''/'' ''/web'' ''dist'' engine0;
          e2 = Use_Cors e1;
          g = join_paths ''/'' ''/api'';
          e3 = handle_route g ''GET'' ''/cluster'' ''Cluster'' e2
      in Any g ''/signalling'' ''WsSignalling'' e3)"

definition initFile :: "engine \<Rightarrow> engine" where
  "initFile e =
     (let g = join_paths ''/'' ''file'';
          e1 = handle_route g ''HEAD'' ''/:id'' ''Head'' e;
          e2 = handle_route g ''POST'' ''/upload/pre'' ''PreUpload'' e1
      in StaticFS g ''/file'' ''FileSystem'' e2)"

definition Web_Run_routes :: engine where
  "Web_Run_routes =
     (let e1 = Use_Cors engine0;
          e2 = handle_route ''/'' ''GET'' ''/hello'' ''hello'' e1;
          e3 = handle_route ''/'' ''GET'' ''/hello/:id'' ''hello_id'' e2;
          e4 = StaticFS ''/'' ''/share'' ''share'' e3;
          e5 = handle_route ''/'' ''GET'' ''/data'' ''SendSerisData'' e4;
          e6 = handle_route ''/'' ''GET'' ''/opi5'' ''Image'' e5
      in initFile e6)"

definition RunBrowser_routes :: engine where
  "RunBrowser_routes = StaticFS ''/'' ''/'' ''dist'' (Use_Cors engine0)"

subsection \<open>Handlers\<close>

definition quoted :: "string \<Rightarrow> string" where
  "quoted s = CHR 0x22 # s @ [CHR 0x22]"

definition c_JSON :: "nat \<Rightarrow> string \<Rightarrow> response \<Rightarrow> response" where
  "c_JSON code text r =
     (set_header ''Content-Type'' ''application/json; charset=utf-8'' (set_status code r))
       \<lparr>rs_body := rs_body r @ bytes_of text\<rparr>"

definition hello :: "response \<Rightarrow> response" where
  "hello r = c_JSON 200 (''{'' @ quoted ''msg'' @ '':'' @ quoted ''hello there'' @ ''}'') r"

text \<open>
  \<open>BindUri\<close> answers a parameter that is not a number with the status 400 and writes the header at once, so
  that the later 200 has no effect; the handler does not stop, the id stays 0.
\<close>

definition hello_id :: "string \<Rightarrow> response \<Rightarrow> response" where
  "hello_id param r =
     (case Atoi param of
        Inr i \<Rightarrow> c_JSON 200 (''{'' @ quoted ''id'' @ '':'' @ FormatInt i @ '','' @ quoted ''msg'' @ '':'' @ quoted ''hello there'' @ ''}'') r
      | Inl e \<Rightarrow> c_JSON 400 (''{'' @ quoted ''id'' @ '':0,'' @ quoted ''msg'' @ '':'' @ quoted ''hello there'' @ ''}'') r)"

definition no_route :: "response \<Rightarrow> response" where
  "no_route r = c_JSON 200 (''{'' @ quoted ''msg'' @ '':'' @ quoted ''are you lost?'' @ ''}'') r"

record Resp =
  rp_id :: nat

text \<open>The loop of \<open>SendSerisData\<close>, for \<open>n\<close> in place of \<open>1024 * 4096\<close>, and the JSON text of its slice.\<close>

function seris_loop :: "nat \<Rightarrow> nat \<Rightarrow> Resp list \<Rightarrow> Resp list" where
  "seris_loop n i s = (if i < n then seris_loop n (i + 1) (s @ [\<lparr>rp_id = i\<rparr>]) else s)"
  by pat_completeness auto
termination
  by (relation "measure (\<lambda>(n, i, s). n - i)") auto

declare seris_loop.simps [simp del]

fun json_ids :: "Resp list \<Rightarrow> string" where
  "json_ids [] = []"
| "json_ids [r] = ''{'' @ quoted ''id'' @ '':'' @ FormatUint (rp_id r) @ ''}''"
| "json_ids (r # rs) = ''{'' @ quoted ''id'' @ '':'' @ FormatUint (rp_id r) @ ''},'' @ json_ids rs"

definition SendSerisData :: "response \<Rightarrow> response" where
  "SendSerisData r = c_JSON 200 (''['' @ json_ids (seris_loop (1024 * 4096) 0 []) @ '']'') r"

text \<open>\<open>opened\<close> is the result of opening the image: an error, or the reads that \<open>io.Copy\<close> gets.\<close>

definition Image :: "go_error + (bytes \<times> go_error option) list \<Rightarrow> response \<Rightarrow> response" where
  "Image opened r =
     (case opened of
        Inl e \<Rightarrow> c_String 400 '''' r
      | Inr reads \<Rightarrow>
          (let r1 = set_header ''Content-Type'' ''application/octet-stream'' (set_status 200 r)
           in case io_Copy append_all 0 (rs_body r1) reads of
                CopyDone n e w \<Rightarrow> r1\<lparr>rs_body := w\<rparr>
              | CopyWaits n w \<Rightarrow> r1\<lparr>rs_body := w\<rparr>))"

text \<open>
  \<open>WsSignalling\<close> does not return after a failed upgrade: the handler is started on a nil connection, where
  it panics and recovers.  The response and the connection that is handled, if any.
\<close>

definition WsSignalling :: "(go_error \<Rightarrow> string) \<Rightarrow> go_error + nat \<Rightarrow> response \<Rightarrow> response \<times> nat option" where
  "WsSignalling msg upgraded r =
     (case upgraded of
        Inl e \<Rightarrow> (c_String 400 (''upgrade failed, error:'' @ msg e) r, None)
      | Inr conn \<Rightarrow> (r, Some conn))"

text \<open>The answer of \<open>PreUpload\<close> as a response; \<open>ackJson\<close> is the JSON text of the acknowledgement.\<close>

definition pre_upload_response :: "(UploadAck \<Rightarrow> string) \<Rightarrow> pre_upload \<Rightarrow> response" where
  "pre_upload_response ackJson p =
     (case p of
        PreBad m \<Rightarrow> c_String 400 m response0
      | PreMissing \<Rightarrow> set_status 404 response0
      | PreErr m \<Rightarrow> c_String 400 m response0
      | PreOk ack \<Rightarrow> c_JSON 200 (ackJson ack) response0)"

subsection \<open>Well-formed responses\<close>

text \<open>
  One of the four statuses the handlers use, every header at most once, no body with \<open>404\<close>.
\<close>

definition response_wf :: "response \<Rightarrow> bool" where
  "response_wf r \<longleftrightarrow> rs_status r \<in> {200, 204, 400, 404} \<and> distinct (map fst (rs_headers r))
     \<and> (rs_status r = 404 \<longrightarrow> rs_body r = [])"

named_theorems wf_intros \<open>operations that keep a response well formed\<close>

lemma wf_response0 [wf_intros]: "response_wf response0"
  by (simp add: response_wf_def response0_def)

lemma wf_set_status [wf_intros]: "response_wf r \<Longrightarrow> code \<in> {200, 204, 400, 404} \<Longrightarrow> response_wf (set_status code r)"
  by (auto simp: response_wf_def set_status_def)

lemma wf_set_header [wf_intros]: "response_wf r \<Longrightarrow> response_wf (set_header k v r)"
  by (auto simp: response_wf_def set_header_def distinct_map_filter)

lemma wf_body [wf_intros]: "response_wf r \<Longrightarrow> rs_status r \<noteq> 404 \<Longrightarrow> response_wf (r\<lparr>rs_body := b\<rparr>)"
  by (simp add: response_wf_def)

lemma status_kept [simp]: "rs_status (set_header k v r) = rs_status r" "rs_body (set_header k v r) = rs_body r"
  "rs_body (set_status code r) = rs_body r"
  by (simp_all add: set_header_def set_status_def)

lemma status_set_status: "response_wf r \<Longrightarrow> code \<noteq> 404 \<Longrightarrow> rs_status (set_status code r) \<noteq> 404"
  by (auto simp: response_wf_def set_status_def)

lemma wf_c_String [wf_intros]: "response_wf r \<Longrightarrow> code \<in> {200, 204, 400} \<Longrightarrow> response_wf (c_String code s r)"
  unfolding c_String_def by (intro wf_intros status_set_status) auto

lemma wf_c_JSON [wf_intros]: "response_wf r \<Longrightarrow> code \<in> {200, 204, 400} \<Longrightarrow> response_wf (c_JSON code s r)"
  unfolding c_JSON_def by (intro wf_intros) (auto simp: status_set_status)

lemma wf_Cors: "response_wf r \<Longrightarrow> response_wf (fst (Cors m r))"
  by (auto simp: Cors_def Let_def intro!: wf_intros)

lemma wf_download_body:
  assumes "response_wf r" "download_body start end' sz content msg r = Some r'"
  shows "response_wf r'"
proof -
  have "rs_status (set_status 200 r) \<noteq> 404" using assms(1) by (intro status_set_status) auto
  then show ?thesis
    using assms
    by (auto simp: download_body_def Let_def intro!: wf_intros split: if_splits option.splits copy_result.splits)
qed

lemma wf_Download: "Download ops late msg path rg s d = Some r \<Longrightarrow> response_wf r"
  by (auto simp: Download_def Let_def dest!: wf_download_body [rotated] intro!: wf_intros
      split: sum.splits prod.splits if_splits option.splits)

lemma wf_Image: "response_wf r \<Longrightarrow> response_wf (Image opened r)"
  using status_set_status [of r 200]
  by (auto simp: Image_def Let_def intro!: wf_intros split: sum.splits copy_result.splits)

lemma seris_loop_eq: "seris_loop n i s = s @ map (\<lambda>k. \<lparr>rp_id = k\<rparr>) [i..<n]"
proof (induction n i s rule: seris_loop.induct)
  case (1 n i s)
  then show ?case by (subst seris_loop.simps) (simp add: upt_rec [of i n])
qed

text \<open>
  The routes of a server never clash (gin panics on a second registration), every route of the web
  server carries the cross-origin headers, and the signalling server's static files do not.
\<close>

lemma routes_distinct:
  "distinct (map (\<lambda>r. (rt_method r, rt_pattern r)) (en_routes Server_Run_routes))"
  "distinct (map (\<lambda>r. (rt_method r, rt_pattern r)) (en_routes Web_Run_routes))"
  "distinct (map (\<lambda>r. (rt_method r, rt_pattern r)) (en_routes RunBrowser_routes))"
  by code_simp+

lemma routes_cors:
  "\<forall>r \<in> set (en_routes Web_Run_routes). rt_cors r"
  "\<forall>r \<in> set (en_routes Server_Run_routes). rt_cors r \<longleftrightarrow> rt_handler r \<noteq> ''dist''"
  by code_simp+

text \<open>\<open>Download\<close> is not registered by any server: a file is only served through \<open>FileSystem.Open\<close>.\<close>

lemma download_is_not_routed:
  "''Download'' \<notin> rt_handler ` set (en_routes Web_Run_routes)"
  by code_simp

lemma upgrade_failure: "snd (WsSignalling msg (Inl e) r) = None"
  "fst (WsSignalling msg (Inl e) response0) = c_String 400 (''upgrade failed, error:'' @ msg e) response0"
  by (simp_all add: WsSignalling_def)

subsection \<open>Properties\<close>


end
