(* ===== verification/Logger.thy ===== *)
theory Logger
  imports Puup_Prelude
begin

section \<open>Request logging (\<open>middles/logger.go\<close>)\<close>

text \<open>
  The middleware reads the whole request, gives the handler a \<open>bodyLogWriter\<close> both as the request's body
  and as the response writer, and logs what the buffer holds afterwards.  One \<open>bytes.Buffer\<close> therefore
  serves both directions.  The handler is the sequence of its reads and writes, the response is what the
  wrapped writer received; requests whose URI contains \<open>fetch\<close> are not wrapped.
\<close>

definition MAX_PRINT_BODY_LEN :: nat where
  "MAX_PRINT_BODY_LEN = 512"

subsection \<open>Buffers and strings of the standard library\<close>

text \<open>\<open>bytes.Buffer\<close>: its unread bytes.  \<open>String\<close> of a nil pointer is the text \<open><nil>\<close>.\<close>

definition Buffer_Read :: "bytes \<Rightarrow> nat \<Rightarrow> bytes \<times> go_error option \<times> bytes" where
  "Buffer_Read b n =
     (if b = [] then ([], if n = 0 then None else Some EOF, []) else (take n b, None, drop n b))"

definition Buffer_String :: "bytes option \<Rightarrow> bytes" where
  "Buffer_String b = (case b of None \<Rightarrow> map (\<lambda>c. of_nat (of_char c)) ''<nil>'' | Some bs \<Rightarrow> bs)"

definition Trim_newlines :: "bytes \<Rightarrow> bytes" where
  "Trim_newlines bs = rev (dropWhile (\<lambda>b. b = 10) (rev (dropWhile (\<lambda>b. b = 10) bs)))"

fun Contains :: "string \<Rightarrow> string \<Rightarrow> bool" where
  "Contains [] sub = (sub = [])"
| "Contains (c # cs) sub = (take (length sub) (c # cs) = sub \<or> Contains cs sub)"

subsection \<open>The middleware\<close>

record bodyLogWriter =
  bw_resp :: bytes
  bw_buf :: bytes

definition blw_Write :: "bodyLogWriter \<Rightarrow> bytes \<Rightarrow> bodyLogWriter" where
  "blw_Write w b = w\<lparr>bw_buf := bw_buf w @ b, bw_resp := bw_resp w @ b\<rparr>"

definition blw_Read :: "bodyLogWriter \<Rightarrow> nat \<Rightarrow> bytes \<times> go_error option \<times> bodyLogWriter" where
  "blw_Read w n = (case Buffer_Read (bw_buf w) n of (d, e, b) \<Rightarrow> (d, e, w\<lparr>bw_buf := b\<rparr>))"

definition blw_Close :: "bodyLogWriter \<Rightarrow> go_error option" where
  "blw_Close w = None"

datatype handler_op = HRead nat | HWrite bytes

text \<open>The wrapped handler: the bytes it has read and the writer it leaves.\<close>

fun run_wrapped :: "handler_op list \<Rightarrow> bodyLogWriter \<Rightarrow> bytes \<times> bodyLogWriter" where
  "run_wrapped [] w = ([], w)"
| "run_wrapped (HWrite b # ops) w = run_wrapped ops (blw_Write w b)"
| "run_wrapped (HRead n # ops) w =
     (case blw_Read w n of (d, e, w') \<Rightarrow> (case run_wrapped ops w' of (rd, w'') \<Rightarrow> (d @ rd, w'')))"

text \<open>The same handler on the plain request and response.\<close>

fun run_plain :: "handler_op list \<Rightarrow> bytes \<Rightarrow> bytes \<times> bytes" where
  "run_plain [] body = ([], [])"
| "run_plain (HWrite b # ops) body = (case run_plain ops body of (rd, resp) \<Rightarrow> (rd, b @ resp))"
| "run_plain (HRead n # ops) body =
     (case run_plain ops (drop n body) of (rd, resp) \<Rightarrow> (take n body @ rd, resp))"

definition log_text :: "bytes option \<Rightarrow> bytes" where
  "log_text buf =
     (let strBody = Trim_newlines (Buffer_String buf)
      in if MAX_PRINT_BODY_LEN < length strBody then take (MAX_PRINT_BODY_LEN - 1) strBody else strBody)"

record logged =
  lg_incoming :: "bytes option"
  lg_read :: bytes
  lg_resp :: bytes
  lg_outgoing :: "bytes option"

text \<open>\<open>status\<close> is the response's status after the handler; a nil body reads as nothing.\<close>

definition Logging :: "string \<Rightarrow> bytes option \<Rightarrow> handler_op list \<Rightarrow> nat \<Rightarrow> logged" where
  "Logging uri body ops status =
     (let isFetch = Contains uri ''fetch'';
          buf = (case body of None \<Rightarrow> [] | Some bs \<Rightarrow> bs)
      in if \<not> isFetch then
           (case run_wrapped ops \<lparr>bw_resp = [], bw_buf = buf\<rparr> of (rd, w) \<Rightarrow>
              \<lparr>lg_incoming = Some buf, lg_read = rd, lg_resp = bw_resp w,
               lg_outgoing = Some (log_text (Some (bw_buf w)))\<rparr>)
         else
           (case run_plain ops buf of (rd, resp) \<Rightarrow>
              \<lparr>lg_incoming = None, lg_read = rd, lg_resp = resp,
               lg_outgoing = (if status = 200 then Some (log_text None) else None)\<rparr>))"

subsection \<open>Lemmas\<close>

lemma run_wrapped_HRead:
  "run_wrapped (HRead n # ops) w =
     (let r = run_wrapped ops (w\<lparr>bw_buf := drop n (bw_buf w)\<rparr>) in (take n (bw_buf w) @ fst r, snd r))"
  by (simp add: blw_Read_def Buffer_Read_def Let_def split: prod.split)

lemma run_plain_HRead:
  "run_plain (HRead n # ops) body =
     (take n body @ fst (run_plain ops (drop n body)), snd (run_plain ops (drop n body)))"
  by (simp split: prod.split)

lemma run_plain_HWrite:
  "run_plain (HWrite b # ops) body = (fst (run_plain ops body), b @ snd (run_plain ops body))"
  by (simp split: prod.split)

declare run_wrapped.simps(3) [simp del] run_plain.simps(2,3) [simp del]

lemmas handler_simps = run_wrapped_HRead run_plain_HRead run_plain_HWrite blw_Write_def Let_def

text \<open>
  What a wrapped handler reads and what is left in the buffer are the request followed by everything it
  wrote: the buffer of the request and of the log are the same.
\<close>

lemma run_wrapped_stream:
  "\<exists>wr. bw_resp (snd (run_wrapped ops w)) = bw_resp w @ wr \<and>
     fst (run_wrapped ops w) @ bw_buf (snd (run_wrapped ops w)) = bw_buf w @ wr"
proof (induction ops arbitrary: w)
  case (Cons op ops)
  show ?case
  proof (cases op)
    case (HRead n)
    then show ?thesis
      using Cons [of "w\<lparr>bw_buf := drop n (bw_buf w)\<rparr>"] append_take_drop_id [of n "bw_buf w"]
      by (auto simp: handler_simps)
  next
    case (HWrite b)
    then show ?thesis using Cons [of "blw_Write w b"] by (auto simp: handler_simps)
  qed
qed simp

lemma run_wrapped_resp: "bw_resp (snd (run_wrapped ops w)) = bw_resp w @ snd (run_plain ops body)"
proof (induction ops arbitrary: w body)
  case (Cons op ops)
  show ?case
  proof (cases op)
    case (HRead n)
    then show ?thesis
      using Cons [of "w\<lparr>bw_buf := drop n (bw_buf w)\<rparr>" "drop n body"] by (simp add: handler_simps)
  next
    case (HWrite b)
    then show ?thesis using Cons [of "blw_Write w b" body] by (simp add: handler_simps)
  qed
qed simp

text \<open>A handler that reads before it writes: the shared buffer does not show.\<close>

lemma run_writes [simp]: "fst (run_wrapped (map HWrite ws) w) = []" "fst (run_plain (map HWrite ws) body) = []"
  by (induction ws arbitrary: w) (auto simp: handler_simps)

lemma run_wrapped_reads_first:
  "fst (run_wrapped (map HRead ns @ map HWrite ws) w) = fst (run_plain (map HRead ns @ map HWrite ws) (bw_buf w))"
  by (induction ns arbitrary: w) (simp_all add: handler_simps)

lemma log_text_bound: "length (log_text buf) \<le> MAX_PRINT_BODY_LEN"
  by (simp add: log_text_def Let_def MAX_PRINT_BODY_LEN_def)

subsection \<open>Properties\<close>

text \<open>
  C39: the logged text of a response never exceeds 512 bytes, for every request, handler and status.
\<close>

theorem logged_text_is_bounded:
  "case lg_outgoing (Logging uri body ops status) of
     None \<Rightarrow> Contains uri ''fetch'' \<and> status \<noteq> 200
   | Some t \<Rightarrow> length t \<le> 512"
  using log_text_bound [of None] log_text_bound
  by (auto simp: Logging_def Let_def MAX_PRINT_BODY_LEN_def split: prod.splits option.splits)

text \<open>
  Logging does not change what the client receives, and a handler that reads its request before it
  answers also reads the same.  In general a logged handler reads the request followed by its own
  response: one buffer carries both.
\<close>

theorem logging_is_transparent:
  "lg_resp (Logging uri (Some body) ops status) = snd (run_plain ops body)
   \<and> lg_read (Logging uri (Some body) (map HRead ns @ map HWrite ws) status) =
       fst (run_plain (map HRead ns @ map HWrite ws) body)
   \<and> (\<exists>rest. lg_read (Logging uri (Some body) ops status) @ rest = body @ lg_resp (Logging uri (Some body) ops status)
        \<or> Contains uri ''fetch'')"
proof -
  let ?w = "\<lparr>bw_resp = [], bw_buf = body\<rparr>"
  show ?thesis
    using run_wrapped_resp [of ops ?w body] run_wrapped_reads_first [of ns ws ?w] run_wrapped_stream [of ops ?w]
    by (auto simp: Logging_def Let_def split: prod.splits)
qed

end
