(* ===== verification/File_Client.thy ===== *)
theory File_Client
  imports Port_Proxy Upload
begin

section \<open>The file client (\<open>frontend/file.go\<close>)\<close>

text \<open>
  The client takes jobs from a channel and dials the backend for each.  A pushed file is sent as a line
  with its remote name followed by its content; a pulled one is announced by a line and then written to
  disk.  Operating-system calls are the fields of \<open>fc_env\<close>; what reading an opened file or the connection
  gives is a list of reads, as in the relay; writing to the connection is an argument.
\<close>

record copy_job =
  cj_localName :: string
  cj_remoteName :: string
  cj_mode :: string

record FileClient =
  fc_serverName :: string
  fc_sigAddr :: string
  fc_ch :: "copy_job gochan"

definition NewFileClient :: "Config \<Rightarrow> FileClient" where
  "NewFileClient cfg =
     \<lparr>fc_serverName = cfg_serverName cfg, fc_sigAddr = cfg_sigAddr cfg, fc_ch = make_chan 1\<rparr>"

type_synonym reads = "(bytes \<times> go_error option) list"
type_synonym 's writer = "'s \<Rightarrow> bytes \<Rightarrow> nat \<times> go_error option \<times> 's"

record fc_env =
  fv_open :: "string \<Rightarrow> go_error + reads"
  fv_stat :: "string \<Rightarrow> go_error + bool"
  fv_readDir :: "string \<Rightarrow> go_error + string list"
  fv_create :: "string \<Rightarrow> go_error option"

definition name_bytes :: "string \<Rightarrow> bytes" where
  "name_bytes s = map (\<lambda>c. of_nat (of_char c)) s"

definition bytes_name :: "bytes \<Rightarrow> string" where
  "bytes_name bs = map (\<lambda>b. char_of (unat b)) bs"

subsection \<open>Pushing\<close>

text \<open>The results of the two writes of the name are not looked at.\<close>

definition CopyFs :: "'s writer \<Rightarrow> 's \<Rightarrow> reads \<Rightarrow> string \<Rightarrow> 's copy_result" where
  "CopyFs write conn src dst =
     (case write conn (name_bytes dst) of (_, _, conn1) \<Rightarrow>
        (case write conn1 [10] of (_, _, conn2) \<Rightarrow> io_Copy write 0 conn2 src))"

datatype 's fc_end = FcReturn "go_error option" 's disk | FcWaits 's disk | FcPanics

definition FileClient_CopyFile :: "'s writer \<Rightarrow> fc_env \<Rightarrow> 's \<Rightarrow> string \<Rightarrow> string \<Rightarrow> go_error + 's copy_result" where
  "FileClient_CopyFile write env conn src dst =
     (case fv_open env src of Inl e \<Rightarrow> Inl e | Inr rs \<Rightarrow> Inr (CopyFs write conn rs dst))"

text \<open>The entries of a pushed directory, by their bare names.\<close>

fun push_dir :: "'s writer \<Rightarrow> fc_env \<Rightarrow> 's \<Rightarrow> disk \<Rightarrow> string list \<Rightarrow> 's fc_end" where
  "push_dir write env conn d [] = FcReturn None conn d"
| "push_dir write env conn d (n # ns) =
     (case FileClient_CopyFile write env conn n n of
        Inl e \<Rightarrow> FcReturn (Some e) conn d
      | Inr (CopyWaits k conn') \<Rightarrow> FcWaits conn' d
      | Inr (CopyDone k (Some e) conn') \<Rightarrow> FcReturn (Some e) conn' d
      | Inr (CopyDone k None conn') \<Rightarrow> push_dir write env conn' d ns)"

definition handle_push :: "'s writer \<Rightarrow> fc_env \<Rightarrow> copy_job \<Rightarrow> 's \<Rightarrow> disk \<Rightarrow> 's fc_end" where
  "handle_push write env file conn d =
     (case fv_open env (cj_localName file) of
        Inl e \<Rightarrow> FcReturn (Some e) conn d
      | Inr rs \<Rightarrow>
          (case fv_stat env (cj_localName file) of
             Inl e \<Rightarrow> FcReturn (Some e) conn d
           | Inr isDir \<Rightarrow>
               if \<not> isDir then
                 (case CopyFs write conn rs (cj_remoteName file) of
                    CopyWaits k conn' \<Rightarrow> FcWaits conn' d
                  | CopyDone k e conn' \<Rightarrow> FcReturn e conn' d)
               else (case fv_readDir env (cj_localName file) of
                       Inl e \<Rightarrow> FcReturn (Some e) conn d
                     | Inr names \<Rightarrow> push_dir write env conn d names)))"

subsection \<open>Pulling\<close>

text \<open>
  After the name has been read, every round of the inner loop creates the file anew, copies the
  connection into it up to the next error or end of file and, when that went well, starts over; the loop
  around it is never reached again.
\<close>

fun pull_loop :: "fc_env \<Rightarrow> string \<Rightarrow> reads \<Rightarrow> reads \<Rightarrow> 's \<Rightarrow> disk \<Rightarrow> 's fc_end" where
  "pull_loop env filename cur [] conn d =
     (case fv_create env filename of
        Some e \<Rightarrow> FcReturn (Some e) conn d
      | None \<Rightarrow>
          (case io_Copy (file_write filename) 0 (gm_put filename [] d) cur of
             CopyWaits n d' \<Rightarrow> FcWaits conn d'
           | CopyDone n e d' \<Rightarrow> FcReturn e conn d'))"
| "pull_loop env filename cur ((bs, None) # rs) conn d = pull_loop env filename (cur @ [(bs, None)]) rs conn d"
| "pull_loop env filename cur ((bs, Some e) # rs) conn d =
     (case fv_create env filename of
        Some e' \<Rightarrow> FcReturn (Some e') conn d
      | None \<Rightarrow>
          (case io_Copy (file_write filename) 0 (gm_put filename [] d) (cur @ [(bs, Some e)]) of
             CopyWaits n d' \<Rightarrow> FcWaits conn d'
           | CopyDone n (Some e') d' \<Rightarrow> FcReturn (Some e') conn d'
           | CopyDone n None d' \<Rightarrow> pull_loop env filename [] rs conn d'))"

definition handle_pull :: "fc_env \<Rightarrow> reads \<Rightarrow> 's \<Rightarrow> disk \<Rightarrow> 's fc_end" where
  "handle_pull env rs conn d =
     (case ReadLine [] rs of
        LineWaits \<Rightarrow> FcWaits conn d
      | LineErr e \<Rightarrow> FcReturn (Some e) conn d
      | LineOk line rest \<Rightarrow> pull_loop env (bytes_name line) [] rest conn d)"

subsection \<open>Jobs\<close>

text \<open>
  \<open>dialed\<close> is the result of \<open>Dial\<close>: an error, nothing (the nil connection, on which the first read or
  write panics) or a connection.  The connection is neither released nor closed on any path.
\<close>

definition FileClient_handle ::
  "'s writer \<Rightarrow> fc_env \<Rightarrow> go_error + 's option \<Rightarrow> 's \<Rightarrow> reads \<Rightarrow> copy_job \<Rightarrow> disk \<Rightarrow> 's fc_end" where
  "FileClient_handle write env dialed none rs file d =
     (case dialed of
        Inl e \<Rightarrow> FcReturn (Some e) none d
      | Inr None \<Rightarrow>
          if cj_mode file = ''pull'' then FcPanics
          else if cj_mode file = ''push'' then
            (case handle_push (\<lambda>c bs. (0, None, True)) env file False d of
               FcReturn e touched d' \<Rightarrow> if touched then FcPanics else FcReturn e none d'
             | _ \<Rightarrow> FcPanics)
          else FcReturn None none d
      | Inr (Some conn) \<Rightarrow>
          if cj_mode file = ''pull'' then handle_pull env rs conn d
          else if cj_mode file = ''push'' then handle_push write env file conn d
          else FcReturn None conn d)"

text \<open>
  \<open>Run\<close> over what its \<open>select\<close> finds: the cancelled context, a job with what \<open>handle\<close> returned for it, the
  closed channel.  The logged errors and, when it returns, its own.
\<close>

datatype fc_event = EvDone go_error | EvJob "go_error option" | EvClosed

fun FileClient_Run :: "fc_event list \<Rightarrow> go_error list \<times> go_error option" where
  "FileClient_Run [] = ([], None)"
| "FileClient_Run (EvDone e # evs) = ([], Some e)"
| "FileClient_Run (EvClosed # evs) = ([], Some NetErrClosed)"
| "FileClient_Run (EvJob r # evs) =
     (case FileClient_Run evs of (logs, ret) \<Rightarrow> ((case r of None \<Rightarrow> logs | Some e \<Rightarrow> e # logs), ret))"

subsection \<open>Lemmas\<close>

lemma name_bytes_inverse [simp]: "bytes_name (name_bytes s) = s"
  by (induction s) (simp_all add: bytes_name_def name_bytes_def unsigned_of_nat take_bit_nat_def)

lemma prefix_without:
  assumes "buf @ after = line @ x # tail" "x \<notin> set buf"
  shows "length buf \<le> length line"
proof (rule ccontr)
  assume "\<not> ?thesis"
  then have "buf ! length line = (line @ x # tail) ! length line" "length line < length buf"
    using assms(1) by (metis not_le nth_append, simp)
  then show False using assms(2) by (metis nth_append_length nth_mem)
qed

lemma byte_of_char: "(of_nat (of_char c) :: byte) = of_nat (of_char c') \<longleftrightarrow> c = c'"
proof
  assume "(of_nat (of_char c) :: byte) = of_nat (of_char c')"
  then have "name_bytes [c] = name_bytes [c']" by (simp only: name_bytes_def list.map)
  then show "c = c'" by (metis name_bytes_inverse list.inject)
qed simp

lemma line_ends: "(of_nat (of_char c) :: byte) = 10 \<longleftrightarrow> c = CHR 0x0A"
  "(of_nat (of_char c) :: byte) = 13 \<longleftrightarrow> c = CHR 0x0D"
  using byte_of_char [of c "CHR 0x0A"] byte_of_char [of c "CHR 0x0D"] by simp_all

lemma name_bytes_line:
  assumes "CHR 0x0A \<notin> set s" "s = [] \<or> last s \<noteq> CHR 0x0D"
  shows "10 \<notin> set (name_bytes s)" "strip_line (name_bytes s) = name_bytes s"
proof -
  show "10 \<notin> set (name_bytes s)"
    using assms(1) by (auto simp: name_bytes_def line_ends dest!: sym [of "10 :: byte"])
  show "strip_line (name_bytes s) = name_bytes s"
    using assms(2) by (auto simp: strip_line_def name_bytes_def last_map line_ends)
qed

text \<open>A line is found whatever the segmentation of the stream.\<close>

lemma ReadLine_line:
  assumes "\<forall>r \<in> set rs. snd r = None" "buf @ concat (map fst rs) = line @ 10 # tail"
    "10 \<notin> set line" "length line < 4096" "10 \<notin> set buf"
  shows "\<exists>rest. ReadLine buf rs = LineOk (strip_line line) rest"
  using assms
proof (induction rs arbitrary: buf)
  case Nil
  then show ?case by (metis append_Nil2 concat.simps(1) in_set_conv_decomp list.map(1))
next
  case (Cons r rs)
  obtain bs where r: "r = (bs, None)" using Cons.prems(1) by (cases r) simp
  have eq: "(buf @ bs) @ concat (map fst rs) = line @ 10 # tail" using Cons.prems(2) r by simp
  show ?case
  proof (cases "10 \<in> set (buf @ bs)")
    case True
    then have "takeWhile (\<lambda>b. b \<noteq> 10) (buf @ bs) = takeWhile (\<lambda>b. b \<noteq> 10) ((buf @ bs) @ concat (map fst rs))"
      by (intro takeWhile_append1 [symmetric]) auto
    also have "\<dots> = line" unfolding eq using Cons.prems(3) by (subst takeWhile_append2) auto
    finally show ?thesis using r True by (simp add: Let_def)
  next
    case False
    then have "length (buf @ bs) < 4096" using prefix_without [OF eq] Cons.prems(4) by simp
    moreover obtain rest where "ReadLine (buf @ bs) rs = LineOk (strip_line line) rest"
      using Cons.IH [of "buf @ bs"] Cons.prems eq False by auto
    ultimately show ?thesis using r False by (simp add: Let_def)
  qed
qed

lemma FileClient_Run_logs:
  "FileClient_Run (map EvJob rs @ evs) =
     (List.map_filter id rs @ fst (FileClient_Run evs), snd (FileClient_Run evs))"
  by (induction rs) (auto simp: List.map_filter_def split: option.splits prod.splits)

text \<open>The file that arrived in the first round is truncated by the next one.\<close>

lemma pull_truncates:
  assumes "fv_create env f = None"
  shows "\<exists>d'. pull_loop env f [] [(content, Some EOF), (bs, None)] conn d = FcWaits conn d'
    \<and> gm_get d' f = Some bs"
  using assms by (simp add: file_write_def)

subsection \<open>Properties\<close>

text \<open>
  A pushed file is framed so that a reader of lines recovers its name: the client sends the remote
  name, a newline and the whole content without an error, and however the connection cuts that stream
  into reads, the first line read at the other end is the remote name.  The file server takes that line
  as a JSON request and fails with the parser's error when it is none.
\<close>

theorem pushed_name_is_the_first_line:
  assumes "CHR 0x0A \<notin> set dst" "dst = [] \<or> last dst \<noteq> CHR 0x0D" "length dst < 4096"
    and "\<forall>r \<in> set rs. snd r = None" "concat (map fst rs) = name_bytes dst @ 10 # content"
  shows "CopyFs append_all [] [(content, None), ([], Some EOF)] dst =
      CopyDone (length content) None (concat (map fst rs))
    \<and> (\<exists>rest. ReadLine [] rs = LineOk (name_bytes dst) rest \<and>
        handle_pull fenv rs conn d = pull_loop fenv dst [] rest conn d)
    \<and> (\<forall>e. parse (name_bytes dst) = Inl e \<longrightarrow> File_ServeConn st env parse rs we s d = FsErr e)"
proof (intro conjI)
  show "CopyFs append_all [] [(content, None), ([], Some EOF)] dst =
      CopyDone (length content) None (concat (map fst rs))"
    by (simp only: CopyFs_def append_all_def [of "[]"] append_all_def [of "[] @ name_bytes dst"] prod.case
        io_Copy_append_all) (simp add: assms(5))
  note line = name_bytes_line [OF assms(1,2)]
  obtain rest where rest: "ReadLine [] rs = LineOk (name_bytes dst) rest"
    using ReadLine_line [OF assms(4), of "[]" "name_bytes dst" content] assms(3,5) line
    by (auto simp: name_bytes_def)
  then show "\<exists>rest. ReadLine [] rs = LineOk (name_bytes dst) rest \<and>
      handle_pull fenv rs conn d = pull_loop fenv dst [] rest conn d"
    by (simp add: handle_pull_def)
  show "\<forall>e. parse (name_bytes dst) = Inl e \<longrightarrow> File_ServeConn st env parse rs we s d = FsErr e"
    using rest by (simp add: File_ServeConn_def)
qed

theorem pushed_name_is_the_first_line_witness:
  "\<exists>rest. ReadLine [] [([97], None), ([98, 10, 1], None), ([2], None)] = LineOk (name_bytes ''ab'') rest"
  using pushed_name_is_the_first_line [of "''ab''" "[([97], None), ([98, 10, 1], None), ([2], None)]" "[1, 2]"]
  by (fastforce simp: name_bytes_def)

end
