(* ===== verification/Services.thy ===== *)
theory Services
  imports Listener File_Client
begin

section \<open>The services of a backend and the command-line clients\<close>

text \<open>
  The SSH bridge (\<open>backend/ssh.go\<close>, \<open>frontend/ssh.go\<close>), the configuration file (\<open>config/config.go\<close>) and
  the backend and frontend that start the services (\<open>backend/backend.go\<close>, \<open>frontend/frontend.go\<close>).  The
  SSH and YAML libraries, the terminal, sockets and the operating system are arguments.
\<close>

subsection \<open>SSH\<close>

record SshHeader =
  sh_user :: string
  sh_pass :: string
  sh_key :: bytes

datatype 'k ssh_auth = Password string | PublicKeys 'k

text \<open>
  What the SSH library does: parsing the key, and the errors of dialling (with the user and the
  authentication methods), opening the session, requesting the terminal, starting and awaiting the shell.
\<close>

record 'k ssh_env =
  se_parseKey :: "bytes \<Rightarrow> go_error + 'k"
  se_dial :: "string \<Rightarrow> 'k ssh_auth list \<Rightarrow> go_error option"
  se_session :: "go_error option"
  se_pty :: "go_error option"
  se_shell :: "go_error option"
  se_wait :: "go_error option"

fun first_error :: "string \<Rightarrow> go_error option list \<Rightarrow> go_error option" where
  "first_error st [] = None"
| "first_error st (None # es) = first_error st es"
| "first_error st (Some e # es) = Some (wrap_err st e)"

definition ssh_password :: "SshHeader \<Rightarrow> 'k ssh_auth list" where
  "ssh_password req =
     (if sh_pass req \<noteq> [] then (if sh_pass req \<noteq> ''-nopass'' then [Password (sh_pass req)] else []) else [])"

definition ConnectSsh :: "string \<Rightarrow> 'k ssh_env \<Rightarrow> SshHeader \<Rightarrow> go_error option" where
  "ConnectSsh st env req =
     (let auth = ssh_password req
      in if length (sh_key req) \<noteq> 0 then
           (case se_parseKey env (sh_key req) of
              Inl e \<Rightarrow> Some (wrap_err st e)
            | Inr k \<Rightarrow> first_error st
                [se_dial env (sh_user req) (auth @ [PublicKeys k]), se_session env, se_pty env, se_shell env, se_wait env])
         else first_error st [se_dial env (sh_user req) auth, se_session env, se_pty env, se_shell env, se_wait env])"

text \<open>The servers keep the listener that the backend shares among them.\<close>

record 'l SshServer =
  ss_lis :: 'l

definition NewSshServer :: "Config \<Rightarrow> 'l \<Rightarrow> 'l SshServer" where
  "NewSshServer cfg lis = \<lparr>ss_lis = lis\<rparr>"

record 'l FileServer =
  fs_lis :: 'l

definition NewFileServer :: "Config \<Rightarrow> 'l \<Rightarrow> 'l FileServer" where
  "NewFileServer cfg lis = \<lparr>fs_lis = lis\<rparr>"

record 'l WebServer =
  ws_lis :: 'l

definition NewWebServer :: "Config \<Rightarrow> 'l \<Rightarrow> 'l WebServer" where
  "NewWebServer cfg lis = \<lparr>ws_lis = lis\<rparr>"

text \<open>
  \<open>ServeConn\<close>: the first read is the whole header; an error of the session is logged (first component) and
  not returned (second component).
\<close>

definition Ssh_ServeConn ::
  "string \<Rightarrow> 'k ssh_env \<Rightarrow> (bytes \<Rightarrow> go_error + SshHeader) \<Rightarrow> bytes \<times> go_error option
   \<Rightarrow> go_error option \<times> go_error option" where
  "Ssh_ServeConn st env parse rd =
     (case rd of
        (header, Some e) \<Rightarrow> (None, Some (wrap_err st e))
      | (header, None) \<Rightarrow>
          (case parse header of
             Inl e \<Rightarrow> (None, Some (wrap_err st e))
           | Inr req \<Rightarrow> (ConnectSsh st env req, None)))"

text \<open>
  \<open>AcceptSsh\<close> is not defined in the package.  The logged errors of the sessions and the error with which the
  service ends, \<open>None\<close> while it waits.
\<close>

fun Ssh_Run ::
  "string \<Rightarrow> 'k ssh_env \<Rightarrow> (bytes \<Rightarrow> go_error + SshHeader) \<Rightarrow> (go_error + bytes \<times> go_error option) list
   \<Rightarrow> go_error option list \<times> go_error option" where
  "Ssh_Run st env parse [] = ([], None)"
| "Ssh_Run st env parse (Inl e # as) = ([], Some e)"
| "Ssh_Run st env parse (Inr rd # as) =
     (case Ssh_ServeConn st env parse rd of
        (logged, Some e) \<Rightarrow> ([logged], Some e)
      | (logged, None) \<Rightarrow> (case Ssh_Run st env parse as of (ls, r) \<Rightarrow> (logged # ls, r)))"

text \<open>\<open>strings.TrimSpace\<close> on ASCII text.\<close>

definition is_space :: "char \<Rightarrow> bool" where
  "is_space c \<longleftrightarrow> (of_char c :: nat) \<in> {9, 10, 11, 12, 13, 32}"

definition TrimSpace :: "string \<Rightarrow> string" where
  "TrimSpace s = rev (dropWhile is_space (rev (dropWhile is_space s)))"

definition GetArgsUserPass :: "string list \<Rightarrow> (string \<times> string \<times> string) \<times> go_error option" where
  "GetArgsUserPass args =
     (let sss = filter (\<lambda>v. v \<noteq> []) (map TrimSpace args)
      in if length sss = 0 then (([], [], []), Some (ErrorString ''no user''))
         else
           (let username = (if length sss = 1 \<or> length sss = 2 then sss ! 0 else []);
                pass = (if length sss = 2 then sss ! 1 else []);
                ss = Split username CHR ''@''
            in ((if length ss = 1 then (ss ! 0, ''pi'', pass)
                 else if length ss = 2 then (ss ! 0, ss ! 1, pass)
                 else ([], [], pass)), None)))"

text \<open>
  \<open>SshClient.Run\<close> up to the copying: the header it writes.  Writing to the nil connection that \<open>Dial\<close> can
  return panics.  \<open>askPass\<close> is \<open>GetUserPass\<close>, \<open>marshal\<close> the JSON text of the header.
\<close>

datatype ssh_run = SrErr go_error | SrPanics | SrWaits | SrCopying bytes

definition SshClient_Run ::
  "string \<Rightarrow> 'd dial_result \<Rightarrow> go_error + string \<Rightarrow> (SshHeader \<Rightarrow> go_error + bytes) \<Rightarrow> go_error option
   \<Rightarrow> go_error option \<Rightarrow> string \<Rightarrow> string \<Rightarrow> ssh_run" where
  "SshClient_Run st dial askPass marshal writeErr rawErr user pass0 =
     (case dial of
        DialErr e \<Rightarrow> SrErr e
      | DialPanics \<Rightarrow> SrPanics
      | DialWaits \<Rightarrow> SrWaits
      | _ \<Rightarrow>
          (case (if pass0 = [] then askPass else Inr pass0) of
             Inl e \<Rightarrow> SrErr e
           | Inr pass \<Rightarrow>
               (case marshal \<lparr>sh_user = user, sh_pass = pass, sh_key = []\<rparr> of
                  Inl e \<Rightarrow> SrErr e
                | Inr data \<Rightarrow>
                    (case dial of
                       DialNil \<Rightarrow> SrPanics
                     | _ \<Rightarrow>
                         (case writeErr of
                            Some e \<Rightarrow> SrErr e
                          | None \<Rightarrow> (case rawErr of Some e \<Rightarrow> SrErr (wrap_err st e) | None \<Rightarrow> SrCopying data))))))"

text \<open>\<open>GetUserPass\<close> reads one line of the standard input, or its first 4096 bytes; \<open>None\<close> while it waits.\<close>

definition GetUserPass :: "reads \<Rightarrow> (string \<times> go_error option) option" where
  "GetUserPass stdin =
     (case ReadLine [] stdin of
        LineErr e \<Rightarrow> Some ([], Some e)
      | LineOk buf rest \<Rightarrow> Some (bytes_name buf, None)
      | LineWaits \<Rightarrow> None)"

record SshClient =
  sc_sigAddr :: string

definition NewSshClient :: "string \<Rightarrow> SshClient" where
  "NewSshClient sigAddr = \<lparr>sc_sigAddr = sigAddr\<rparr>"

subsection \<open>Backend and frontend\<close>

text \<open>\<open>readFile\<close> is \<open>os.ReadFile\<close>; \<open>unmarshal\<close> fills the new configuration and may fail half way.\<close>

definition LoadConfig ::
  "(string \<Rightarrow> go_error + bytes) \<Rightarrow> (bytes \<Rightarrow> Config \<times> go_error option) \<Rightarrow> string \<Rightarrow> Config option \<times> go_error option" where
  "LoadConfig readFile unmarshal filename =
     (case readFile filename of
        Inl e \<Rightarrow> (None, Some e)
      | Inr data \<Rightarrow> (case unmarshal data of (c, err) \<Rightarrow> (Some c, err)))"

text \<open>\<open>NewBackend\<close> never makes the channel \<open>close\<close>: it is nil.  The services share one listener.\<close>

record Backend =
  be_proxy :: ProxyServer
  be_close :: "unit gochan option"

datatype 'a made = Made 'a | MakeErr go_error | MakePanics

definition NewBackend ::
  "(string \<Rightarrow> go_error + bytes) \<Rightarrow> (bytes \<Rightarrow> Config \<times> go_error option) \<Rightarrow> string \<Rightarrow> Backend made" where
  "NewBackend readFile unmarshal filename =
     (case LoadConfig readFile unmarshal filename of
        (_, Some e) \<Rightarrow> MakeErr e
      | (None, None) \<Rightarrow> MakePanics
      | (Some cfg, None) \<Rightarrow>
          (case NewProxyServer cfg of
             None \<Rightarrow> MakePanics
           | Some p \<Rightarrow> Made \<lparr>be_proxy = p, be_close = None\<rparr>))"

text \<open>A receive from a nil channel is never ready, closing one panics (\<open>None\<close>).\<close>

definition Backend_Close :: "Backend \<Rightarrow> Backend option" where
  "Backend_Close b =
     (case be_close b of
        None \<Rightarrow> None
      | Some c \<Rightarrow>
          if chan_ready c then Some b
          else (case chan_close c of None \<Rightarrow> None | Some c' \<Rightarrow> Some (b\<lparr>be_close := Some c'\<rparr>)))"

record FrontEnd =
  fe_proxy :: ProxyClient
  fe_file :: FileClient

definition NewFrontEnd ::
  "(string \<Rightarrow> go_error + bytes) \<Rightarrow> (bytes \<Rightarrow> Config \<times> go_error option) \<Rightarrow> string \<Rightarrow> FrontEnd made" where
  "NewFrontEnd readFile unmarshal filename =
     (case LoadConfig readFile unmarshal filename of
        (_, Some e) \<Rightarrow> MakeErr e
      | (None, None) \<Rightarrow> MakePanics
      | (Some cfg, None) \<Rightarrow>
          Made \<lparr>fe_proxy = NewProxyClient cfg SDPTypeOffer,
                fe_file = NewFileClient cfg\<rparr>)"

text \<open>
  Both \<open>Run\<close> functions start their services with \<open>GoFunc\<close> and wait for as many \<open>Done\<close> calls.  A service is
  given by what it has done so far, \<open>None\<close> while it runs.  Errors of services are logged by \<open>GoFunc\<close>.
\<close>

datatype run_state = RunReturns "go_error option" | RunWaits | RunDies

definition wait_services :: "nat \<Rightarrow> go_outcome option list \<Rightarrow> go_effect list \<times> run_state" where
  "wait_services added outs =
     (let effects = map GoFunc (List.map_filter id outs);
          dones = length (filter (\<lambda>r. case r of Some (GfReturns e) \<Rightarrow> True | _ \<Rightarrow> False) outs)
      in (effects, if GeProcessDies \<in> set effects then RunDies
                   else if dones = added then RunReturns None else RunWaits))"

definition Backend_Run ::
  "go_outcome option \<Rightarrow> go_outcome option \<Rightarrow> go_outcome option \<Rightarrow> go_outcome option \<Rightarrow> go_effect list \<times> run_state" where
  "Backend_Run web file ssh proxy = wait_services 4 [web, file, ssh, proxy]"

definition FrontEnd_Run :: "go_outcome option \<Rightarrow> go_outcome option \<Rightarrow> go_effect list \<times> run_state" where
  "FrontEnd_Run file proxy = wait_services 2 [file, proxy]"

subsection \<open>Lemmas\<close>

text \<open>A password of \<open>-nopass\<close> or none is never offered; otherwise it is the only password offered.\<close>

lemma ssh_password_iff:
  "Password p \<in> set (ssh_password req) \<longleftrightarrow> p = sh_pass req \<and> p \<noteq> [] \<and> p \<noteq> ''-nopass''"
  by (auto simp: ssh_password_def)

text \<open>A failed login does not stop the SSH service, an unreadable header does.\<close>

lemma Ssh_Run_survives_logins:
  assumes "\<forall>h \<in> set hs. parse h = Inr (req h)"
  shows "Ssh_Run st env parse (map (\<lambda>h. Inr (h, None)) hs) = (map (\<lambda>h. ConnectSsh st env (req h)) hs, None)"
  using assms by (induction hs) (simp_all add: Ssh_ServeConn_def)

lemma user_at_host:
  assumes "CHR ''@'' \<notin> set u" "CHR ''@'' \<notin> set n" "TrimSpace (u @ ''@'' @ n) = u @ ''@'' @ n"
  shows "GetArgsUserPass [u @ ''@'' @ n] = ((u, n, []), None)"
proof -
  have "Split (u @ ''@'' @ n) CHR ''@'' = [u, n]"
    using assms(1,2) by (simp add: Split_append Split_none)
  then show ?thesis using assms(3) by (simp add: GetArgsUserPass_def Let_def)
qed

lemma Backend_Close_panics: "NewBackend readFile unmarshal filename = Made b \<Longrightarrow> Backend_Close b = None"
  by (auto simp: NewBackend_def Backend_Close_def split: sum.splits option.splits prod.splits)

text \<open>One service that never ends keeps the backend running; a service's error is never returned.\<close>

lemma GoFunc_dies_iff: "GoFunc r = GeProcessDies \<longleftrightarrow> r = GfPanics"
  by (auto simp: GoFunc_def split: go_outcome.splits option.splits)

lemma Backend_Run_returns_iff:
  "snd (Backend_Run web file ssh proxy) = RunReturns e \<longleftrightarrow>
     e = None \<and> (\<forall>r \<in> {web, file, ssh, proxy}. \<exists>e'. r = Some (GfReturns e'))"
proof -
  have "\<exists>f. r = None \<or> r = Some GfPanics \<or> r = Some (GfReturns f)" for r :: "go_outcome option"
    by (cases r) (auto intro: go_outcome.exhaust)
  then have r: "r = None \<or> r = Some GfPanics \<or> (\<exists>f. r = Some (GfReturns f))" for r by blast
  show ?thesis
    using r [of "web"] r [of "file"] r [of "ssh"] r [of "proxy"]
    by (elim disjE exE) (auto simp: Backend_Run_def wait_services_def Let_def List.map_filter_def GoFunc_dies_iff
        eq_commute [of GeProcessDies])
qed

end
