(* ===== verification/Programs.thy ===== *)
theory Programs
  imports Services
begin

section \<open>The programs (\<open>cmd/main.go\<close>, \<open>cmd/client/main.go\<close>, \<open>cmd/ssh/main.go\<close>)\<close>

text \<open>
  The main program rotates its log file, starts the parts its flags name and waits for an interrupt or
  for all of them to end; after an interrupt it gives them a second.  The other programs run one client
  operation each.  Operating system, network and services are arguments; time is in milliseconds.
\<close>

subsection \<open>The log hook and the log file\<close>

record log_entry =
  le_data :: "(string, string) gomap option"
  le_caller :: "(string \<times> nat) option"

definition funcremove_Fire :: "log_entry \<Rightarrow> log_entry \<times> go_error option" where
  "funcremove_Fire e =
     (case le_data e of
        None \<Rightarrow> (e, None)
      | Some data \<Rightarrow>
          (case le_caller e of
             None \<Rightarrow> (e, None)
           | Some (file', line) \<Rightarrow>
               (e\<lparr>le_data := Some (gm_put ''file'' (file' @ '':'' @ FormatUint line) data), le_caller := None\<rparr>, None)))"

record log_config =
  lc_json :: bool
  lc_hooks :: "string list"
  lc_reportCaller :: bool
  lc_level :: string

definition main_Init :: "bool \<Rightarrow> log_config" where
  "main_Init debugLevel =
     \<lparr>lc_json = True, lc_hooks = [''funcremove''], lc_reportCaller = True,
      lc_level = (if debugLevel then ''debug'' else ''info'')\<rparr>"

definition backup_name :: "string \<Rightarrow> string" where
  "backup_name logfile = (let ext = Ext logfile in take (length logfile - length ext) logfile @ ''_bak'' @ ext)"

text \<open>
  \<open>os.Remove\<close> of the old backup, \<open>os.Rename\<close> of the log (their errors are ignored) and \<open>os.Create\<close>, which
  may fail.
\<close>

definition os_Rename :: "string \<Rightarrow> string \<Rightarrow> disk \<Rightarrow> disk" where
  "os_Rename a b d = (case gm_get d a of None \<Rightarrow> d | Some c \<Rightarrow> gm_put b c (gm_del a d))"

definition rotate_log :: "(string \<Rightarrow> go_error option) \<Rightarrow> string \<Rightarrow> disk \<Rightarrow> go_error option \<times> disk" where
  "rotate_log createErr logfile d =
     (let old = backup_name logfile; d1 = gm_del old d; d2 = os_Rename logfile old d1
      in case createErr logfile of
           Some e \<Rightarrow> (Some e, d2)
         | None \<Rightarrow> (None, gm_put logfile [] d2))"

subsection \<open>Starting\<close>

record main_flags =
  fl_runServer :: bool
  fl_runBack :: bool
  fl_runFront :: bool
  fl_runBrowser :: bool
  fl_logfile :: string
  fl_debug :: bool

datatype part = PServer | PBack Backend | PFront FrontEnd | PBrowser

datatype main_start = StartFails | StartPanics | Started "part list"

text \<open>The parts in the order they are started; a failure returns from \<open>main\<close>, whatever runs already.\<close>

definition start_back :: "main_flags \<Rightarrow> Backend made \<Rightarrow> part list \<Rightarrow> main_start" where
  "start_back fl back ps =
     (if fl_runBack fl then
        (case back of MakeErr e \<Rightarrow> StartFails | MakePanics \<Rightarrow> StartPanics | Made b \<Rightarrow> Started (ps @ [PBack b]))
      else Started ps)"

definition start_front :: "main_flags \<Rightarrow> FrontEnd made \<Rightarrow> part list \<Rightarrow> main_start" where
  "start_front fl front ps =
     (if fl_runFront fl then
        (case front of MakeErr e \<Rightarrow> StartFails | MakePanics \<Rightarrow> StartPanics | Made f \<Rightarrow> Started (ps @ [PFront f]))
      else Started ps)"

definition start_parts :: "main_flags \<Rightarrow> Backend made \<Rightarrow> FrontEnd made \<Rightarrow> main_start" where
  "start_parts fl back front =
     (case start_back fl back (if fl_runServer fl then [PServer] else []) of
        Started ps \<Rightarrow>
          (case start_front fl front ps of
             Started ps' \<Rightarrow> Started (ps' @ (if fl_runBrowser fl then [PBrowser] else []))
           | r \<Rightarrow> r)
      | r \<Rightarrow> r)"

definition puup_main ::
  "main_flags \<Rightarrow> (string \<Rightarrow> go_error option) \<Rightarrow> Backend made \<Rightarrow> FrontEnd made \<Rightarrow> disk
   \<Rightarrow> log_config \<times> main_start \<times> disk" where
  "puup_main fl createErr back front d =
     (main_Init (fl_debug fl),
      if fl_logfile fl \<noteq> [] then
        (case rotate_log createErr (fl_logfile fl) d of
           (Some e, d') \<Rightarrow> (StartFails, d')
         | (None, d') \<Rightarrow> (start_parts fl back front, d'))
      else (start_parts fl back front, d))"

subsection \<open>Waiting\<close>

text \<open>
  A running part is given by the time at which it ends: without a cancelled context, and when the context
  is cancelled at a time.  \<open>None\<close> is never.  The wait group is done when all have ended, at once when
  there are none.
\<close>

record running =
  rn_free :: "nat option"
  rn_cancel :: "nat \<Rightarrow> nat option"

fun all_ended :: "nat option list \<Rightarrow> nat option" where
  "all_ended [] = Some 0"
| "all_ended (t # ts) = (case (t, all_ended ts) of (Some a, Some b) \<Rightarrow> Some (max a b) | _ \<Rightarrow> None)"

datatype main_end = EndAllDone | EndForceQuit | EndRuns

text \<open>
  The two \<open>select\<close>s.  \<open>p1\<close> and \<open>p2\<close> resolve them for the interrupt and for the timeout when both of their
  cases become ready together.
\<close>

definition main_wait :: "bool \<Rightarrow> bool \<Rightarrow> nat option \<Rightarrow> running list \<Rightarrow> main_end" where
  "main_wait p1 p2 interrupt parts =
     (case interrupt of
        None \<Rightarrow> (case all_ended (map rn_free parts) of None \<Rightarrow> EndRuns | Some _ \<Rightarrow> EndAllDone)
      | Some t \<Rightarrow>
          if (case all_ended (map rn_free parts) of None \<Rightarrow> False | Some x \<Rightarrow> x < t \<or> x = t \<and> \<not> p1)
          then EndAllDone
          else (case all_ended (map (\<lambda>r. rn_cancel r t) parts) of
                  None \<Rightarrow> EndForceQuit
                | Some x \<Rightarrow> if x < t + 1000 \<or> x = t + 1000 \<and> \<not> p2 then EndAllDone else EndForceQuit))"

text \<open>
  \<open>Server.Run\<close> passes its context to nobody: it ends when listening fails, whether or not it is cancelled.
  The browser's server likewise.
\<close>

definition server_running :: "nat option \<Rightarrow> running" where
  "server_running fails = \<lparr>rn_free = fails, rn_cancel = (\<lambda>_. fails)\<rparr>"

text \<open>The web server of a backend waits for its context and nothing else.\<close>

definition Web_Run_running :: running where
  "Web_Run_running = \<lparr>rn_free = None, rn_cancel = Some\<rparr>"

subsection \<open>The client programs\<close>

text \<open>\<open>Download\<close> of the client program: what it prints.\<close>

definition client_Download ::
  "string \<Rightarrow> go_error + 'q \<Rightarrow> go_error + 't \<Rightarrow> ('t \<Rightarrow> 'q \<Rightarrow> go_error option) \<Rightarrow> go_error option" where
  "client_Download st newRequest newTransport doReq =
     (case newRequest of
        Inl e \<Rightarrow> Some e
      | Inr req \<Rightarrow>
          (case newTransport of
             Inl e \<Rightarrow> Some (wrap_err st e)
           | Inr tp \<Rightarrow> (case doReq tp req of Some e \<Rightarrow> Some (wrap_err st e) | None \<Rightarrow> None)))"

text \<open>
  \<open>Check\<close> compares two files.  \<open>cap\<close> is the capacity of the slice that \<open>io.ReadAll\<close> made for a file, which
  bounds the slices that are printed.
\<close>

datatype check_result = CkErr go_error | CkSame nat nat | CkDiffers nat nat nat | CkPanics

function check_loop :: "(bytes \<Rightarrow> nat) \<Rightarrow> bytes \<Rightarrow> bytes \<Rightarrow> nat \<Rightarrow> check_result" where
  "check_loop cap data1 data2 i =
     (if i < length data1 then
        (if length data2 \<le> i then CkPanics
         else if data1 ! i \<noteq> data2 ! i then
           (if cap data1 < i + 100 \<or> cap data2 < i + 100 then CkPanics
            else CkDiffers (length data1) (length data2) i)
         else check_loop cap data1 data2 (i + 1))
      else CkSame (length data1) (length data2))"
  by pat_completeness auto
termination
  by (relation "measure (\<lambda>(cap, data1, data2, i). length data1 - i)") auto

declare check_loop.simps [simp del]

definition client_Check :: "(bytes \<Rightarrow> nat) \<Rightarrow> (string \<Rightarrow> go_error + go_error + bytes) \<Rightarrow> check_result" where
  "client_Check cap readFile =
     (case readFile ''swi.txt'' of
        Inl e \<Rightarrow> CkErr e
      | Inr r1 \<Rightarrow>
          (case readFile ''swr.txt'' of
             Inl e \<Rightarrow> CkErr e
           | Inr r2 \<Rightarrow>
               (case r1 of
                  Inl e \<Rightarrow> CkErr e
                | Inr data1 \<Rightarrow> (case r2 of Inl e \<Rightarrow> CkErr e | Inr data2 \<Rightarrow> check_loop cap data1 data2 0))))"

text \<open>The ssh program: the error it logs; \<open>run\<close> is \<open>SshClient.Run\<close> on its three arguments.\<close>

definition ssh_main :: "(SshClient \<Rightarrow> string \<Rightarrow> string \<Rightarrow> string \<Rightarrow> go_error option) \<Rightarrow> string list \<Rightarrow> go_error option" where
  "ssh_main run args =
     (let c = NewSshClient ''http://114.115.218.1:8080''
      in case GetArgsUserPass args of
           (_, Some e) \<Rightarrow> Some e
         | ((user, name, pass), None) \<Rightarrow> run c user name pass)"

subsection \<open>Lemmas\<close>

lemma Ext_suffix: "\<exists>a. f = a @ Ext f"
proof -
  let ?P = "\<lambda>c. c \<noteq> CHR ''.'' \<and> c \<noteq> CHR ''/''"
  have split: "takeWhile ?P (rev f) @ dropWhile ?P (rev f) = rev f" by simp
  have drop: "drop (length (takeWhile ?P (rev f))) (rev f) = dropWhile ?P (rev f)"
    by (simp add: dropWhile_eq_drop)
  show ?thesis
  proof (cases "dropWhile ?P (rev f)")
    case Nil
    then show ?thesis unfolding Ext_def Let_def drop Nil by simp
  next
    case (Cons c cs)
    then have f: "f = rev cs @ c # rev (takeWhile ?P (rev f))"
      using arg_cong [OF split, of rev] by simp
    have "Ext f = (if c = CHR ''.'' then c # rev (takeWhile ?P (rev f)) else [])"
      unfolding Ext_def Let_def drop Cons by simp
    then show ?thesis using f by (metis append_Nil2)
  qed
qed

lemma backup_differs: "backup_name f \<noteq> f"
proof
  assume eq: "backup_name f = f"
  obtain a where "f = a @ Ext f" using Ext_suffix by blast
  then have "length (Ext f) \<le> length f" by (metis le_add2 length_append)
  then have "length (backup_name f) = length f + 4" by (simp add: backup_name_def Let_def)
  with eq show False by simp
qed

lemma all_ended_Some:
  "all_ended ts = Some x \<Longrightarrow> (\<forall>t \<in> set ts. \<exists>y \<le> x. t = Some y) \<and> (ts \<noteq> [] \<longrightarrow> Some x \<in> set ts)"
proof (induction ts arbitrary: x)
  case (Cons t ts)
  then obtain a b where ab: "t = Some a" "all_ended ts = Some b" "x = max a b"
    by (auto split: option.splits)
  then show ?case using Cons.IH [OF ab(2)] by (cases "ts = []") (auto simp: max_def)
qed simp

lemma all_ended_None_iff: "all_ended ts = None \<longleftrightarrow> None \<in> set ts"
  by (induction ts) (auto split: option.splits)

lemma check_loop_spec:
  assumes "i \<le> length data1" "i \<le> length data2" "take i data1 = take i data2"
  shows "case check_loop cap data1 data2 i of
      CkSame n m \<Rightarrow> n = length data1 \<and> m = length data2 \<and> take n data2 = data1
    | CkDiffers n m k \<Rightarrow> n = length data1 \<and> m = length data2 \<and> k < n \<and> k < m \<and>
        take k data1 = take k data2 \<and> data1 ! k \<noteq> data2 ! k
    | CkPanics \<Rightarrow> length data2 < length data1 \<and> take (length data2) data1 = data2 \<or>
        (\<exists>k < length data1. k < length data2 \<and> take k data1 = take k data2 \<and> data1 ! k \<noteq> data2 ! k \<and>
           (cap data1 < k + 100 \<or> cap data2 < k + 100))
    | CkErr e \<Rightarrow> False"
  using assms
proof (induction cap data1 data2 i rule: check_loop.induct)
  case (1 cap data1 data2 i)
  show ?case
  proof (cases "i < length data1 \<and> i < length data2 \<and> data1 ! i = data2 ! i")
    case True
    then have "take (i + 1) data1 = take (i + 1) data2" using 1(4) by (simp add: take_Suc_conv_app_nth)
    with True show ?thesis using 1(1) by (subst check_loop.simps) simp
  next
    case False
    consider (ended) "i = length data1" | (short) "i < length data1" "i = length data2"
      | (differ) "i < length data1" "i < length data2" "data1 ! i \<noteq> data2 ! i"
      using False 1(2,3) by linarith
    then show ?thesis
    proof cases
      case differ
      then have "check_loop cap data1 data2 i =
          (if cap data1 < i + 100 \<or> cap data2 < i + 100 then CkPanics else CkDiffers (length data1) (length data2) i)"
        by (subst check_loop.simps) simp
      with differ 1(4) show ?thesis by auto
    qed (use 1(4) in \<open>subst check_loop.simps, simp\<close>)+
  qed
qed

subsection \<open>Properties\<close>

text \<open>
  Rotating the log keeps the previous log as the only backup and touches no other file: afterwards
  the backup holds what the log held (nothing, when there was no log), the log is empty (or absent, when
  it could not be created).
\<close>

theorem log_rotation_keeps_the_previous_log:
  "gm_get (snd (rotate_log createErr f d)) =
     (gm_get d)(backup_name f := gm_get d f, f := (if createErr f = None then Some [] else None))"
proof -
  have "f \<noteq> backup_name f" using backup_differs [of f] by simp
  then show ?thesis
    by (auto simp: rotate_log_def os_Rename_def Let_def fun_eq_iff split: option.splits)
qed

text \<open>
  After an interrupt the program always ends.  It ends in order when every part ends within a second
  of the cancellation, and is forced when some part never ends, in particular whenever the signalling
  server runs, because its \<open>Run\<close> does not listen to the cancelled context.
\<close>

theorem interrupted_program_ends:
  "main_wait p1 p2 (Some t) parts \<noteq> EndRuns
   \<and> ((\<forall>r \<in> set parts. \<exists>x < t + 1000. rn_cancel r t = Some x) \<longrightarrow> main_wait p1 p2 (Some t) parts = EndAllDone)
   \<and> (server_running None \<in> set parts \<longrightarrow> main_wait p1 p2 (Some t) parts = EndForceQuit)"
proof (intro conjI impI)
  show "main_wait p1 p2 (Some t) parts \<noteq> EndRuns"
    by (simp add: main_wait_def split: option.split)
  show "main_wait p1 p2 (Some t) parts = EndAllDone"
    if in_time: "\<forall>r \<in> set parts. \<exists>x < t + 1000. rn_cancel r t = Some x"
  proof -
    let ?ts = "map (\<lambda>r. rn_cancel r t) parts"
    have "None \<notin> set ?ts" using in_time by fastforce
    then obtain x where x: "all_ended ?ts = Some x" using all_ended_None_iff [of ?ts] by auto
    have "x < t + 1000"
    proof (cases "parts = []")
      case False
      then have "Some x \<in> set ?ts" using all_ended_Some [OF x] by simp
      with in_time show ?thesis by fastforce
    qed (use x in simp)
    with x show ?thesis by (simp add: main_wait_def)
  qed
  show "main_wait p1 p2 (Some t) parts = EndForceQuit" if "server_running None \<in> set parts"
  proof -
    have "rn_free (server_running None) = None" "rn_cancel (server_running None) t = None"
      by (simp_all add: server_running_def)
    then have "None \<in> set (map rn_free parts)" "None \<in> set (map (\<lambda>r. rn_cancel r t) parts)"
      using that by (metis image_eqI set_map)+
    then have "all_ended (map rn_free parts) = None" "all_ended (map (\<lambda>r. rn_cancel r t) parts) = None"
      by (simp_all only: all_ended_None_iff)
    then show ?thesis by (simp add: main_wait_def)
  qed
qed

theorem interrupted_program_ends_witness:
  "main_wait True True (Some 5) [Web_Run_running] = EndAllDone
   \<and> main_wait True True (Some 5) [Web_Run_running, server_running None] = EndForceQuit"
  using interrupted_program_ends [of True True 5 "[Web_Run_running]"]
    interrupted_program_ends [of True True 5 "[Web_Run_running, server_running None]"]
  by (simp add: Web_Run_running_def)

text \<open>
  The file comparison reports files as the same only when the first is a prefix of the second, and
  otherwise the first position at which they differ; it panics only when the second file is a proper
  prefix of the first or fewer than 100 bytes are allocated behind the difference.
\<close>

theorem check_reports_the_first_difference:
  "case client_Check cap (\<lambda>f. Inr (Inr (if f = ''swi.txt'' then data1 else data2))) of
      CkSame n m \<Rightarrow> n = length data1 \<and> m = length data2 \<and> take n data2 = data1
    | CkDiffers n m k \<Rightarrow> n = length data1 \<and> m = length data2 \<and> k < n \<and> k < m \<and>
        take k data1 = take k data2 \<and> data1 ! k \<noteq> data2 ! k
    | CkPanics \<Rightarrow> length data2 < length data1 \<and> take (length data2) data1 = data2 \<or>
        (\<exists>k < length data1. k < length data2 \<and> take k data1 = take k data2 \<and> data1 ! k \<noteq> data2 ! k \<and>
           (cap data1 < k + 100 \<or> cap data2 < k + 100))
    | CkErr e \<Rightarrow> False"
  using check_loop_spec [of 0 data1 data2 cap] by (simp add: client_Check_def)

end
