(* ===== verification/Wasm.thy ===== *)
theory Wasm
  imports Clients
begin

section \<open>The browser client (\<open>cmd/wasm/main.go\<close>)\<close>

text \<open>
  The WebAssembly program exports four functions to JavaScript: \<open>base64\<close>, and three that run an HTTP
  request and return a promise.  \<open>GoHttp\<close> (through the tunnel) and \<open>GoHttp1\<close> (through the default client)
  read the whole body before they resolve; \<open>GoHttpAsync\<close> resolves at once with a stream that a goroutine
  fills.  A promise is what \<open>resolve\<close> or \<open>reject\<close> made of it, \<open>Pending\<close> when neither was called.  The body of
  a response is an \<open>io.Reader\<close>: its \<open>Read\<close> and its state are arguments, with the contract of the standard
  library as a locale; \<open>strings.NewReader\<close>, which the program itself uses for request bodies, provides it.
\<close>

subsection \<open>Readers\<close>

type_synonym 'b reader = "'b \<Rightarrow> nat \<Rightarrow> bytes \<times> go_error option \<times> 'b"

text \<open>\<open>io.ReadAll\<close>; \<open>grow k\<close> is the free space of its buffer when it holds \<open>k\<close> bytes.\<close>

partial_function (option) ReadAll ::
  "'b reader \<Rightarrow> (nat \<Rightarrow> nat) \<Rightarrow> 'b \<Rightarrow> bytes \<Rightarrow> (bytes \<times> go_error option) option" where
  "ReadAll rd grow b acc =
     (case rd b (grow (length acc)) of
        (d, None, b') \<Rightarrow> ReadAll rd grow b' (acc @ d)
      | (d, Some e, b') \<Rightarrow> Some (acc @ d, if e = EOF then None else Some e))"

text \<open>\<open>strings.NewReader\<close>: the bytes not yet read.\<close>

definition StringReader_Read :: "bytes reader" where
  "StringReader_Read b n = (if b = [] then ([], Some EOF, []) else (take n b, None, drop n b))"

subsection \<open>JavaScript values\<close>

text \<open>
  \<open>String()\<close> of a value that is not a string is its type in angle brackets, with the text of a primitive.
\<close>

datatype js_val = JsNull | JsUndefined | JsStr string | JsOther string

fun js_String :: "js_val \<Rightarrow> string" where
  "js_String JsNull = ''<null>''"
| "js_String JsUndefined = ''<undefined>''"
| "js_String (JsStr s) = s"
| "js_String (JsOther t) = ''<'' @ t @ ''>''"

datatype 'o js_call = JsPanics | JsReturns 'o

subsection \<open>\<open>encodeWrapper\<close>\<close>

definition b64_alphabet :: string where
  "b64_alphabet = ''ABCDEFGHIJKLMNOPQRSTUVWXYZabcdefghijklmnopqrstuvwxyz0123456789+/''"

definition b64_char :: "nat \<Rightarrow> char" where
  "b64_char i = b64_alphabet ! i"

fun EncodeToString :: "nat list \<Rightarrow> string" where
  "EncodeToString (a # b # c # rest) =
     (let v = a * 65536 + b * 256 + c
      in b64_char (v div 262144 mod 64) # b64_char (v div 4096 mod 64) # b64_char (v div 64 mod 64)
         # b64_char (v mod 64) # EncodeToString rest)"
| "EncodeToString [a, b] =
     (let v = a * 65536 + b * 256
      in [b64_char (v div 262144 mod 64), b64_char (v div 4096 mod 64), b64_char (v div 64 mod 64), CHR ''=''])"
| "EncodeToString [a] =
     (let v = a * 65536
      in [b64_char (v div 262144 mod 64), b64_char (v div 4096 mod 64), CHR ''='', CHR ''=''])"
| "EncodeToString [] = []"

record js_wrapped =
  jw_error :: string
  jw_encoded :: string

definition wasm_wrap :: "string \<Rightarrow> string \<Rightarrow> js_wrapped" where
  "wasm_wrap encoded err = \<lparr>jw_error = err, jw_encoded = encoded\<rparr>"

definition encodeWrapper :: "js_val list \<Rightarrow> js_wrapped" where
  "encodeWrapper args =
     (if length args = 0 then wasm_wrap '''' ''Not enough arguments''
      else wasm_wrap (EncodeToString (map of_char (js_String (args ! 0)))) '''')"

subsection \<open>The request functions\<close>

datatype stream_call = CtlEnqueue bytes | CtlError string | CtlClose

datatype js_response = RespBytes bytes | RespStream "stream_call list option"

datatype promise = Pending | Resolved js_response | Rejected string

datatype 'b do_result = DoErr go_error | DoResp 'b | DoPanics

record fetched =
  ft_promise :: promise
  ft_body_closed :: bool

definition js_data :: "js_val list \<Rightarrow> string" where
  "js_data args = (if 2 < length args \<and> args ! 2 \<noteq> JsNull then js_String (args ! 2) else '''')"

definition js_body :: "string \<Rightarrow> string option" where
  "js_body data = (if data \<noteq> '''' then Some data else None)"

text \<open>
  \<open>newRequest\<close> is \<open>http.NewRequest\<close>, \<open>hc\<close> the client of the tunnel (nil until \<open>Init\<close> has connected), \<open>dflt\<close>
  the default client's \<open>Do\<close>, \<open>msg\<close> the text of an error.  A missing argument is an index out of range; a
  panic of \<open>Do\<close> is recovered in the goroutine, after which nothing settles the promise.
\<close>

definition GoHttp ::
  "(string \<Rightarrow> string \<Rightarrow> string option \<Rightarrow> go_error + 'q) \<Rightarrow> (go_error \<Rightarrow> string) \<Rightarrow> ('q \<Rightarrow> 'b do_result) option
   \<Rightarrow> 'b reader \<Rightarrow> (nat \<Rightarrow> nat) \<Rightarrow> js_val list \<Rightarrow> fetched js_call" where
  "GoHttp newRequest msg hc rd grow args =
     (if length args < 2 then JsPanics
      else JsReturns
        (case newRequest (js_String (args ! 0)) (js_String (args ! 1)) (js_body (js_data args)) of
           Inl e \<Rightarrow> \<lparr>ft_promise = Rejected (msg e), ft_body_closed = False\<rparr>
         | Inr req \<Rightarrow>
             (case hc of
                None \<Rightarrow> \<lparr>ft_promise = Rejected ''connecting ...'', ft_body_closed = False\<rparr>
              | Some do1 \<Rightarrow>
                  (case do1 req of
                     DoErr e \<Rightarrow> \<lparr>ft_promise = Rejected (msg e), ft_body_closed = False\<rparr>
                   | DoPanics \<Rightarrow> \<lparr>ft_promise = Pending, ft_body_closed = False\<rparr>
                   | DoResp b \<Rightarrow>
                       (case ReadAll rd grow b [] of
                          None \<Rightarrow> \<lparr>ft_promise = Pending, ft_body_closed = False\<rparr>
                        | Some (data, Some e) \<Rightarrow> \<lparr>ft_promise = Rejected (msg e), ft_body_closed = True\<rparr>
                        | Some (data, None) \<Rightarrow>
                            \<lparr>ft_promise = Resolved (RespBytes data), ft_body_closed = True\<rparr>)))))"

definition GoHttp1 ::
  "(string \<Rightarrow> string \<Rightarrow> string option \<Rightarrow> go_error + 'q) \<Rightarrow> (go_error \<Rightarrow> string) \<Rightarrow> ('q \<Rightarrow> 'b do_result)
   \<Rightarrow> 'b reader \<Rightarrow> (nat \<Rightarrow> nat) \<Rightarrow> js_val list \<Rightarrow> fetched js_call" where
  "GoHttp1 newRequest msg dflt rd grow args =
     (if length args < 2 then JsPanics
      else JsReturns
        (case newRequest (js_String (args ! 0)) (js_String (args ! 1)) (js_body (js_data args)) of
           Inl e \<Rightarrow> \<lparr>ft_promise = Rejected (msg e), ft_body_closed = False\<rparr>
         | Inr req \<Rightarrow>
             (case dflt req of
                DoErr e \<Rightarrow> \<lparr>ft_promise = Rejected (msg e), ft_body_closed = False\<rparr>
              | DoPanics \<Rightarrow> \<lparr>ft_promise = Pending, ft_body_closed = False\<rparr>
              | DoResp b \<Rightarrow>
                  (case ReadAll rd grow b [] of
                     None \<Rightarrow> \<lparr>ft_promise = Pending, ft_body_closed = False\<rparr>
                   | Some (data, Some e) \<Rightarrow> \<lparr>ft_promise = Rejected (msg e), ft_body_closed = True\<rparr>
                   | Some (data, None) \<Rightarrow>
                       \<lparr>ft_promise = Resolved (RespBytes data), ft_body_closed = True\<rparr>))))"

text \<open>The goroutine behind the stream: the calls of its controller, in order.\<close>

partial_function (option) stream_loop ::
  "'b reader \<Rightarrow> (go_error \<Rightarrow> string) \<Rightarrow> 'b \<Rightarrow> stream_call list \<Rightarrow> stream_call list option" where
  "stream_loop rd msg b evs =
     (case rd b 16384 of (d, err, b') \<Rightarrow>
        if err \<noteq> None \<and> err \<noteq> Some EOF then Some (evs @ [CtlError (msg (the err))])
        else
          (let evs1 = (if 0 < length d then evs @ [CtlEnqueue d] else evs)
           in if err = Some EOF then Some (evs1 @ [CtlClose]) else stream_loop rd msg b' evs1))"

definition GoHttpAsync ::
  "(string \<Rightarrow> string \<Rightarrow> string option \<Rightarrow> go_error + 'q) \<Rightarrow> (go_error \<Rightarrow> string) \<Rightarrow> ('q \<Rightarrow> 'b do_result) option
   \<Rightarrow> 'b reader \<Rightarrow> js_val list \<Rightarrow> fetched js_call" where
  "GoHttpAsync newRequest msg hc rd args =
     (if length args < 2 then JsPanics
      else JsReturns
        (case newRequest (js_String (args ! 0)) (js_String (args ! 1)) (js_body (js_data args)) of
           Inl e \<Rightarrow> \<lparr>ft_promise = Rejected (msg e), ft_body_closed = False\<rparr>
         | Inr req \<Rightarrow>
             (case hc of
                None \<Rightarrow> \<lparr>ft_promise = Rejected ''connecting ...'', ft_body_closed = False\<rparr>
              | Some do1 \<Rightarrow>
                  (case do1 req of
                     DoErr e \<Rightarrow> \<lparr>ft_promise = Rejected (msg e), ft_body_closed = False\<rparr>
                   | DoPanics \<Rightarrow> \<lparr>ft_promise = Pending, ft_body_closed = False\<rparr>
                   | DoResp b \<Rightarrow>
                       \<lparr>ft_promise = Resolved (RespStream (stream_loop rd msg b [])),
                        ft_body_closed = (stream_loop rd msg b [] \<noteq> None)\<rparr>))))"

subsection \<open>\<open>Init\<close>\<close>

text \<open>
  The functions are exported before the transport is created, so calls that come before, or after a
  failure, find no client.
\<close>

record 'p wasm_state =
  wm_exports :: "string list"
  wm_hc :: "'p Transport option"

definition wasm_Init ::
  "string \<Rightarrow> 'p pc_ops \<Rightarrow> (nat \<Rightarrow> Packet \<Rightarrow> go_error option) \<Rightarrow> (string \<Rightarrow> 'p connect_env) \<Rightarrow> string
   \<Rightarrow> js_val \<Rightarrow> 'p wasm_state" where
  "wasm_Init st ops writeJSON env uuid serverName =
     (let exports = [''base64'', ''GoHttp'', ''GoHttp1'', ''GoHttpAsync'']
      in case NewTransport st ops writeJSON env uuid ''http://114.115.218.1:8080'' (js_String serverName) of
           (Some tp, _) \<Rightarrow> \<lparr>wm_exports = exports, wm_hc = Some tp\<rparr>
         | (None, _) \<Rightarrow> \<lparr>wm_exports = exports, wm_hc = None\<rparr>)"

subsection \<open>The contract of \<open>io.Reader\<close>\<close>

text \<open>
  \<open>content b\<close> are the bytes a reader still has, \<open>final b\<close> the error after them: a read returns a piece of
  the content that fits its buffer, makes progress unless it reports the error, and reports it only at the
  end of the content.
\<close>

locale io_reader =
  fixes rd :: "'b reader"
    and content :: "'b \<Rightarrow> bytes"
    and final :: "'b \<Rightarrow> go_error"
  assumes rd_piece: "rd b n = (d, e, b') \<Longrightarrow> content b = d @ content b' \<and> length d \<le> n"
    and rd_progress: "0 < n \<Longrightarrow> rd b n = (d, None, b') \<Longrightarrow> d \<noteq> [] \<and> final b' = final b"
    and rd_final: "rd b n = (d, Some x, b') \<Longrightarrow> content b' = [] \<and> x = final b"
begin

lemma read_all:
  assumes "\<And>k. 0 < grow k"
  shows "ReadAll rd grow b acc = Some (acc @ content b, if final b = EOF then None else Some (final b))"
proof (induction "length (content b)" arbitrary: b acc rule: less_induct)
  case less
  obtain d e b' where r: "rd b (grow (length acc)) = (d, e, b')" by (metis prod_cases3)
  show ?case
  proof (cases e)
    case None
    then have "d \<noteq> []" "final b' = final b" using rd_progress [OF assms] r by auto
    then show ?thesis
      using rd_piece [OF r] less [of b' "acc @ d"] r None by (subst ReadAll.simps) simp
  next
    case (Some x)
    then show ?thesis using rd_piece [OF r] rd_final [of b _ d x b'] r by (subst ReadAll.simps) simp
  qed
qed

text \<open>The stream delivers all of the content when the reader ends well, and a prefix before an error.\<close>

lemma stream_chunks:
  "\<exists>cs. stream_loop rd msg b evs =
      Some (evs @ map CtlEnqueue cs @ [if final b = EOF then CtlClose else CtlError (msg (final b))])
    \<and> (\<forall>c \<in> set cs. c \<noteq> [] \<and> length c \<le> 16384)
    \<and> (\<exists>rest. content b = concat cs @ rest \<and> (final b = EOF \<longrightarrow> rest = []))"
proof (induction "length (content b)" arbitrary: b evs rule: less_induct)
  case less
  obtain d e b' where r: "rd b 16384 = (d, e, b')" by (metis prod_cases3)
  note piece = rd_piece [OF r]
  show ?case
  proof (cases e)
    case None
    then have d: "d \<noteq> []" "final b' = final b" using rd_progress [of 16384 b d b'] r by auto
    then have "length (content b') < length (content b)" using piece by simp
    from less [OF this, of "evs @ [CtlEnqueue d]"] obtain cs rest where
      cs: "stream_loop rd msg b' (evs @ [CtlEnqueue d]) = Some ((evs @ [CtlEnqueue d]) @ map CtlEnqueue cs
            @ [if final b = EOF then CtlClose else CtlError (msg (final b))])"
        "\<forall>c \<in> set cs. c \<noteq> [] \<and> length c \<le> 16384" "content b' = concat cs @ rest" "final b = EOF \<longrightarrow> rest = []"
      unfolding d(2) by blast
    have "stream_loop rd msg b evs = stream_loop rd msg b' (evs @ [CtlEnqueue d])"
      using r None d(1) by (subst stream_loop.simps) simp
    then show ?thesis
      using cs piece d(1) by (intro exI [of _ "d # cs"] conjI) auto
  next
    case (Some x)
    then have x: "content b' = []" "x = final b" using rd_final r by auto
    show ?thesis
    proof (cases "x = EOF")
      case True
      then have "stream_loop rd msg b evs = Some (evs @ map CtlEnqueue (if d = [] then [] else [d]) @ [CtlClose])"
        using r Some by (subst stream_loop.simps) (simp add: Let_def)
      then show ?thesis using piece x True by (intro exI [of _ "if d = [] then [] else [d]"]) auto
    next
      case False
      then have "stream_loop rd msg b evs = Some (evs @ map CtlEnqueue [] @ [CtlError (msg x)])"
        using r Some by (subst stream_loop.simps) simp
      then show ?thesis using x False by (intro exI [of _ "[]"]) auto
    qed
  qed
qed

end

interpretation string_reader: io_reader StringReader_Read "\<lambda>b. b" "\<lambda>_. EOF"
  by unfold_locales (auto simp: StringReader_Read_def split: if_splits)

subsection \<open>Base 64\<close>

definition b64_val :: "char \<Rightarrow> nat" where
  "b64_val c = length (takeWhile (\<lambda>x. x \<noteq> c) b64_alphabet)"

text \<open>Decoding as in RFC 4648, on padded groups of four characters.\<close>

fun b64_decode :: "string \<Rightarrow> nat list" where
  "b64_decode (p # q # r # s # rest) =
     (let v = b64_val p * 262144 + b64_val q * 4096
      in if r = CHR ''='' then [v div 65536]
         else let v' = v + b64_val r * 64
              in if s = CHR ''='' then [v' div 65536, v' div 256 mod 256]
                 else let v'' = v' + b64_val s
                      in v'' div 65536 # v'' div 256 mod 256 # v'' mod 256 # b64_decode rest)"
| "b64_decode _ = []"

lemma b64_table: "\<forall>i < 64. b64_val (b64_char i) = i \<and> b64_char i \<noteq> CHR ''=''"
  by code_simp

lemma b64_val_char [simp]: "i < 64 \<Longrightarrow> b64_val (b64_char i) = i" "i < 64 \<Longrightarrow> b64_char i \<noteq> CHR ''=''"
  using b64_table by blast+

lemma sextets:
  assumes "v < 16777216"
  shows "v div 262144 mod 64 * 262144 + v div 4096 mod 64 * 4096 + v div 64 mod 64 * 64 + v mod 64 = (v :: nat)"
proof -
  have "v = v div 64 * 64 + v mod 64" by simp
  moreover have "v div 64 = v div 4096 * 64 + v div 64 mod 64"
    using div_mult_mod_eq [of "v div 64" 64] by (simp flip: div_mult2_eq)
  moreover have "v div 4096 = v div 262144 * 64 + v div 4096 mod 64"
    using div_mult_mod_eq [of "v div 4096" 64] by (simp flip: div_mult2_eq)
  moreover have "v div 262144 mod 64 = v div 262144" using assms by (simp add: less_mult_imp_div_less)
  ultimately show ?thesis by linarith
qed

lemma digit_256: "c < 256 \<Longrightarrow> (x * 256 + c) div 256 = x \<and> (x * 256 + c) mod 256 = (c :: nat)"
  by simp

lemma octets:
  assumes "v = a * 65536 + b * 256 + (c :: nat)" "a < 256" "b < 256" "c < 256"
  shows "v div 65536 = a" "v div 256 mod 256 = b" "v mod 256 = c" "v < 16777216"
proof -
  have v: "v = (a * 256 + b) * 256 + c" using assms(1) by simp
  have d: "v div 256 = a * 256 + b" "v mod 256 = c" using digit_256 [OF assms(4)] v by blast+
  then show "v mod 256 = c" "v div 256 mod 256 = b" using assms(3) by simp_all
  have "v div 65536 = v div 256 div 256" by (simp flip: div_mult2_eq)
  then show "v div 65536 = a" using digit_256 [OF assms(3)] d(1) by simp
  show "v < 16777216" using assms by simp
qed

lemma no_low_sextets:
  "v mod 256 = 0 \<Longrightarrow> v mod 64 = (0 :: nat)" "v mod 65536 = 0 \<Longrightarrow> v div 64 mod 64 = (0 :: nat) \<and> v mod 64 = 0"
proof -
  show "v mod 64 = 0" if "v mod 256 = 0"
  proof -
    from that obtain k where "v = 256 * k" by auto
    then have "v = 64 * (4 * k)" by simp
    then show ?thesis by (metis mod_mult_self1_is_0)
  qed
  show "v div 64 mod 64 = 0 \<and> v mod 64 = 0" if "v mod 65536 = 0"
  proof -
    from that obtain k where "v = 65536 * k" by auto
    then have "v = 64 * (64 * (16 * k))" by simp
    then have "v mod 64 = 0" "v div 64 = 64 * (16 * k)" by (metis mod_mult_self1_is_0, simp)
    then show ?thesis by (metis mod_mult_self1_is_0)
  qed
qed

text \<open>The values of the characters of a group are opaque below: only their weighted sum matters.\<close>

lemma b64_roundtrip: "\<forall>x \<in> set xs. x < 256 \<Longrightarrow> b64_decode (EncodeToString xs) = xs"
proof (induction xs rule: EncodeToString.induct)
  case (1 a b c rest)
  then obtain v where v: "v = a * 65536 + b * 256 + c" and lt: "a < 256" "b < 256" "c < 256" by simp
  then show ?case
    using 1 octets [OF v lt] sextets [of v] unfolding EncodeToString.simps Let_def v [symmetric]
    by (simp add: Let_def)
next
  case (2 a b)
  then obtain v where v: "v = a * 65536 + b * 256" and lt: "a < 256" "b < 256" by simp
  then have o: "v div 65536 = a" "v div 256 mod 256 = b" "v mod 256 = 0" "v < 16777216"
    using octets [of v a b 0] by simp_all
  then show ?case
    using sextets [of v] no_low_sextets(1) [of v] unfolding EncodeToString.simps Let_def v [symmetric]
    by (simp add: Let_def)
next
  case (3 a)
  then obtain v where v: "v = a * 65536" and lt: "a < 256" by simp
  then have o: "v div 65536 = a" "v mod 65536 = 0" "v < 16777216" by simp_all
  then show ?case
    using sextets [of v] no_low_sextets(2) [of v] unfolding EncodeToString.simps Let_def v [symmetric]
    by (simp add: Let_def)
qed simp

subsection \<open>Properties\<close>

text \<open>
  C29: the buffering and the streaming request deliver the same bytes.  For a response whose body ends
  well \<open>GoHttp\<close> resolves with its whole content, and the stream of \<open>GoHttpAsync\<close> is filled with non-empty
  pieces of at most 16384 bytes whose concatenation is that content, and is then closed; when reading
  fails, \<open>GoHttp\<close> rejects with the error's text and the stream errors with it after a prefix of the
  content.  In each case both close the body.
\<close>

theorem streamed_body_equals_buffered_body:
  assumes "io_reader rd content final" "\<And>k. 0 < grow k" "2 \<le> length args"
    and "newRequest (js_String (args ! 0)) (js_String (args ! 1)) (js_body (js_data args)) = Inr req"
    and "do1 req = DoResp b"
  shows "GoHttp newRequest msg (Some do1) rd grow args =
      JsReturns \<lparr>ft_promise = (if final b = EOF then Resolved (RespBytes (content b)) else Rejected (msg (final b))),
                 ft_body_closed = True\<rparr>
    \<and> (\<exists>cs rest. GoHttpAsync newRequest msg (Some do1) rd args =
        JsReturns \<lparr>ft_promise = Resolved (RespStream (Some (map CtlEnqueue cs @
                     [if final b = EOF then CtlClose else CtlError (msg (final b))]))),
                   ft_body_closed = True\<rparr>
      \<and> (\<forall>c \<in> set cs. c \<noteq> [] \<and> length c \<le> 16384)
      \<and> content b = concat cs @ rest \<and> (final b = EOF \<longrightarrow> rest = []))"
proof
  have n: "\<not> length args < 2" using assms(3) by simp
  show "GoHttp newRequest msg (Some do1) rd grow args =
      JsReturns \<lparr>ft_promise = (if final b = EOF then Resolved (RespBytes (content b)) else Rejected (msg (final b))),
                 ft_body_closed = True\<rparr>"
    using io_reader.read_all [OF assms(1), of grow b "[]"] assms(2) n assms(4,5) by (simp add: GoHttp_def)
  obtain cs rest where "stream_loop rd msg b [] =
      Some (map CtlEnqueue cs @ [if final b = EOF then CtlClose else CtlError (msg (final b))])"
    "\<forall>c \<in> set cs. c \<noteq> [] \<and> length c \<le> 16384" "content b = concat cs @ rest" "final b = EOF \<longrightarrow> rest = []"
    using io_reader.stream_chunks [OF assms(1), of msg b "[]"] by auto
  then show "\<exists>cs rest. GoHttpAsync newRequest msg (Some do1) rd args =
        JsReturns \<lparr>ft_promise = Resolved (RespStream (Some (map CtlEnqueue cs @
                     [if final b = EOF then CtlClose else CtlError (msg (final b))]))),
                   ft_body_closed = True\<rparr>
      \<and> (\<forall>c \<in> set cs. c \<noteq> [] \<and> length c \<le> 16384)
      \<and> content b = concat cs @ rest \<and> (final b = EOF \<longrightarrow> rest = [])"
    using n assms(4,5) by (intro exI [of _ cs] exI [of _ rest]) (simp add: GoHttpAsync_def)
qed

theorem streamed_body_equals_buffered_body_witness:
  "GoHttp (\<lambda>m u b. Inr ()) (\<lambda>_. []) (Some (\<lambda>_. DoResp [1, 2, 3])) StringReader_Read (\<lambda>_. 512) [JsStr ''GET'', JsStr ''/a''] =
     JsReturns \<lparr>ft_promise = Resolved (RespBytes [1, 2, 3]), ft_body_closed = True\<rparr>
   \<and> (\<exists>cs. GoHttpAsync (\<lambda>m u b. Inr ()) (\<lambda>_. []) (Some (\<lambda>_. DoResp [1, 2, 3])) StringReader_Read [JsStr ''GET'', JsStr ''/a''] =
        JsReturns \<lparr>ft_promise = Resolved (RespStream (Some (map CtlEnqueue cs @ [CtlClose]))), ft_body_closed = True\<rparr>
      \<and> concat cs = [1, 2, 3])"
  using streamed_body_equals_buffered_body [OF string_reader.io_reader_axioms,
      of "\<lambda>_. 512" "[JsStr ''GET'', JsStr ''/a'']" "\<lambda>m u b. Inr ()" "()" "\<lambda>_. DoResp [1, 2, 3]" "[1, 2, 3]" "\<lambda>_. []"]
  by auto



text \<open>
  The exported \<open>base64\<close> answers a call with at least one argument with an empty error and a text that
  decodes to the argument's bytes, and a call without one with an error and an empty text.
\<close>

theorem base64_roundtrip:
  "encodeWrapper [] = \<lparr>jw_error = ''Not enough arguments'', jw_encoded = ''''\<rparr>
   \<and> jw_error (encodeWrapper (v # vs)) = ''''
   \<and> map char_of (b64_decode (jw_encoded (encodeWrapper (v # vs)))) = js_String v"
proof -
  have "b64_decode (EncodeToString (map of_char (js_String v))) = map of_char (js_String v)"
    by (rule b64_roundtrip) simp
  then show ?thesis by (simp add: encodeWrapper_def wasm_wrap_def comp_def)
qed

end
