(* ===== verification/Spec2Isabelle.thy ===== *)
theory Spec2Isabelle
  imports Tunnel Duplex Reuse Pool_Race Sig_Conc Relay Server Clients Listener Port_Proxy File_Store Upload Routes Logger Services Programs Wasm
begin

text \<open>
  A verification library for puup, a tunnel over WebRTC data channels.

  The program.  Backends and frontends register with a signalling server (\<open>server/\<close>) over websockets and
  exchange session descriptions and candidates through it (\<open>net/conn/ws-sig*.go\<close>, \<open>proto/\<close>).  A pair of
  peers (\<open>net/conn/peer*.go\<close>, \<open>keepalive.go\<close>) owns a WebRTC connection and a pool of data channels
  (\<open>channel-pool.go\<close>, \<open>channel.go\<close>, \<open>addr.go\<close>).  A channel taken from a pool is wrapped into a connection with
  deadlines (\<open>net/conn.go\<close>); frontends obtain one by dialling or through an HTTP transport (\<open>net/clients.go\<close>,
  \<open>dial.go\<close>, \<open>transport.go\<close>), backends from a listener (\<open>net/listener.go\<close>).  On these connections run the
  forwarded ports, the SSH bridge, the file server and the web server (\<open>backend/\<close>, \<open>frontend/\<close>), the last
  two over a key-value store (\<open>db/\<close>).  The programs under \<open>cmd/\<close> start these parts; \<open>cmd/wasm\<close> offers the
  HTTP transport to a browser.

  The theories, in the order of their dependencies:

  \<^item> \<open>Puup_Prelude\<close>: errors, Go maps (association lists), Go channels with blocking and panicking
    operations, decimal numbers at 64 bits, splitting, slices.
  \<^item> \<open>Transitions\<close>: what step relations share, with the locales \<open>preserved\<close> (an inductive invariant),
    \<open>ranked\<close> (steps that use up a number) and \<open>simulation\<close> (labelled runs against a specification), and
    the specification of a connection, a byte pipe per direction (\<open>pipe_step\<close>).
  \<^item> \<open>Locks\<close>: the read-write lock of the standard library, with the locale \<open>locked\<close> for goroutines that
    enter and leave their critical sections through one lock.
  \<^item> \<open>Stderr\<close> (\<open>stderr/error.go\<close>): wrapped errors.
  \<^item> \<open>Addr\<close> (\<open>net/conn/addr.go\<close>): labels, with the locale \<open>codec\<close> for encoders and decoders.
  \<^item> \<open>Channel\<close> (\<open>net/conn/channel.go\<close>): the receiving queue, buffered reads, batched writes and the life
    cycle of a channel; the transition system \<open>rx_step\<close> interleaves messages, parked deliveries and reads.
    The locale \<open>releaser\<close> is the contract of something that is taken and released.
  \<^item> \<open>Conn\<close> (\<open>net/conn.go\<close>): deadlines, read, write, release and close over any releaser.
  \<^item> \<open>Tunnel\<close>: one direction of a connection from end to end, the composition of \<open>Conn\<close> and \<open>Channel\<close> at
    the sender with the messages in flight and the receiver (\<open>tn_step\<close>); \<open>tn_drain\<close> are its steps without
    the writer, whose number \<open>tn_work\<close> bounds.
  \<^item> \<open>Duplex\<close>: the two ends of a connection, each writing and reading through one channel, with deadlines
    (\<open>dx_step\<close>, labelled by what the users see).  The simulation interpreted there shows that it implements
    the pair of byte pipes; \<open>dx_work\<close> bounds the steps without a writer.
  \<^item> \<open>Reuse\<close>: closing a connection and the next one on its channel.
  \<^item> \<open>Channel_Pool\<close> (\<open>net/conn/channel-pool.go\<close>): the pool over a heap of channels shared by pointer, with the
    transition system \<open>pool_step\<close> of an offering pool.  \<open>Pool_Race\<close>: its operations cut at the lock and inside
    \<open>Get\<close>, run by any number of goroutines (\<open>pool_conc_step\<close>).
  \<^item> \<open>Proto\<close> (\<open>proto/wsl-sig.go\<close>): the signalling messages.  \<open>Urls\<close> (\<open>proto/sig.go\<close>): requests and URLs of
    the HTTP side, with query escaping and the server's reading of a query.
  \<^item> \<open>Registry\<close>: the locale \<open>registry\<close>, the contract of a mutable table, interpreted by the server's table of
    backends and by the listener's table of peers.
  \<^item> \<open>Server\<close> (\<open>server/\<close>): the tables, the websocket handler, and the transition system \<open>srv_step\<close> in which
    connections start, send and end in any order.
  \<^item> \<open>Ws_Sig\<close> (\<open>net/conn/ws-sig*.go\<close>): sessions and the read loop of the signalling client.  \<open>Sig_Conc\<close>: the
    read loop, the peers and the listener's loop interleaved (\<open>sig_step\<close>), against a specification by queues.
  \<^item> \<open>Peer\<close> (\<open>net/conn/peer.go\<close>, \<open>peer-sdp.go\<close>, \<open>keepalive.go\<close>, \<open>ice/config.go\<close>): peers, the states of their
    connections (ordered as the library orders them) and their handshakes.
  \<^item> \<open>Clients\<close> (\<open>net/clients.go\<close>, \<open>client-pool.go\<close>, \<open>transport.go\<close>): tables of peers, dialling, the HTTP round
    trip; a second interpretation of \<open>releaser\<close>, on pointers into the heap.
  \<^item> \<open>Listener\<close> (\<open>net/listener.go\<close>): accepting, the table of peers, closing, the event loop.
  \<^item> \<open>Relay\<close> (\<open>net/conn/go.go\<close>): goroutines, \<open>io.Copy\<close>, copying in both directions.
  \<^item> \<open>Port_Proxy\<close> (\<open>frontend/proxy.go\<close>, \<open>backend/proxy.go\<close>, \<open>config/config.go\<close>): forwarded ports; the two-byte
    header is a second interpretation of \<open>codec\<close>.
  \<^item> \<open>Store\<close> (\<open>db/kv.go\<close>) and \<open>File_Store\<close> (\<open>db/file/\<close>): the key-value store, its JSON documents, files.
  \<^item> \<open>Upload\<close> (\<open>backend/file.go\<close>, \<open>preview/\<close>) and \<open>Web_Api\<close> (\<open>backend/web.go\<close>, \<open>middles/cors.go\<close>): the file
    server and the file handlers of the web server.
  \<^item> \<open>Routes\<close> (\<open>backend/web.go\<close>, \<open>server/server.go\<close>, \<open>server/ws.go\<close>, \<open>browser/browser.go\<close>): what the three HTTP
    servers register and the remaining handlers; well-formed responses.
  \<^item> \<open>Logger\<close> (\<open>middles/logger.go\<close>): the logging middleware against the handler without it.
  \<^item> \<open>File_Client\<close> (\<open>frontend/file.go\<close>): pushing and pulling files, the job loop.
  \<^item> \<open>Services\<close> (\<open>backend/ssh.go\<close>, \<open>frontend/ssh.go\<close>, \<open>backend/backend.go\<close>, \<open>frontend/frontend.go\<close>,
    \<open>config/config.go\<close>): the SSH bridge, loading the configuration, start-up of backend and frontend.
  \<^item> \<open>Programs\<close> (\<open>cmd/main.go\<close>, \<open>cmd/client/main.go\<close>, \<open>cmd/ssh/main.go\<close>): log rotation, starting and shutting
    down, the client programs.
  \<^item> \<open>Wasm\<close> (\<open>cmd/wasm/main.go\<close>): the functions exported to JavaScript, with the locale \<open>io_reader\<close> for the
    bodies they read, interpreted by the string reader the program uses.
  \<^item> This theory: properties of several components together.

  How code becomes definitions.  A struct is a record whose fields carry a short prefix; a method is a
  definition that takes and returns the record.  An error result is \<open>go_error option\<close> or the left side of a
  sum.  A panic is \<open>None\<close> or a constructor of the result type, and so is a call that blocks.  A \<open>select\<close> takes
  its choice as an argument, a \<open>range\<close> over a map its order.  A loop that waits for events runs over the list
  of the events it meets, and the end of the list is the loop that still waits.  A loop that may run for
  ever is a partial function with the value \<open>None\<close> for it: writing with a batch size of 0, the range loop,
  whose counter can overflow (the theorem says exactly for which ranges it returns), and reading a body
  (both readers of a body return for every reader with the contract of \<open>io.Reader\<close>).  There is no fuel.

  Goroutines and locks.  In the theories of single components an operation that holds a lock is one step, and
  where the code splits its critical section (closing the listener) the definitions split too.  What justifies
  this, and where it fails, is the subject of \<open>Pool_Race\<close> and \<open>Sig_Conc\<close>: there the operations are cut into
  the steps between which other goroutines can run, \<open>RWMutex\<close> included, and three kinds of theorems relate
  them to the single steps: run alone they do the same, critical sections held for writing are undisturbed,
  and a section held only for reading (\<open>Get\<close> of the pool) is not.  All calls of the pool
  return under every interleaving; those of the signalling client may not.  Assignments and map operations are still
  indivisible; the memory model of Go is not represented.

  Parameters.  Library code is an argument: pion's data channels and peer connections, websockets, badger,
  the image library and ffmpeg, the SSH library, sockets, the clock, HTTP parsing.  What a theorem
  needs of it is a named hypothesis (\<open>badger_ok\<close>, \<open>codec_keeps\<close>) that its witness discharges on a concrete
  instance.  Identifiers that the sources use but do not declare (\<open>cid\<close> in \<open>GetSession\<close>, \<open>NewPeer\<close>,
  \<open>AcceptFile\<close>, \<open>AcceptProxy\<close>, \<open>AcceptSsh\<close>) are arguments or events as well.  JSON texts are represented by
  their syntax trees (\<open>Store\<close>) or parsed by an argument.

  What is shown.  Data path: a connection refines a pair of byte pipes, under every interleaving at both
  ends no byte is lost, duplicated or reordered in either direction, both directions drain completely in a
  bounded number of steps, \<open>Write\<close> equals a reference loop whatever its data channel does, reads never
  panic, and a first message of one batch is read as a whole, so that the header of a forwarded port and an
  SSH login arrive in one read; what is copied from a connection to a socket is a prefix of what was
  written.  A drained connection leaves its channel as good as new, an undrained one does not, and a closed one
  still reads.  Ownership: a channel handed out by a pool or by \<open>Dial\<close> belongs to its caller, is given back
  once, and an HTTP exchange never leaks it; two concurrent calls of \<open>Get\<close> break this.  Signalling: registrations are those of live connections, packets are routed within
  the cluster, payloads are sorted by peer, under every interleaving of the read loop with the peers that
  receive, an announcement that nobody receives blocks the client for ever, answers go to the caller, one peer answers each caller, and a channel that one side dials
  is the one that the other side's listener accepts.  Wire
  formats: labels, port headers, stored files, signalling URLs, file names and base 64 texts are read back
  as they were written.  Equivalences and bounds: the streamed response of the browser client carries the
  bytes of the buffered one, logging leaves the response alone and logs at most 512 bytes, responses are
  well formed, the program ends after an interrupt.  Errors: what each
  failing operation returns and leaves unchanged.  Several theorems pin down behaviour that the code
  surely does not intend: deadlines that never fire, channels that are never reused, a padded cluster
  query, stale handlers that unregister their successors, an offering peer that cannot hear its answer,
  a server that drops every description, connections that nobody
  dialled, a release that ends the process, a transport that reaches nobody, a store that never inserts, uploads that never write.

  Not modelled: the text of log messages and stack traces, YAML parsing and gin's own matching of routes
  (library code), \<open>cmd/dll\<close> (its \<open>Add\<close> adds two pointers and does not compile, its other function prints
  a line), \<open>cmd/scp\<close> (empty), \<open>rtc\<close> (a structure that nothing uses and an empty function), the older HTTP
  signalling that the sources keep as comments, interface types (\<open>releaser\<close> states the contract of \<open>ReadWriterReleaser\<close>), and a few
  unused declarations (\<open>ProxyHeader\<close>, \<open>DownloadReq\<close>).  Closing is not a step of \<open>Duplex\<close>, whose runs are those of
  one open connection; \<open>Reuse\<close> treats the steps around it.
\<close>

section \<open>Properties that span components\<close>

subsection \<open>From the offering pool to the listener\<close>

lemma offered_channel_filed:
  assumes "get_create st createDC ct key p h = (Inr r, p', h')"
    and "ct \<in> {Web, Proxy, Ssh, File}" "unat (cp_idx p') < 2 ^ 63"
    and "pool_inv (pe_pool q) hq"
    and "gm_get (cp_actives (pe_pool q)) (Label_String (c_label (h' ! r))) = None"
    and "gm_get (cp_idles (pe_pool q)) (Label_String (c_label (h' ! r))) = None"
  shows "\<exists>pool c. c = NewAnswerChannel (cp_cluster (pe_pool q)) (cp_id (pe_pool q)) dc (c_label (h' ! r)) (cp_accept (pe_pool q)) \<and>
    handleChannel st q hq (Label_String (c_label (h' ! r))) dc = HPool None pool (hq @ [c]) \<and>
    pool_inv pool (hq @ [c]) \<and> gm_get (cp_idles pool) (Label_String (c_label (h' ! r))) = Some (length hq)"
proof -
  let ?l = "NewLabel ct (cp_idx p')"
  have lab: "c_label (h' ! r) = ?l"
    using assms(1) by (auto simp: get_create_eq Let_def nth_append new_taken split: sum.splits)
  have known: "ct \<in> set known_types" "Label_String ?l \<noteq> Keepalive" "Label_String ?l \<noteq> Cmd"
    using assms(2) by (auto simp: type_defs Label_String_def NewLabel_def ChannelType_String_def)
  have parse: "parseLabel st (Label_String ?l) = Inr ?l"
    using assms(3) known(1) by (intro label.dec_enc) (simp add: label_dom_def NewLabel_def)
  let ?pool = "(pe_pool q)\<lparr>cp_idles := gm_put (Label_String ?l) (length hq) (cp_idles (pe_pool q))\<rparr>"
  let ?c = "NewAnswerChannel (cp_cluster (pe_pool q)) (cp_id (pe_pool q)) dc ?l (cp_accept (pe_pool q))"
  have open': "OnChannelOpen st (pe_pool q) hq (Label_String ?l) dc = (None, ?pool, hq @ [?c])"
    using assms(5,6) parse by (simp add: OnChannelOpen_def lab)
  with OnChannelOpen_inv [OF assms(4) open'] known lab show ?thesis
    by (simp add: handleChannel_def)
qed

text \<open>
  C19: a channel that one side opens is accepted by the other under the same label: for every channel
  type that pools carry and every index below \<open>2^63\<close>, announcing the channel created by \<open>Get\<close> on the offering
  side to an answering peer that has no channel of that label files an idle channel with exactly the label
  (type and index) of the offered one, and keeps that peer's invariant.
\<close>

theorem offered_channel_is_accepted:
  assumes "get_create st createDC ct key p h = (Inr r, p', h')"
    and "ct \<in> {Web, Proxy, Ssh, File}" "unat (cp_idx p') < 2 ^ 63"
    and "pool_inv (pe_pool q) hq"
    and "gm_get (cp_actives (pe_pool q)) (Label_String (c_label (h' ! r))) = None"
    and "gm_get (cp_idles (pe_pool q)) (Label_String (c_label (h' ! r))) = None"
  shows "\<exists>pool hq'. handleChannel st q hq (Label_String (c_label (h' ! r))) dc = HPool None pool hq' \<and>
    pool_inv pool hq' \<and> gm_get (cp_idles pool) (Label_String (c_label (h' ! r))) = Some (length hq) \<and>
    c_label (hq' ! length hq) = c_label (h' ! r) \<and> c_status (hq' ! length hq) = Idle"
  using offered_channel_filed [OF assms, of dc] by (auto simp: NewAnswerChannel_def newChannel_def)

theorem offered_channel_is_accepted_witness:
  "\<exists>p' h' pool hq'. get_create [] (\<lambda>_. Inr ()) Web [] (NewChannelPool ''u'' [] ''b'' SDPTypeOffer) [] = (Inr 0, p', h') \<and>
     handleChannel [] (newPeer ''v'' () ''u'' ''f'' SDPTypeAnswer) ([] :: unit heap) (Label_String (c_label (h' ! 0))) ()
       = HPool None pool hq' \<and>
     c_label (hq' ! 0) = NewLabel Web 1"
proof -
  let ?q = "newPeer ''v'' () ''u'' ''f'' SDPTypeAnswer"
  obtain p' h' where get: "get_create [] (\<lambda>_. Inr ()) Web [] (NewChannelPool ''u'' [] ''b'' SDPTypeOffer) [] = (Inr 0, p', h')"
    and p': "cp_idx p' = 1" "c_label (h' ! 0) = NewLabel Web 1"
    by (simp add: get_create_eq Let_def NewChannelPool_def new_taken)
  have "pool_inv (pe_pool ?q) ([] :: unit heap)" "cp_actives (pe_pool ?q) = []" "cp_idles (pe_pool ?q) = []"
    by (simp_all add: pool_inv_def newPeer_def NewChannelPool_def)
  with offered_channel_is_accepted [OF get, of ?q "[]" "()"] get p' show ?thesis by auto
qed

text \<open>
  An offering peer can never hear its answer: it waits on the session of the empty peer id, and
  whatever packets the signalling client of a frontend receives (also packets that name this peer's own
  id), that session's description and candidate channels stay empty and open.
\<close>

theorem offering_peer_never_hears_its_answer:
  assumes "NewOfferPeer st uuid pcRes dcErr remoteClientId = Inr p"
    and "fst (Run cid (NewWsFrontendSigClient sigId url name) dial writeHeader evs) = c"
    and "RemoteSdp cid c (cp_remoteId (pe_pool p)) = Some (sdp, c1)"
    and "RemoteIceCandidates cid c (cp_remoteId (pe_pool p)) = Some (ice, c2)"
  shows "chan_recv sdp = RecvBlocks \<and> chan_recv ice = RecvBlocks"
proof -
  have rid: "cp_remoteId (pe_pool p) = ''''"
    using assms(1) by (auto simp: NewOfferPeer_def newPeer_def NewChannelPool_def split: sum.splits option.splits)
  have "gm_get (wc_sessions c) '''' = None"
    using Run_empty_id [of cid "NewWsFrontendSigClient sigId url name" dial writeHeader evs] assms(2)
    by (simp add: NewWsFrontendSigClient_def NewWsSigClient_def)
  then have "GetSession cid c '''' = Some (s, c') \<Longrightarrow> s = NewSession ''''" for s c'
    by (auto simp: GetSession_def Let_def split: option.splits)
  with assms(3,4) rid show ?thesis
    by (auto simp: RemoteSdp_def RemoteIceCandidates_def NewSession_def chan_recv_def make_chan_def)
qed

theorem offering_peer_never_hears_its_answer_witness:
  "\<exists>p sdp c1. NewOfferPeer [] ''u'' (Inr ()) None ''b'' = Inr p \<and>
     RemoteSdp [] (fst (Run [] (NewWsFrontendSigClient ''s'' ''ws'' ''pi'') (Inr 0) (\<lambda>_ _. None)
        [EvPacket \<lparr>pk_from = \<lparr>pc_clientId = ''b'', pc_peerId = ''v''\<rparr>, pk_to = \<lparr>pc_clientId = ''s'', pc_peerId = ''u''\<rparr>,
            pk_sdp = Some \<lparr>sd_type = SDPTypeAnswer, sd_sdp = ''a''\<rparr>, pk_ice = None\<rparr>])) (cp_remoteId (pe_pool p)) = Some (sdp, c1) \<and>
     chan_recv sdp = RecvBlocks"
proof -
  let ?c = "fst (Run [] (NewWsFrontendSigClient ''s'' ''ws'' ''pi'') (Inr 0) (\<lambda>_ _. None)
        [EvPacket \<lparr>pk_from = \<lparr>pc_clientId = ''b'', pc_peerId = ''v''\<rparr>, pk_to = \<lparr>pc_clientId = ''s'', pc_peerId = ''u''\<rparr>,
            pk_sdp = Some \<lparr>sd_type = SDPTypeAnswer, sd_sdp = ''a''\<rparr>, pk_ice = None\<rparr>])"
  obtain p where p: "NewOfferPeer [] ''u'' (Inr ()) None ''b'' = Inr p" "cp_remoteId (pe_pool p) = ''''"
    by (simp add: NewOfferPeer_def newPeer_def NewChannelPool_def)
  obtain s c1 where get: "GetSession [] ?c '''' = Some (s, c1)"
    by (simp add: Run_def Let_def Run_packet_def GetSession_def OnSession_def NewWsFrontendSigClient_def NewWsSigClient_def
        NewSession_def deliver_def OnIceCandidate_def OnSdp_def go_simps put_session_def gm_put_def gm_del_def)
  then have "RemoteSdp [] ?c (cp_remoteId (pe_pool p)) = Some (sg_sdp s, c1)"
    "RemoteIceCandidates [] ?c (cp_remoteId (pe_pool p)) = Some (sg_ice s, c1)"
    by (simp_all add: RemoteSdp_def RemoteIceCandidates_def p(2))
  with offering_peer_never_hears_its_answer [OF p(1) refl, of "[]"] p show ?thesis by blast
qed

text \<open>
  C6: a forwarded port arrives.  A frontend that opens a connection with the header of a port other than 0
  is served by the backend's proxy on that port: whatever is written afterwards and however sending,
  delivery and the accept queue interleave, the proxy's read of two bytes waits or returns exactly the
  header, and the proxy then dials its own address with the frontend's port and forwards to it.
\<close>

theorem forwarded_port_crosses_the_tunnel:
  assumes "tn_ready c d" "port \<noteq> 0"
    and "Conn_Write (Channel_Write st wire_send pick) (NewConn c) (PutUint16 port) = CnWrote k None c1"
    and "tn_step\<^sup>*\<^sup>* ((tn_start c d)\<lparr>tn_tx := c1, tn_written := PutUint16 port\<rparr>) s"
    and "rx_out (tn_rx s) = []" "c_status (rx_ch (tn_rx s)) = Active"
  shows "case Conn_Read Channel_Read now waited pick' (NewConn (rx_ch (tn_rx s))) 2 of
      CnPanics \<Rightarrow> False
    | CnBlocks _ \<Rightarrow> True
    | CnRead header e _ \<Rightarrow>
        Proxy_ServeConn st dial p (header, e) =
          (case dial (proxy_addr p port) of None \<Rightarrow> PsForward (proxy_addr p port) | Some er \<Rightarrow> PsErr (wrap_err st er))"
proof -
  have small: "small (PutUint16 port)" "length (PutUint16 port) \<le> 2" "length (PutUint16 port) = 2"
    by (simp_all add: small_def PutUint16_def)
  show ?thesis
    using first_conn_read [OF assms(1) small(1) assms(3-6) small(2), of now waited pick'] assms(2) small(3)
    by (auto simp: Proxy_ServeConn_def Let_def Uint16_PutUint16)
qed

theorem forwarded_port_crosses_the_tunnel_witness:
  "\<exists>c d c1 k s. tn_ready c d \<and>
     Conn_Write (Channel_Write [] wire_send (\<lambda>_. True)) (NewConn c) (PutUint16 8080) = CnWrote k None c1 \<and>
     tn_step\<^sup>*\<^sup>* ((tn_start c d)\<lparr>tn_tx := c1, tn_written := PutUint16 8080\<rparr>) s \<and>
     (case Conn_Read Channel_Read 0 0 True (NewConn (rx_ch (tn_rx s))) 2 of
        CnPanics \<Rightarrow> False
      | CnBlocks _ \<Rightarrow> True
      | CnRead header e _ \<Rightarrow>
          Proxy_ServeConn [] (\<lambda>_. None) \<lparr>pxs_localAddr = ''127.0.0.1'', pxs_ports = []\<rparr> (header, e) =
            PsForward (proxy_addr \<lparr>pxs_localAddr = ''127.0.0.1'', pxs_ports = []\<rparr> 8080))"
proof -
  have small: "small (PutUint16 8080)" by (simp add: small_def PutUint16_def)
  obtain c d c1 k s where s: "tn_ready c d"
    "Conn_Write (Channel_Write [] wire_send (\<lambda>_. True)) (NewConn c) (PutUint16 8080) = CnWrote k None c1"
    "tn_step\<^sup>*\<^sup>* ((tn_start c d)\<lparr>tn_tx := c1, tn_written := PutUint16 8080\<rparr>) s"
    "rx_out (tn_rx s) = []" "c_status (rx_ch (tn_rx s)) = Active"
    by (rule first_message_example [OF small])
  have "case Conn_Read Channel_Read 0 0 True (NewConn (rx_ch (tn_rx s))) 2 of
        CnPanics \<Rightarrow> False
      | CnBlocks _ \<Rightarrow> True
      | CnRead header e _ \<Rightarrow>
          Proxy_ServeConn [] (\<lambda>_. None) \<lparr>pxs_localAddr = ''127.0.0.1'', pxs_ports = []\<rparr> (header, e) =
            PsForward (proxy_addr \<lparr>pxs_localAddr = ''127.0.0.1'', pxs_ports = []\<rparr> 8080)"
    using forwarded_port_crosses_the_tunnel [OF s(1) _ s(2-5), where dial = "\<lambda>_. None" and now = 0 and waited = 0
        and pick' = True and p = "\<lparr>pxs_localAddr = ''127.0.0.1'', pxs_ports = []\<rparr>"] by (simp split: conn_read.splits)
  with s(1-3) show ?thesis by blast
qed

text \<open>
  C28: an SSH login arrives.  What \<open>SshClient.Run\<close> of a frontend writes first, the JSON text of its header,
  of at most 1024 bytes, reaches the backend's SSH service in one read, whatever is typed and sent
  afterwards: the service waits or starts the session with exactly the user and the password that the
  client was given.  The JSON library is assumed to read back this header.
\<close>

theorem ssh_login_crosses_the_tunnel:
  assumes "tn_ready c d"
    and "SshClient_Run st (DialConn conn) askPass marshal None None user pass = SrCopying data"
    and "\<And>req. marshal req = Inr data \<Longrightarrow> parse data = Inr req" "data \<noteq> []" "length data \<le> 1024"
    and "Conn_Write (Channel_Write st wire_send pick) (NewConn c) data = CnWrote k None c1"
    and "tn_step\<^sup>*\<^sup>* ((tn_start c d)\<lparr>tn_tx := c1, tn_written := data\<rparr>) s"
    and "rx_out (tn_rx s) = []" "c_status (rx_ch (tn_rx s)) = Active"
  shows "case Conn_Read Channel_Read now waited pick' (NewConn (rx_ch (tn_rx s))) 1024 of
      CnPanics \<Rightarrow> False
    | CnBlocks _ \<Rightarrow> True
    | CnRead header e _ \<Rightarrow>
        \<exists>pw. (if pass = [] then askPass else Inr pass) = Inr pw \<and>
          Ssh_ServeConn st env parse (header, e) =
            (ConnectSsh st env \<lparr>sh_user = user, sh_pass = pw, sh_key = []\<rparr>, None)"
proof -
  obtain pw where pw: "(if pass = [] then askPass else Inr pass) = Inr pw"
    "marshal \<lparr>sh_user = user, sh_pass = pw, sh_key = []\<rparr> = Inr data"
    using assms(2) by (auto simp: SshClient_Run_def split: sum.splits)
  have "small data" using assms(4,5) by (simp add: small_def)
  from first_conn_read [OF assms(1) this assms(6-9,5), of now waited pick'] show ?thesis
    using pw assms(3) [OF pw(2)] by (auto simp: Ssh_ServeConn_def)
qed

theorem ssh_login_crosses_the_tunnel_witness:
  "\<exists>c d c1 k s. tn_ready c d \<and>
     Conn_Write (Channel_Write [] wire_send (\<lambda>_. True)) (NewConn c) [112, 105] = CnWrote k None c1 \<and>
     tn_step\<^sup>*\<^sup>* ((tn_start c d)\<lparr>tn_tx := c1, tn_written := [112, 105]\<rparr>) s \<and>
     (case Conn_Read Channel_Read 0 0 True (NewConn (rx_ch (tn_rx s))) 1024 of
        CnPanics \<Rightarrow> False
      | CnBlocks _ \<Rightarrow> True
      | CnRead header e _ \<Rightarrow>
          Ssh_ServeConn [] \<lparr>se_parseKey = \<lambda>_. Inr (), se_dial = \<lambda>u a. None, se_session = None, se_pty = None,
                            se_shell = None, se_wait = None\<rparr>
            (\<lambda>_. Inr \<lparr>sh_user = ''pi'', sh_pass = ''x'', sh_key = []\<rparr>) (header, e) = (None, None))"
proof -
  let ?req = "\<lparr>sh_user = ''pi'', sh_pass = ''x'', sh_key = []\<rparr>"
  let ?marshal = "\<lambda>r. if r = ?req then Inr [112, 105 :: byte] else Inl EOF"
  let ?env = "\<lparr>se_parseKey = \<lambda>_. Inr (), se_dial = \<lambda>u a. None, se_session = None, se_pty = None,
      se_shell = None, se_wait = None\<rparr> :: unit ssh_env"
  have small: "small [112, 105 :: byte]" by (simp add: small_def)
  obtain c d c1 k s where s: "tn_ready c d"
    "Conn_Write (Channel_Write [] wire_send (\<lambda>_. True)) (NewConn c) [112, 105] = CnWrote k None c1"
    "tn_step\<^sup>*\<^sup>* ((tn_start c d)\<lparr>tn_tx := c1, tn_written := [112, 105]\<rparr>) s"
    "rx_out (tn_rx s) = []" "c_status (rx_ch (tn_rx s)) = Active"
    by (rule first_message_example [OF small])
  have run: "SshClient_Run [] (DialConn (undefined :: unit chan_ptr Conn)) (Inr ''x'') ?marshal None None ''pi'' ''x'' =
      SrCopying [112, 105]"
    by (simp add: SshClient_Run_def)
  have keeps: "\<And>req. ?marshal req = Inr [112, 105] \<Longrightarrow> (\<lambda>_ :: bytes. Inr ?req :: go_error + SshHeader) [112, 105] = Inr req"
    by (simp split: if_splits)
  have "ConnectSsh [] ?env ?req = None" by (simp add: ConnectSsh_def)
  then have "case Conn_Read Channel_Read 0 0 True (NewConn (rx_ch (tn_rx s))) 1024 of
        CnPanics \<Rightarrow> False
      | CnBlocks _ \<Rightarrow> True
      | CnRead header e _ \<Rightarrow> Ssh_ServeConn [] ?env (\<lambda>_. Inr ?req) (header, e) = (None, None)"
    using ssh_login_crosses_the_tunnel [OF s(1) run keeps _ _ s(2-5), where env = ?env
        and now = 0 and waited = 0 and pick' = True] by (simp split: conn_read.splits)
  with s(1-3) show ?thesis by blast
qed

text \<open>
  C23: no description leaves the server.  In every reachable state of the signalling server, the packets
  that \<open>SendOffer\<close> or \<open>SendAnswer\<close> of a peer produce, arriving on its client's websocket, are all dropped, as
  long as no client of the other role uses the sender's own id: the peers put their own id into
  \<open>From.ClientId\<close>, and that is the id by which the server looks up the receiver.
\<close>

theorem descriptions_are_dropped_by_the_server:
  assumes "srv_reach tstr s"
    and "SendOffer st ops sigId send p = (p', e, out) \<or> SendAnswer st ops sigId send p = (p', e, out)"
    and "\<And>c h'. gm_get (sy_live s) c = Some h' \<Longrightarrow> wh_id h' = sigId \<Longrightarrow> wh_type h' = wh_type h"
  shows "HandleWs_loop w (sy_srv s) h (map Inr out) = (WsWaiting, [])"
proof -
  have inv: "srv_inv s" using assms(1) by (rule srv_reach_inv)
  have only: "\<not> entry_ok (sy_live s) t n sigId cl" if "t \<noteq> wh_type h" for t n cl
    using assms(3) that by (fastforce simp: entry_ok_def)
  have none: "GetFrontend (wh_name h) sigId (sy_srv s) = None" if "wh_type h = SDPTypeAnswer"
    using inv only [of SDPTypeOffer "wh_name h"] that unfolding srv_inv_def by (metis SDPType.distinct(1) not_None_eq)
  have none': "GetBackend (wh_name h) sigId (sy_srv s) = None" if "wh_type h = SDPTypeOffer"
    using inv only [of SDPTypeAnswer "wh_name h"] that unfolding srv_inv_def by (metis SDPType.distinct(1) not_None_eq)
  have drop: "HandleWs_packet w (sy_srv s) h pkt = WsDropped" if "pc_clientId (pk_from pkt) = sigId" for pkt
    using none none' that by (auto simp: HandleWs_packet_def Let_def split: SDPType.split)
  have "\<forall>pkt \<in> set out. pc_clientId (pk_from pkt) = sigId"
    using assms(2)
    by (auto simp: SendOffer_def SendAnswer_def Let_def sdp_packet_def split: sum.splits prod.splits option.splits)
  with drop show ?thesis by (induction out) auto
qed

theorem descriptions_are_dropped_by_the_server_witness:
  "\<exists>p' e pkt. SendOffer [] demo_ops ''f'' (\<lambda>_. None) (newPeer ''u'' () '''' ''b'' SDPTypeOffer) = (p', e, [pkt]) \<and>
     HandleWs_loop (\<lambda>_ _. None) (sy_srv sys_bf) hdr_f [Inr pkt] = (WsWaiting, [])"
proof -
  obtain p' e pkt where out: "SendOffer [] demo_ops ''f'' (\<lambda>_. None) (newPeer ''u'' () '''' ''b'' SDPTypeOffer) = (p', e, [pkt])"
    by (simp add: SendOffer_def demo_ops_def Let_def)
  have "gm_get (sy_live sys_bf) c = Some h' \<Longrightarrow> wh_id h' = ''f'' \<Longrightarrow> wh_type h' = wh_type hdr_f" for c h'
    by (auto simp: sys_bf_def hdr_f_def hdr_b_def split: if_splits)
  from descriptions_are_dropped_by_the_server [OF sys_bf_reach disjI1 [OF out] this, where w = "\<lambda>_ _. None"] out
  show ?thesis by auto
qed

text \<open>
  C18: a dialled channel reaches the listener.  The channel that \<open>Get\<close> opens on the offering side is filed by
  the answering peer; once it is open, its first message makes the next \<open>Accept\<close> of the listener return a
  connection on exactly this channel, with the label of the offered one, and the first read of that
  connection returns exactly the message.
\<close>

theorem dialled_channel_reaches_the_listener:
  assumes "get_create st createDC ct key p h = (Inr r, p', h')"
    and "ct \<in> {Web, Proxy, Ssh, File}" "unat (cp_idx p') < 2 ^ 63"
    and "pool_inv (pe_pool q) hq" "cp_accept (pe_pool q)"
    and "gm_get (cp_actives (pe_pool q)) (Label_String (c_label (h' ! r))) = None"
    and "gm_get (cp_idles (pe_pool q)) (Label_String (c_label (h' ! r))) = None"
    and "small m" "length m \<le> n" "li_accept l = make_chan 100" "\<not> chan_ready (li_close l)"
  shows "\<exists>pool hq' c acc' l' c'. handleChannel st q hq (Label_String (c_label (h' ! r))) dc = HPool None pool hq'
    \<and> Channel_OnMessage pick (length hq) (li_accept l) (Channel_onOpen (hq' ! length hq)) m = (MsgDone c, acc')
    \<and> Listener_Accept pick' (l\<lparr>li_accept := acc'\<rparr>) = AcConn (NewConn (length hq)) l'
    \<and> li_accept l' = make_chan 100 \<and> c_label c = c_label (h' ! r)
    \<and> Conn_Read Channel_Read now waited pick'' (NewConn c) n = CnRead m None c'"
proof -
  let ?c = "NewAnswerChannel (cp_cluster (pe_pool q)) (cp_id (pe_pool q)) dc (c_label (h' ! r)) (cp_accept (pe_pool q))"
  obtain pool where filed: "handleChannel st q hq (Label_String (c_label (h' ! r))) dc = HPool None pool (hq @ [?c])"
    using offered_channel_filed [OF assms(1-4,6,7), of dc] by blast
  have up: "chan_up (Channel_onOpen ?c)" "c_status (Channel_onOpen ?c) = Idle"
    by (simp_all add: chan_up_def)
      (simp_all add: Channel_onOpen_def NewAnswerChannel_def newChannel_def chan_close_def)
  have accept: "c_type (Channel_onOpen ?c) = SDPTypeAnswer" "c_accept (Channel_onOpen ?c)"
    "c_label (Channel_onOpen ?c) = c_label (h' ! r)"
    using assms(5) by (simp_all add: Channel_onOpen_def NewAnswerChannel_def newChannel_def chan_close_def)
  have room: "\<not> ch_closed (li_accept l)" "length (ch_buf (li_accept l)) < ch_cap (li_accept l)"
    using assms(10) by (simp_all add: make_chan_def)
  let ?acc = "(li_accept l)\<lparr>ch_buf := ch_buf (li_accept l) @ [length hq]\<rparr>"
  obtain c where c0: "Channel_OnMessage pick (length hq) (li_accept l) (Channel_onOpen ?c) m =
      (MsgDone c, if c_type (Channel_onOpen ?c) = SDPTypeAnswer \<and> c_accept (Channel_onOpen ?c) then ?acc else li_accept l)"
    "chan_up c" "c_status c = Active" "rx_queue c = [m]" "rx_unread c = []" "c_label c = c_label (Channel_onOpen ?c)"
    by (rule first_message [OF up assms(8) room])
  then have c: "Channel_OnMessage pick (length hq) (li_accept l) (Channel_onOpen ?c) m = (MsgDone c, ?acc)"
    "chan_up c" "c_status c = Active" "rx_queue c = [m]" "rx_unread c = []" "c_label c = c_label (h' ! r)"
    using accept by simp_all
  have "0 < n" using assms(8,9) by (cases m) (auto simp: small_def)
  then obtain c' where "Channel_Read c n = CRead m None c'"
    using read_first_batch [of c m n] c(2-5) assms(9) by (auto simp: chan_up_def)
  then obtain c'' where read: "Conn_Read Channel_Read now waited pick'' (NewConn c) n = CnRead m None c''"
    using pending_deadline_never_fires [of "NewConn c" now Channel_Read waited pick'' n] by (simp add: NewConn_def)
  obtain l' where accepted: "Listener_Accept pick' (l\<lparr>li_accept := (li_accept l)\<lparr>ch_buf := ch_buf (li_accept l) @ [length hq]\<rparr>\<rparr>) =
      AcConn (NewConn (length hq)) l'" "li_accept l' = make_chan 100"
    using assms(10,11) by (simp add: Listener_Accept_def chan_recv_def make_chan_def chan_ready_def)
  have msg: "Channel_OnMessage pick (length hq) (li_accept l) (Channel_onOpen ((hq @ [?c]) ! length hq)) m =
      (MsgDone c, (li_accept l)\<lparr>ch_buf := ch_buf (li_accept l) @ [length hq]\<rparr>)"
    using c(1) by simp
  from filed msg accepted c(6) read show ?thesis by blast
qed

theorem dialled_channel_reaches_the_listener_witness:
  "\<exists>p' h' pool hq' c acc' l' c'.
     get_create [] (\<lambda>_. Inr ()) Web [] (NewChannelPool ''u'' [] ''b'' SDPTypeOffer) [] = (Inr 0, p', h') \<and>
     handleChannel [] ((newPeer ''v'' () ''u'' ''f'' SDPTypeAnswer)
         \<lparr>pe_pool := (NewChannelPool ''v'' ''u'' ''f'' SDPTypeAnswer)\<lparr>cp_accept := True\<rparr>\<rparr>)
       ([] :: unit heap) (Label_String (c_label (h' ! 0))) () = HPool None pool hq' \<and>
     Channel_OnMessage True 0 (make_chan 100) (Channel_onOpen (hq' ! 0)) [7] = (MsgDone c, acc') \<and>
     Listener_Accept True ((NewListener ''u'' ''ws'' ''open'' :: (unit, nat) Listener)\<lparr>li_accept := acc'\<rparr>) =
       AcConn (NewConn 0) l' \<and>
     Conn_Read Channel_Read 0 0 True (NewConn c) 16 = CnRead [7] None c'"
proof -
  let ?q = "(newPeer ''v'' () ''u'' ''f'' SDPTypeAnswer)
         \<lparr>pe_pool := (NewChannelPool ''v'' ''u'' ''f'' SDPTypeAnswer)\<lparr>cp_accept := True\<rparr>\<rparr>"
  let ?l = "NewListener ''u'' ''ws'' ''open'' :: (unit, nat) Listener"
  obtain p' h' where get: "get_create [] (\<lambda>_. Inr ()) Web [] (NewChannelPool ''u'' [] ''b'' SDPTypeOffer) [] = (Inr 0, p', h')"
    and p': "cp_idx p' = 1" "c_label (h' ! 0) = NewLabel Web 1"
    by (simp add: get_create_eq Let_def NewChannelPool_def new_taken)
  have q: "pool_inv (pe_pool ?q) ([] :: unit heap)" "cp_accept (pe_pool ?q)" "cp_actives (pe_pool ?q) = []"
    "cp_idles (pe_pool ?q) = []"
    by (simp_all add: pool_inv_def newPeer_def NewChannelPool_def)
  have l: "li_accept ?l = make_chan 100" "\<not> chan_ready (li_close ?l)"
    by (simp_all add: NewListener_def chan_ready_def make_chan_def)
  have small: "small [7 :: byte]" by (simp add: small_def)
  have "unat (cp_idx p') < 2 ^ 63" "Web \<in> {Web, Proxy, Ssh, File}" using p' by simp_all
  from dialled_channel_reaches_the_listener [OF get this(2,1) q(1,2) _ _ small _ l, of 16 "()" True True 0 0 True] q p' get l
  show ?thesis by force
qed

subsection \<open>Copying from a connection\<close>

text \<open>The results that the reads of a run returned at one end.\<close>

definition reads_at :: "side \<Rightarrow> dx_event list \<Rightarrow> (bytes \<times> go_error option) list" where
  "reads_at e evs = List.map_filter (\<lambda>ev. case ev of DRead f bs \<Rightarrow> if f = e then Some (bs, None) else None | _ \<Rightarrow> None) evs"

lemma reads_at_delivered:
  "read_error (reads_at e evs) = None"
  "delivered (reads_at e evs) = read_on (other e) (List.map_filter dx_visible evs)"
proof -
  have eq: "other f = other e \<longleftrightarrow> f = e" for f by (cases e; cases f; simp)
  show "read_error (reads_at e evs) = None"
    by (induction evs) (auto simp: reads_at_def List.map_filter_simps split: dx_event.splits)
  show "delivered (reads_at e evs) = read_on (other e) (List.map_filter dx_visible evs)"
    by (induction evs) (auto simp: reads_at_def List.map_filter_simps read_on_def eq split: dx_event.splits)
qed



end
